(* ===== verification/Prelude.thy ===== *)
theory Prelude
  imports Main "HOL-Library.Word" "HOL-Library.Multiset"
begin

text \<open>
  Shared vocabulary of the development: the machine types of the C sources, the part of the
  C library the modelled code calls (character classes, the strto family, the printf
  conversions, C strings in byte buffers), and the generic list and arithmetic lemmas the
  component theories rest on.

  Bytes are \<^typ>\<open>char\<close>, memory areas are \<^typ>\<open>string\<close>; a C string inside an
  area ends at its first NUL. Pointers into an area are offsets. A NULL pointer is
  \<^const>\<open>None\<close> where the code tests for it.
\<close>

named_theorems clib \<open>evaluation of the C library model on concrete texts\<close>
named_theorems layout \<open>offsets and lengths of on-disk fields\<close>

section \<open>Machine types\<close>

type_synonym u8 = "8 word"
type_synonym u32 = "32 word"
type_synonym u64 = "64 word"
type_synonym i64 = "64 word" \<comment> \<open>read with sint\<close>

definition SIZE_MAX :: nat where
  "SIZE_MAX = 2 ^ 64 - 1"

definition LLONG_MAX :: int where
  "LLONG_MAX = 2 ^ 63 - 1"

definition LLONG_MIN :: int where
  "LLONG_MIN = - (2 ^ 63)"

definition ULLONG_MAX :: nat where
  "ULLONG_MAX = 2 ^ 64 - 1"

datatype c_errno = ERANGE | EINVAL

section \<open>Characters and C strings\<close>

abbreviation NUL :: char where
  "NUL \<equiv> CHR 0x00"

definition isspace :: "char \<Rightarrow> bool" where
  "isspace c \<longleftrightarrow> c \<in> {CHR 0x20, CHR 0x09, CHR 0x0A, CHR 0x0B, CHR 0x0C, CHR 0x0D}"

definition digit_char :: "nat \<Rightarrow> char" where
  "digit_char d = char_of (48 + d)"

definition digit_val :: "char \<Rightarrow> nat" where
  "digit_val c = of_char c - 48"

text \<open>\<open>isbdigit b c\<close>: c is a digit of base b, for b at most 10.\<close>

definition isbdigit :: "nat \<Rightarrow> char \<Rightarrow> bool" where
  "isbdigit b c \<longleftrightarrow> 48 \<le> (of_char c :: nat) \<and> (of_char c :: nat) < 48 + b"

abbreviation isdigit :: "char \<Rightarrow> bool" where
  "isdigit \<equiv> isbdigit 10"

text \<open>The value of a char where the code does arithmetic with it: chars are signed.\<close>

definition signed_char :: "char \<Rightarrow> int" where
  "signed_char c = (if (of_char c :: int) < 128 then of_char c else of_char c - 256)"

text \<open>The C string that starts at the beginning of an area.\<close>

definition cstr :: "string \<Rightarrow> string" where
  "cstr m = takeWhile (\<lambda>c. c \<noteq> NUL) m"

definition strlen :: "string \<Rightarrow> nat" where
  "strlen m = length (cstr m)"

definition nul_free :: "string \<Rightarrow> bool" where
  "nul_free s \<longleftrightarrow> NUL \<notin> set s"

text \<open>strchr: the offset of the first occurrence of c in the C string.\<close>

definition strchr :: "string \<Rightarrow> char \<Rightarrow> nat option" where
  "strchr m c =
     (let pre = takeWhile (\<lambda>x. x \<noteq> c) (cstr m)
      in if length pre < strlen m then Some (length pre) else None)"

section \<open>The strto family\<close>

definition digits_value :: "nat \<Rightarrow> string \<Rightarrow> nat" where
  "digits_value b ds = foldl (\<lambda>a c. a * b + digit_val c) 0 ds"

text \<open>
  What all of them scan: white space, a sign, digits. The result is the sign, the digits and
  the offset where the conversion stops (0 when no digit was found). Only the bases 8 and 10
  are used by the modelled code.
\<close>

definition strto_scan :: "nat \<Rightarrow> string \<Rightarrow> bool \<times> string \<times> nat" where
  "strto_scan b s =
     (let ws = takeWhile isspace s;
          r = dropWhile isspace s;
          neg = (r \<noteq> [] \<and> hd r = CHR ''-'');
          sgn = (r \<noteq> [] \<and> (hd r = CHR ''-'' \<or> hd r = CHR ''+''));
          r' = (if sgn then tl r else r);
          ds = takeWhile (isbdigit b) r'
      in (neg, ds, if ds = [] then 0 else length ws + (if sgn then 1 else 0) + length ds))"

text \<open>
  The third component of a result is what errno is set to, \<^const>\<open>None\<close> when the
  call leaves it alone. As POSIX permits, a call that converts nothing sets EINVAL.
\<close>

definition strtoll :: "nat \<Rightarrow> string \<Rightarrow> int \<times> nat \<times> c_errno option" where
  "strtoll b s =
     (case strto_scan b s of (neg, ds, off) \<Rightarrow>
        if ds = [] then (0, 0, Some EINVAL)
        else (let v = (if neg then - int (digits_value b ds) else int (digits_value b ds))
              in if LLONG_MAX < v then (LLONG_MAX, off, Some ERANGE)
                 else if v < LLONG_MIN then (LLONG_MIN, off, Some ERANGE)
                 else (v, off, None)))"

definition strtoull :: "nat \<Rightarrow> string \<Rightarrow> nat \<times> nat \<times> c_errno option" where
  "strtoull b s =
     (case strto_scan b s of (neg, ds, off) \<Rightarrow>
        if ds = [] then (0, 0, Some EINVAL)
        else (let n = digits_value b ds
              in if ULLONG_MAX < n then (ULLONG_MAX, off, Some ERANGE)
                 else ((if neg then (2 ^ 64 - n) mod 2 ^ 64 else n), off, None)))"

section \<open>The printf conversions\<close>

fun to_base :: "nat \<Rightarrow> nat \<Rightarrow> string" where
  "to_base b n =
     (if b < 2 \<or> n < b then [digit_char n] else to_base b (n div b) @ [digit_char (n mod b)])"

declare to_base.simps [simp del, clib]

abbreviation fmt_u :: "nat \<Rightarrow> string" where
  "fmt_u \<equiv> to_base 10"

definition fmt_d :: "int \<Rightarrow> string" where
  "fmt_d i = (if i < 0 then CHR ''-'' # fmt_u (nat (- i)) else fmt_u (nat i))"

text \<open>\<open>%.0d\<close> of an int: nothing for 0.\<close>

definition fmt_d0 :: "int \<Rightarrow> string" where
  "fmt_d0 i = (if i = 0 then '''' else fmt_d i)"

text \<open>\<open>%.*llo\<close>: octal, at least p digits.\<close>

definition fmt_o :: "nat \<Rightarrow> nat \<Rightarrow> string" where
  "fmt_o p n = (let s = to_base 8 n in replicate (p - length s) (CHR ''0'') @ s)"

text \<open>The int a variadic call reads for a size\_t argument: its low 32 bits.\<close>

definition as_int :: "nat \<Rightarrow> int" where
  "as_int n = sint (word_of_nat n :: 32 word)"

text \<open>
  snprintf into an area of \<open>n\<close> bytes: at most \<open>n - 1\<close> characters and a NUL; an area of
  length 0 is left alone. Bytes past the NUL keep their value.
\<close>

definition snprintf :: "string \<Rightarrow> nat \<Rightarrow> string \<Rightarrow> string" where
  "snprintf m n s =
     (if n = 0 then m
      else (let w = take (n - 1) s @ [NUL] in w @ drop (length w) m))"

text \<open>memcpy of \<open>s\<close> to offset \<open>i\<close> of an area.\<close>

definition overwrite :: "string \<Rightarrow> nat \<Rightarrow> string \<Rightarrow> string" where
  "overwrite m i s = take i m @ s @ drop (i + length s) m"

section \<open>Lemmas: C strings\<close>

lemma signed_char_nat: "signed_char c = int (of_char c) - (if 128 \<le> (of_char c :: nat) then 256 else 0)"
proof -
  have "(of_char c :: int) = int (of_char c)"
    by (simp only: of_nat_of_char)
  then show ?thesis
    by (auto simp: signed_char_def)
qed

lemma cstr_nul_free [simp]: "nul_free s \<Longrightarrow> cstr s = s"
  by (auto simp: cstr_def nul_free_def takeWhile_eq_all_conv)

lemma cstr_append_NUL [simp]: "nul_free s \<Longrightarrow> cstr (s @ NUL # t) = s"
  by (auto simp: cstr_def nul_free_def takeWhile_tail)

lemma cstr_append_nul_free [simp]: "nul_free s \<Longrightarrow> cstr (s @ t) = s @ cstr t"
  by (induction s) (auto simp: cstr_def nul_free_def)

lemma cstr_Cons_NUL [simp]: "cstr (NUL # t) = []"
  by (simp add: cstr_def)

lemma cstr_Nil [simp]: "cstr [] = []"
  by (simp add: cstr_def)

lemma nul_free_cstr [simp]: "nul_free (cstr s)"
  by (auto simp: cstr_def nul_free_def dest: set_takeWhileD)

lemma nul_free_append [simp]: "nul_free (s @ t) \<longleftrightarrow> nul_free s \<and> nul_free t"
  by (auto simp: nul_free_def)

lemma nul_free_Cons [simp]: "nul_free (c # t) \<longleftrightarrow> c \<noteq> NUL \<and> nul_free t"
  by (auto simp: nul_free_def)

lemma nul_free_Nil [simp]: "nul_free []"
  by (simp add: nul_free_def)

lemma cstr_shorter: "NUL \<in> set s \<Longrightarrow> length (cstr s) < length s"
  by (induction s) (auto simp: cstr_def)

lemma strlen_le: "strlen m \<le> length m"
  by (simp add: strlen_def cstr_def length_takeWhile_le)

lemma cstr_replicate_NUL [simp]: "cstr (replicate n NUL) = []"
  by (cases n) auto

lemma strchr_append:
  assumes "nul_free s" "c \<notin> set s" "c \<noteq> NUL"
  shows "strchr (s @ c # t) c = Some (length s)"
proof -
  have "cstr (s @ c # t) = s @ cstr (c # t)"
    using assms(1) by (rule cstr_append_nul_free)
  then have "cstr (s @ c # t) = s @ c # cstr t"
    using assms(3) by (simp add: cstr_def)
  moreover have "takeWhile (\<lambda>x. x \<noteq> c) (s @ c # cstr t) = s"
    using assms(2) by (induction s) auto
  ultimately show ?thesis
    by (simp add: strchr_def strlen_def)
qed

lemma length_overwrite [simp]:
  "i + length s \<le> length m \<Longrightarrow> length (overwrite m i s) = length m"
  by (simp add: overwrite_def)

lemma length_snprintf: "n \<le> length m \<Longrightarrow> length (snprintf m n s) = length m"
  by (auto simp: snprintf_def Let_def min_def)

lemma take_drop_overwrite_same [simp]:
  "i + length s \<le> length m \<Longrightarrow> take (length s) (drop i (overwrite m i s)) = s"
  by (simp add: overwrite_def)

lemma take_drop_overwrite_below:
  "i + length s \<le> length m \<Longrightarrow> j + n \<le> i \<Longrightarrow>
   take n (drop j (overwrite m i s)) = take n (drop j m)"
  by (cases "j \<le> i") (auto simp: overwrite_def drop_take)

lemma take_drop_overwrite_above:
  "i + length s \<le> length m \<Longrightarrow> i + length s \<le> j \<Longrightarrow>
   take n (drop j (overwrite m i s)) = take n (drop j m)"
  by (simp add: overwrite_def min_def)

lemma dropWhile_replicate [simp]: "P c \<Longrightarrow> dropWhile P (replicate n c @ r) = dropWhile P r"
  by (induction n) auto

section \<open>Lemmas: digits\<close>

lemma digit_val_char [simp]: "d < 10 \<Longrightarrow> digit_val (digit_char d) = d"
  by (simp add: digit_val_def digit_char_def)

lemma isbdigit_char [simp]: "d < 10 \<Longrightarrow> isbdigit b (digit_char d) \<longleftrightarrow> d < b"
  by (simp add: isbdigit_def digit_char_def)

lemma digit_char_0 [simp]: "digit_char 0 = CHR ''0''"
  unfolding digit_char_def by code_simp

lemma digit_chars [simp]:
  "digit_char (Suc 0) = CHR ''1''" "digit_char 2 = CHR ''2''" "digit_char 3 = CHR ''3''"
  "digit_char 4 = CHR ''4''" "digit_char 5 = CHR ''5''" "digit_char 6 = CHR ''6''"
  "digit_char 7 = CHR ''7''" "digit_char 8 = CHR ''8''" "digit_char 9 = CHR ''9''"
  unfolding digit_char_def by code_simp+

lemma digit_char_not_NUL [simp]: "d < 10 \<Longrightarrow> digit_char d \<noteq> NUL"
proof
  assume "d < 10" "digit_char d = NUL"
  then have "(of_char (digit_char d) :: nat) = of_char NUL"
    by simp
  then show False
    using \<open>d < 10\<close> by (simp add: digit_char_def)
qed

lemma isbdigit_not_space [simp]: "b \<le> 10 \<Longrightarrow> isbdigit b c \<Longrightarrow> \<not> isspace c"
  by (auto simp: isbdigit_def isspace_def)

lemma isbdigit_not_sign [simp]:
  "b \<le> 10 \<Longrightarrow> isbdigit b c \<Longrightarrow> c \<noteq> CHR ''-''"
  "b \<le> 10 \<Longrightarrow> isbdigit b c \<Longrightarrow> c \<noteq> CHR ''+''"
  by (auto simp: isbdigit_def)

lemma to_base_nonempty [simp]: "to_base b n \<noteq> []"
  by (subst to_base.simps) simp

lemma to_base_digits:
  "2 \<le> b \<Longrightarrow> b \<le> 10 \<Longrightarrow> c \<in> set (to_base b n) \<Longrightarrow> isbdigit b c"
proof (induction b n rule: to_base.induct)
  case (1 b n)
  show ?case
  proof (cases "n < b")
    case True
    with "1.prems" show ?thesis
      by (simp add: to_base.simps [of b n])
  next
    case False
    with "1.prems" have "c \<in> set (to_base b (n div b)) \<or> c = digit_char (n mod b)"
      by (auto simp: to_base.simps [of b n])
    moreover have "n mod b < b" "n mod b < 10"
      using "1.prems"(1,2) mod_less_divisor [of b n] by linarith+
    ultimately show ?thesis
      using "1.IH" "1.prems" False by auto
  qed
qed

lemma fmt_u_digits: "c \<in> set (fmt_u n) \<Longrightarrow> isdigit c"
  by (rule to_base_digits [of 10]) simp_all

lemma digits_value_snoc: "digits_value b (ds @ [c]) = digits_value b ds * b + digit_val c"
  by (simp add: digits_value_def)

lemma digits_value_to_base [simp]:
  "2 \<le> b \<Longrightarrow> b \<le> 10 \<Longrightarrow> digits_value b (to_base b n) = n"
proof (induction b n rule: to_base.induct)
  case (1 b n)
  show ?case
  proof (cases "n < b")
    case True
    with "1.prems" show ?thesis
      by (simp add: to_base.simps [of b n] digits_value_def)
  next
    case False
    have "n mod b < 10"
      using "1.prems" mod_less_divisor [of b n] by linarith
    with False "1" show ?thesis
      by (simp add: to_base.simps [of b n] digits_value_snoc)
  qed
qed

lemma to_base_nul_free [simp]: "2 \<le> b \<Longrightarrow> b \<le> 10 \<Longrightarrow> nul_free (to_base b n)"
  using to_base_digits [of b NUL n] by (auto simp: nul_free_def isbdigit_def)

lemma length_to_base_pos [simp]: "0 < length (to_base b n)"
  by simp

text \<open>The number of digits: \<open>length (to_base b n) \<le> k\<close> exactly when \<open>n < b ^ k\<close>.\<close>

lemma length_to_base_le:
  "2 \<le> b \<Longrightarrow> 0 < k \<Longrightarrow> length (to_base b n) \<le> k \<longleftrightarrow> n < b ^ k"
proof (induction b n arbitrary: k rule: to_base.induct)
  case (1 b n)
  show ?case
  proof (cases "n < b")
    case True
    moreover have "b ^ 1 \<le> b ^ k"
      using "1.prems" by (intro power_increasing) auto
    ultimately show ?thesis
      using "1.prems" by (simp add: to_base.simps [of b n] Suc_le_eq)
  next
    case False
    show ?thesis
    proof (cases "k = 1")
      case True
      then show ?thesis
        using False "1.prems" by (simp add: to_base.simps [of b n])
    next
      case k: False
      then obtain k' where k': "k = Suc k'" "0 < k'"
        using "1.prems"(2) by (cases k) auto
      have "length (to_base b n) \<le> k \<longleftrightarrow> length (to_base b (n div b)) \<le> k'"
        using False "1.prems" k' by (simp add: to_base.simps [of b n])
      also have "\<dots> \<longleftrightarrow> n div b < b ^ k'"
        using "1.IH" False "1.prems" k' by auto
      also have "\<dots> \<longleftrightarrow> n < b ^ k"
        using "1.prems" k' by (simp add: div_less_iff_less_mult mult.commute)
      finally show ?thesis .
    qed
  qed
qed

lemma length_to_base_eq:
  assumes "2 \<le> b" "0 < k" "n < b ^ k" "k = 1 \<or> b ^ (k - 1) \<le> n"
  shows "length (to_base b n) = k"
proof -
  have "length (to_base b n) \<le> k"
    using assms length_to_base_le by simp
  moreover have "\<not> length (to_base b n) \<le> k - 1" if "k \<noteq> 1"
    using assms that length_to_base_le [of b "k - 1" n] by simp
  moreover have "0 < length (to_base b n)"
    by (rule length_to_base_pos)
  ultimately show ?thesis
    by (cases "k = 1") (simp_all del: length_to_base_pos length_greater_0_conv)
qed

section \<open>Lemmas: scanning what was printed\<close>

text \<open>A run of digits followed by something else.\<close>

definition ends_digits :: "nat \<Rightarrow> string \<Rightarrow> bool" where
  "ends_digits b t \<longleftrightarrow> t = [] \<or> \<not> isbdigit b (hd t)"

lemma takeWhile_digits:
  "(\<And>c. c \<in> set ds \<Longrightarrow> isbdigit b c) \<Longrightarrow> ends_digits b t \<Longrightarrow>
   takeWhile (isbdigit b) (ds @ t) = ds"
  by (cases t) (auto simp: ends_digits_def takeWhile_tail)

lemma strto_scan_digits:
  assumes ds: "\<And>c. c \<in> set ds \<Longrightarrow> isbdigit b c" "ds \<noteq> []"
    and t: "ends_digits b t" and b: "b \<le> 10"
  shows "strto_scan b (ds @ t) = (False, ds, length ds)"
proof -
  obtain d ds' where ds': "ds = d # ds'" "isbdigit b d"
    using ds by (cases ds) auto
  then have "\<not> isspace d" "d \<noteq> CHR ''-''" "d \<noteq> CHR ''+''"
    using b by auto
  then show ?thesis
    using takeWhile_digits [OF ds(1) t] ds' by (simp add: strto_scan_def Let_def)
qed

lemma strto_scan_neg_digits:
  assumes ds: "\<And>c. c \<in> set ds \<Longrightarrow> isbdigit b c" "ds \<noteq> []"
    and t: "ends_digits b t"
  shows "strto_scan b (CHR ''-'' # ds @ t) = (True, ds, Suc (length ds))"
  using takeWhile_digits [OF ds(1) t] ds(2)
  by (simp add: strto_scan_def Let_def isspace_def)

lemma strtoll_fmt_d:
  assumes "LLONG_MIN \<le> i" "i \<le> LLONG_MAX" and t: "ends_digits 10 t"
  shows "strtoll 10 (fmt_d i @ t) = (i, length (fmt_d i), None)"
proof (cases "i < 0")
  case True
  have "strto_scan 10 (CHR ''-'' # fmt_u (nat (- i)) @ t) =
      (True, fmt_u (nat (- i)), Suc (length (fmt_u (nat (- i)))))"
    by (rule strto_scan_neg_digits) (auto intro: to_base_digits t)
  with True assms show ?thesis
    by (simp add: strtoll_def fmt_d_def)
next
  case False
  have "strto_scan 10 (fmt_u (nat i) @ t) = (False, fmt_u (nat i), length (fmt_u (nat i)))"
    by (rule strto_scan_digits) (auto intro: to_base_digits t)
  with False assms show ?thesis
    by (simp add: strtoll_def fmt_d_def)
qed

lemma strtoull_digits:
  assumes "\<And>c. c \<in> set ds \<Longrightarrow> isbdigit b c" "ds \<noteq> []" "ends_digits b t" "b \<le> 10"
    and "digits_value b ds \<le> ULLONG_MAX"
  shows "strtoull b (ds @ t) = (digits_value b ds, length ds, None)"
  using strto_scan_digits [OF assms(1-4)] assms(2,5) by (simp add: strtoull_def Let_def)

lemma strtoll_digits:
  assumes "\<And>c. c \<in> set ds \<Longrightarrow> isbdigit b c" "ds \<noteq> []" "ends_digits b t" "b \<le> 10"
  shows "strtoll b (ds @ t) =
    (if LLONG_MAX < int (digits_value b ds) then (LLONG_MAX, length ds, Some ERANGE)
     else (int (digits_value b ds), length ds, None))"
  using strto_scan_digits [OF assms(1-4)] assms(2)
  by (auto simp: strtoll_def Let_def LLONG_MIN_def)

lemma digits_value_replicate_0 [simp]:
  "digits_value b (replicate k (CHR ''0'') @ ds) = digits_value b ds"
  by (induction k) (auto simp: digits_value_def digit_val_def)

lemma fmt_o_digits: "c \<in> set (fmt_o p n) \<Longrightarrow> isbdigit 8 c"
  by (auto simp: fmt_o_def Let_def isbdigit_def dest: to_base_digits [of 8, simplified])

lemma fmt_o_nonempty [simp]: "fmt_o p n \<noteq> []"
  by (simp add: fmt_o_def Let_def)

lemma fmt_o_value [simp]: "digits_value 8 (fmt_o p n) = n"
  by (simp add: fmt_o_def Let_def)

lemma fmt_o_nul_free [simp]: "nul_free (fmt_o p n)"
  using fmt_o_digits [of NUL p n] by (auto simp: nul_free_def isbdigit_def)

lemma length_fmt_o: "length (fmt_o p n) = max p (length (to_base 8 n))"
  by (simp add: fmt_o_def Let_def max_def)

lemma length_fmt_o_le: "0 < p \<Longrightarrow> length (fmt_o p n) \<le> p \<longleftrightarrow> n < 8 ^ p"
  by (simp add: length_fmt_o length_to_base_le)

lemma as_int_small: "n < 2 ^ 31 \<Longrightarrow> as_int n = int n"
  unfolding as_int_def by (simp add: signed_of_nat signed_take_bit_int_eq_self)

end
