(* ===== verification/Arcopy_Buffer.thy ===== *)
theory Arcopy_Buffer
  imports Prelude
begin

text \<open>
  The circular buffer of the archive copy process (src/src/archiver/arcopy/copyfile.c). One
  thread copies files into the buffer: \<open>WaitRoom\<close>, a copy to the returned address,
  \<open>AdvanceIn\<close>; \<open>WriteData\<close> and \<open>RoundBuffer\<close> are loops over these. A second thread,
  \<open>WriteBuffer\<close>, takes blocks of \<open>WriteCount\<close> bytes out and writes them to the archive medium.
  \<open>EndArchiveFile\<close> makes it write the rest, and \<open>CopyFileReconfig\<close> replaces the buffer by a
  larger one when the block size of the medium grows.

  This theory has the operations as functions on the state of the buffer, and shows that they
  implement a queue of bytes. The threads are the subject of Arcopy\_Threads.
\<close>

section \<open>State of the buffer\<close>

text \<open>
  \<open>bufFirst\<close> is the memory between the pointers bufFirst and bufLast; the empty string
  stands for NULL. The offsets, sizes and counts are ints of the C code that stay between 0
  and the size of the buffer.
\<close>

record arcopy =
  bufFirst :: string
  bufSize :: nat
  bufIn :: nat
  bufOut :: nat
  fileOffset :: nat
  bufEndArchive :: bool
  bufEmpty :: bool
  bufFull :: bool
  blockCount :: nat
  WriteCount :: nat
  ReadCount :: nat

text \<open>The bytes the writing thread finds in the buffer.\<close>

definition used :: "arcopy \<Rightarrow> nat" where
  "used st = nat (let n = int (bufIn st) - int (bufOut st) in if n < 0 then n + int (bufSize st) else n)"

text \<open>The condition that ends the loop of \<open>WaitRoom\<close>.\<close>

definition WaitRoom :: "arcopy \<Rightarrow> nat \<Rightarrow> bool" where
  "WaitRoom st nbytes \<longleftrightarrow>
     (let n = int (bufOut st) - int (bufIn st); n' = (if n \<le> 0 then n + int (bufSize st) else n)
      in n' - 1 > int nbytes)"

definition AdvanceIn :: "arcopy \<Rightarrow> nat \<Rightarrow> arcopy" where
  "AdvanceIn st nbytes =
     st\<lparr>fileOffset := fileOffset st + nbytes,
        bufIn := (let i = bufIn st + nbytes in if bufSize st \<le> i then i - bufSize st else i),
        bufEmpty := False\<rparr>"

text \<open>
  Data copied to the address \<open>WaitRoom\<close> returned. Only \<open>buildPaxHeader\<close> copies across the
  end of the buffer, in two pieces; the other callers cut their data there first.
\<close>

definition copy_in :: "arcopy \<Rightarrow> string \<Rightarrow> arcopy" where
  "copy_in st xs =
     (let n = bufSize st - bufIn st
      in if length xs \<le> n then st\<lparr>bufFirst := overwrite (bufFirst st) (bufIn st) xs\<rparr>
         else st\<lparr>bufFirst :=
           overwrite (overwrite (bufFirst st) (bufIn st) (take n xs)) 0 (drop n xs)\<rparr>)"

text \<open>The bytes \<open>writeBlock\<close> hands to the medium.\<close>

definition block_out :: "arcopy \<Rightarrow> nat \<Rightarrow> string" where
  "block_out st l = take l (drop (bufOut st) (bufFirst st))"

definition advance_out :: "arcopy \<Rightarrow> nat \<Rightarrow> arcopy" where
  "advance_out st l =
     st\<lparr>bufOut := (if bufOut st + l = bufSize st then 0 else bufOut st + l), bufFull := False\<rparr>"

definition beginArchiveFile :: "arcopy \<Rightarrow> arcopy" where
  "beginArchiveFile st = st\<lparr>bufIn := 0, bufOut := 0\<rparr>"

section \<open>Copying data\<close>

text \<open>
  The loop of \<open>WriteData\<close>: at most \<open>ReadCount\<close> bytes at a time, cut at the end of the buffer.
  The result is the list of the sizes it waited for and the final state; the waits do not
  change what is copied where. A loop that makes no progress does not return, which
  is \<^const>\<open>None\<close>.
\<close>

definition piece :: "arcopy \<Rightarrow> nat \<Rightarrow> nat" where
  "piece st n = (if bufSize st < bufIn st + n then bufSize st - bufIn st else n)"

definition put_piece :: "arcopy \<Rightarrow> string \<Rightarrow> arcopy" where
  "put_piece st xs = AdvanceIn (copy_in st xs) (length xs)"

partial_function (option) WriteData :: "arcopy \<Rightarrow> string \<Rightarrow> (nat list \<times> arcopy) option" where
  "WriteData st data =
     (if data = [] then Some ([], st)
      else (let want = min (length data) (ReadCount st);
                n = piece st want
            in Option.bind (WriteData (put_piece st (take n data)) (drop n data))
                 (\<lambda>(ws, st'). Some (want # ws, st'))))"

text \<open>\<open>RoundBuffer\<close>: zeros up to a multiple of nbytes, without the limit of \<open>ReadCount\<close>.\<close>

partial_function (option) round_loop :: "arcopy \<Rightarrow> nat \<Rightarrow> (nat list \<times> arcopy) option" where
  "round_loop st rm =
     (if rm = 0 then Some ([], st)
      else (let n = piece st rm
            in Option.bind (round_loop (put_piece st (replicate n NUL)) (rm - n))
                 (\<lambda>(ws, st'). Some (rm # ws, st'))))"

definition RoundBuffer :: "arcopy \<Rightarrow> nat \<Rightarrow> (nat list \<times> arcopy) option" where
  "RoundBuffer st nbytes =
     (let excess = fileOffset st mod nbytes
      in if excess \<noteq> 0 then round_loop st (nbytes - excess) else Some ([], st))"

section \<open>Reconfiguration\<close>

text \<open>
  The block count is halved while the buffer size as a 64-bit number is at least
  \<^const>\<open>SIZE_MAX\<close>; then the size is computed again, now with 32-bit ints, and converted
  to size\_t.
\<close>

function adjust_blocks :: "nat \<Rightarrow> nat \<Rightarrow> nat" where
  "adjust_blocks blkCnt wc =
     (if SIZE_MAX \<le> (blkCnt * wc) mod 2 ^ 64 then adjust_blocks (blkCnt div 2) wc else blkCnt)"
  by auto
termination
proof (relation "measure fst")
  fix blkCnt wc
  assume "SIZE_MAX \<le> (blkCnt * wc) mod 2 ^ 64"
  then have "blkCnt \<noteq> 0"
    by (cases "blkCnt = 0") (simp_all add: SIZE_MAX_def)
  then show "((blkCnt div 2, wc), blkCnt, wc) \<in> measure fst"
    by simp
qed simp

declare adjust_blocks.simps [simp del]

definition int_product :: "nat \<Rightarrow> nat \<Rightarrow> nat" where
  "int_product a b = nat (sint (word_of_nat (a * b) :: u32) mod 2 ^ 64)"

text \<open>
  The data between the offsets moved to the start of new memory. \<open>fresh\<close> is what the
  allocation returns, \<^const>\<open>None\<close> when it fails, and then the process exits.
\<close>

definition move_data :: "nat \<Rightarrow> arcopy \<Rightarrow> string \<Rightarrow> arcopy" where
  "move_data prevBufSize st mem =
     (if bufOut st = bufIn st then st\<lparr>bufFirst := mem\<rparr>
      else
        (let old = bufFirst st;
             wrapped = bufIn st < bufOut st;
             part1 = (if wrapped then take (prevBufSize - bufOut st) (drop (bufOut st) old) else []);
             part2 = (if wrapped then take (bufIn st) old
                      else take (bufIn st - bufOut st) (drop (bufOut st) old));
             mem1 = overwrite mem 0 part1
         in st\<lparr>bufFirst := overwrite mem1 (length part1) part2, bufOut := 0,
               bufIn := length part1 + length part2\<rparr>))"

definition CopyFileReconfig :: "nat \<Rightarrow> (nat \<Rightarrow> string option) \<Rightarrow> arcopy \<Rightarrow> arcopy option" where
  "CopyFileReconfig config fresh st =
     (let blocks = adjust_blocks (if bufFirst st = [] then config else blockCount st) (WriteCount st);
          size = int_product blocks (WriteCount st);
          st1 = st\<lparr>blockCount := blocks, bufSize := size\<rparr>
      in if size \<le> bufSize st then Some st1
         else case fresh size of
           None \<Rightarrow> None
         | Some mem \<Rightarrow>
             Some ((if bufFirst st = [] then st1\<lparr>bufFirst := mem\<rparr> else move_data (bufSize st) st1 mem)
               \<lparr>ReadCount := size div 2\<rparr>))"

section \<open>The buffer as a queue: lemmas\<close>

text \<open>n bytes of a ring of the given size, from offset i on.\<close>

definition window :: "string \<Rightarrow> nat \<Rightarrow> nat \<Rightarrow> nat \<Rightarrow> string" where
  "window m sz i n = map (\<lambda>k. m ! ((i + k) mod sz)) [0..<n]"

definition ring_ok :: "arcopy \<Rightarrow> bool" where
  "ring_ok st \<longleftrightarrow> length (bufFirst st) = bufSize st \<and> bufIn st < bufSize st \<and> bufOut st < bufSize st"

definition pending :: "arcopy \<Rightarrow> string" where
  "pending st = window (bufFirst st) (bufSize st) (bufOut st) (used st)"

lemma used_update [simp]:
  "used (st\<lparr>WriteCount := w\<rparr>) = used st"
  "used (st\<lparr>ReadCount := w\<rparr>) = used st"
  "used (st\<lparr>blockCount := w\<rparr>) = used st"
  "used (st\<lparr>bufEmpty := b\<rparr>) = used st"
  "used (st\<lparr>bufFull := b\<rparr>) = used st"
  "used (st\<lparr>bufEndArchive := b\<rparr>) = used st"
  "used (st\<lparr>fileOffset := w\<rparr>) = used st"
  by (simp_all add: used_def Let_def)

lemma ring_ok_update [simp]:
  "ring_ok (st\<lparr>WriteCount := w\<rparr>) = ring_ok st"
  "ring_ok (st\<lparr>ReadCount := w\<rparr>) = ring_ok st"
  "ring_ok (st\<lparr>blockCount := w\<rparr>) = ring_ok st"
  "ring_ok (st\<lparr>bufEmpty := b\<rparr>) = ring_ok st"
  "ring_ok (st\<lparr>bufFull := b\<rparr>) = ring_ok st"
  "ring_ok (st\<lparr>bufEndArchive := b\<rparr>) = ring_ok st"
  "ring_ok (st\<lparr>fileOffset := w\<rparr>) = ring_ok st"
  by (simp_all add: ring_ok_def)

lemma pending_update [simp]:
  "pending (st\<lparr>WriteCount := w\<rparr>) = pending st"
  "pending (st\<lparr>ReadCount := w\<rparr>) = pending st"
  "pending (st\<lparr>blockCount := w\<rparr>) = pending st"
  "pending (st\<lparr>bufEmpty := b\<rparr>) = pending st"
  "pending (st\<lparr>bufFull := b\<rparr>) = pending st"
  "pending (st\<lparr>bufEndArchive := b\<rparr>) = pending st"
  "pending (st\<lparr>fileOffset := w\<rparr>) = pending st"
  by (simp_all add: pending_def)

lemma length_window [simp]: "length (window m sz i n) = n"
  by (simp add: window_def)

lemma window_add: "window m sz i (a + b) = window m sz i a @ window m sz ((i + a) mod sz) b"
  by (rule nth_equalityI) (auto simp: window_def nth_append mod_add_left_eq add.assoc)

lemma window_mod: "window m sz (i mod sz) n = window m sz i n"
  by (simp add: window_def mod_add_left_eq)

lemma window_straight:
  assumes "i + n \<le> sz" "length m = sz"
  shows "window m sz i n = take n (drop i m)"
  using assms by (intro nth_equalityI) (auto simp: window_def)

lemma used_simps:
  assumes "ring_ok st"
  shows "used st = (if bufOut st \<le> bufIn st then bufIn st - bufOut st else bufIn st + bufSize st - bufOut st)"
    and "used st < bufSize st" and "(bufOut st + used st) mod bufSize st = bufIn st"
proof -
  show eq: "used st = (if bufOut st \<le> bufIn st then bufIn st - bufOut st else bufIn st + bufSize st - bufOut st)"
    using assms by (auto simp: used_def ring_ok_def Let_def)
  show "used st < bufSize st" "(bufOut st + used st) mod bufSize st = bufIn st"
    using assms unfolding eq by (auto simp: ring_ok_def)
qed

lemma WaitRoom_iff: "ring_ok st \<Longrightarrow> WaitRoom st n \<longleftrightarrow> used st + n + 1 < bufSize st"
  by (auto simp: WaitRoom_def used_def ring_ok_def Let_def)

text \<open>Copying does not touch the pending data, and the data is where the next advance takes it.\<close>

lemma nth_overwrite:
  assumes "i + length xs \<le> length m" "j < length m"
  shows "overwrite m i xs ! j = (if i \<le> j \<and> j < i + length xs then xs ! (j - i) else m ! j)"
  using assms by (auto simp: overwrite_def nth_append min_def)

lemma nth_copy_in:
  assumes ok: "ring_ok st" and len: "length xs \<le> bufSize st" and j: "j < bufSize st"
  shows "bufFirst (copy_in st xs) ! j =
    (let k = (if bufIn st \<le> j then j - bufIn st else j + bufSize st - bufIn st)
     in if k < length xs then xs ! k else bufFirst st ! j)"
proof (cases "length xs \<le> bufSize st - bufIn st")
  case True
  then show ?thesis
    using ok j nth_overwrite [of "bufIn st" xs "bufFirst st" j]
    by (auto simp: copy_in_def Let_def ring_ok_def)
next
  case False
  let ?n = "bufSize st - bufIn st"
  have l: "length (bufFirst st) = bufSize st" "bufIn st < bufSize st"
    using ok by (simp_all add: ring_ok_def)
  then show ?thesis
    using False j len nth_overwrite [of 0 "drop ?n xs" "overwrite (bufFirst st) (bufIn st) (take ?n xs)" j]
      nth_overwrite [of "bufIn st" "take ?n xs" "bufFirst st" j]
    by (auto simp: copy_in_def Let_def add.commute)
qed

lemma copy_in_simps [simp]:
  "bufSize (copy_in st xs) = bufSize st" "bufIn (copy_in st xs) = bufIn st"
  "bufOut (copy_in st xs) = bufOut st" "fileOffset (copy_in st xs) = fileOffset st"
  "bufEndArchive (copy_in st xs) = bufEndArchive st" "bufEmpty (copy_in st xs) = bufEmpty st"
  "bufFull (copy_in st xs) = bufFull st" "blockCount (copy_in st xs) = blockCount st"
  "WriteCount (copy_in st xs) = WriteCount st" "ReadCount (copy_in st xs) = ReadCount st"
  "used (copy_in st xs) = used st"
  by (simp_all add: copy_in_def Let_def used_def)

lemma copy_in_ok:
  assumes "ring_ok st" "length xs \<le> bufSize st"
  shows "ring_ok (copy_in st xs)"
  using assms by (auto simp: ring_ok_def copy_in_def Let_def)

lemma copy_in_window:
  assumes ok: "ring_ok st" and room: "used st + length xs < bufSize st"
  shows "pending (copy_in st xs) = pending st"
    and "window (bufFirst (copy_in st xs)) (bufSize st) (bufIn st) (length xs) = xs"
proof -
  have l: "bufIn st < bufSize st" "bufOut st < bufSize st" "length xs \<le> bufSize st"
    using ok room by (simp_all add: ring_ok_def)
  have wrap: "(a + k) mod bufSize st = (if a + k < bufSize st then a + k else a + k - bufSize st)"
    if "a < bufSize st" "k < bufSize st" for a k
    using that by (auto simp: mod_if)
  show "pending (copy_in st xs) = pending st"
  proof -
    have "bufFirst (copy_in st xs) ! ((bufOut st + k) mod bufSize st) =
        bufFirst st ! ((bufOut st + k) mod bufSize st)" if k: "k < used st" for k
    proof -
      let ?j = "(bufOut st + k) mod bufSize st"
      have "length xs \<le> (if bufIn st \<le> ?j then ?j - bufIn st else ?j + bufSize st - bufIn st)"
        using used_simps(1) [OF ok] k room l wrap [OF l(2), of k]
        by (cases "bufOut st \<le> bufIn st"; cases "bufOut st + k < bufSize st") auto
      then show ?thesis
        using l nth_copy_in [OF ok l(3), of ?j] by (simp add: Let_def)
    qed
    then show ?thesis
      by (simp add: pending_def window_def)
  qed
  show "window (bufFirst (copy_in st xs)) (bufSize st) (bufIn st) (length xs) = xs"
  proof (rule nth_equalityI)
    fix k
    assume "k < length (window (bufFirst (copy_in st xs)) (bufSize st) (bufIn st) (length xs))"
    then have k: "k < length xs"
      by simp
    then show "window (bufFirst (copy_in st xs)) (bufSize st) (bufIn st) (length xs) ! k = xs ! k"
      using l nth_copy_in [OF ok l(3), of "(bufIn st + k) mod bufSize st"] wrap [OF l(1), of k]
      by (auto simp: window_def Let_def split: if_splits)
  qed simp
qed

lemma AdvanceIn_ok:
  assumes ok: "ring_ok st" and room: "used st + n < bufSize st"
  shows "ring_ok (AdvanceIn st n)" "used (AdvanceIn st n) = used st + n"
    "pending (AdvanceIn st n) = pending st @ window (bufFirst st) (bufSize st) (bufIn st) n"
proof -
  show ok': "ring_ok (AdvanceIn st n)"
    using ok room by (auto simp: ring_ok_def AdvanceIn_def Let_def)
  have io: "bufIn st < bufSize st" "bufOut st < bufSize st"
    using ok by (simp_all add: ring_ok_def)
  have i: "bufIn (AdvanceIn st n) = (if bufSize st \<le> bufIn st + n then bufIn st + n - bufSize st else bufIn st + n)"
    "bufOut (AdvanceIn st n) = bufOut st" "bufSize (AdvanceIn st n) = bufSize st"
    by (simp_all add: AdvanceIn_def Let_def)
  show u: "used (AdvanceIn st n) = used st + n"
    using used_simps(1) [OF ok] room io unfolding used_simps(1) [OF ok'] i
    by (cases "bufOut st \<le> bufIn st") auto
  show "pending (AdvanceIn st n) = pending st @ window (bufFirst st) (bufSize st) (bufIn st) n"
    using window_add [of "bufFirst st" "bufSize st" "bufOut st" "used st" n] used_simps(3) [OF ok] u
    by (simp add: pending_def) (simp add: AdvanceIn_def)
qed

lemma block_out_take:
  assumes "ring_ok st" "l \<le> used st" "bufOut st + l \<le> bufSize st"
  shows "block_out st l = take l (pending st)"
proof -
  have "pending st = window (bufFirst st) (bufSize st) (bufOut st) l @
      window (bufFirst st) (bufSize st) ((bufOut st + l) mod bufSize st) (used st - l)"
    using window_add [of "bufFirst st" "bufSize st" "bufOut st" l "used st - l"] assms(2)
    by (simp add: pending_def)
  then show ?thesis
    using window_straight [OF assms(3)] assms(1,3) by (simp add: block_out_def ring_ok_def)
qed

lemma advance_out_ok:
  assumes ok: "ring_ok st" and l: "l \<le> used st" "bufOut st + l \<le> bufSize st"
  shows "ring_ok (advance_out st l)" "used (advance_out st l) = used st - l"
    "pending (advance_out st l) = drop l (pending st)"
proof -
  have o: "bufOut (advance_out st l) = (bufOut st + l) mod bufSize st"
    using ok l by (auto simp: advance_out_def ring_ok_def)
  show ok': "ring_ok (advance_out st l)"
    using ok l by (auto simp: ring_ok_def advance_out_def)
  show u: "used (advance_out st l) = used st - l"
    using used_simps(1,2) [OF ok'] used_simps(1,2) [OF ok] l ok
    by (auto simp: advance_out_def ring_ok_def split: if_splits)
  have "pending st = window (bufFirst st) (bufSize st) (bufOut st) l @
      window (bufFirst st) (bufSize st) ((bufOut st + l) mod bufSize st) (used st - l)"
    using window_add [of "bufFirst st" "bufSize st" "bufOut st" l "used st - l"] l(1)
    by (simp add: pending_def)
  then show "pending (advance_out st l) = drop l (pending st)"
    using u o by (simp add: pending_def [of "advance_out st l"]) (simp add: advance_out_def)
qed

text \<open>Moving the data to larger memory.\<close>

lemma pending_cases:
  assumes "ring_ok st"
  shows "pending st =
    (if bufOut st \<le> bufIn st then take (bufIn st - bufOut st) (drop (bufOut st) (bufFirst st))
     else drop (bufOut st) (bufFirst st) @ take (bufIn st) (bufFirst st))"
proof (cases "bufOut st \<le> bufIn st")
  case True
  then show ?thesis
    using assms used_simps(1) [OF assms] window_straight [of "bufOut st" "used st" "bufSize st" "bufFirst st"]
    by (simp add: pending_def ring_ok_def)
next
  case False
  let ?a = "bufSize st - bufOut st"
  have l: "length (bufFirst st) = bufSize st" "bufIn st < bufSize st" "bufOut st < bufSize st"
    using assms by (simp_all add: ring_ok_def)
  then have "used st = ?a + bufIn st"
    using used_simps(1) [OF assms] False by simp
  then show ?thesis
    using False l window_add [of "bufFirst st" "bufSize st" "bufOut st" ?a "bufIn st"]
      window_straight [of "bufOut st" ?a "bufSize st" "bufFirst st"]
      window_straight [of 0 "bufIn st" "bufSize st" "bufFirst st"]
    by (simp add: pending_def)
qed

lemma overwrite_prefix:
  assumes "length xs + length ys \<le> length m"
  shows "take (length xs + length ys) (overwrite (overwrite m 0 xs) (length xs) ys) = xs @ ys"
  using assms by (simp add: overwrite_def)

lemma move_data_ok:
  assumes ok: "ring_ok st" and st1: "st1 = st\<lparr>blockCount := b, bufSize := n\<rparr>"
    and mem: "length mem = n" "bufSize st < n"
  shows "ring_ok (move_data (bufSize st) st1 mem)"
    "pending (move_data (bufSize st) st1 mem) = pending st"
    "used st \<noteq> 0 \<Longrightarrow> bufOut (move_data (bufSize st) st1 mem) = 0"
proof -
  let ?s = "move_data (bufSize st) st1 mem"
  have l: "length (bufFirst st) = bufSize st" "bufIn st < bufSize st" "bufOut st < bufSize st"
    using ok by (simp_all add: ring_ok_def)
  have "ring_ok ?s \<and> pending ?s = pending st \<and> (used st \<noteq> 0 \<longrightarrow> bufOut ?s = 0)"
  proof (cases "bufOut st = bufIn st")
    case True
    then have "used st = 0" "ring_ok ?s" "used ?s = 0"
      using used_simps(1) [OF ok] l mem st1 by (auto simp: move_data_def ring_ok_def used_def)
    then show ?thesis
      by (simp add: pending_def window_def)
  next
    case False
    define part1 where "part1 = (if bufIn st < bufOut st then drop (bufOut st) (bufFirst st) else [])"
    define part2 where "part2 = (if bufIn st < bufOut st then take (bufIn st) (bufFirst st)
      else take (bufIn st - bufOut st) (drop (bufOut st) (bufFirst st)))"
    have pend: "pending st = part1 @ part2" "length part1 + length part2 < bufSize st"
      using pending_cases [OF ok] False l by (auto simp: part1_def part2_def)
    have s: "?s = st1\<lparr>bufFirst := overwrite (overwrite mem 0 part1) (length part1) part2,
        bufOut := 0, bufIn := length part1 + length part2\<rparr>"
      using False l st1 by (simp add: move_data_def part1_def part2_def Let_def)
    then have ok': "ring_ok ?s"
      using pend(2) mem st1 by (simp add: ring_ok_def)
    then have "pending ?s = part1 @ part2"
      using pending_cases [OF ok'] overwrite_prefix [of part1 part2 mem] pend(2) mem s by simp
    then show ?thesis
      using ok' pend(1) s by simp
  qed
  then show "ring_ok ?s" "pending ?s = pending st" "used st \<noteq> 0 \<Longrightarrow> bufOut ?s = 0"
    by blast+
qed

lemma adjust_blocks_small: "b * w < SIZE_MAX \<Longrightarrow> adjust_blocks b w = b"
  by (subst adjust_blocks.simps) (simp add: SIZE_MAX_def)

lemma int_product_small:
  assumes "a * b < 2 ^ 31"
  shows "int_product a b = a * b"
proof -
  define n where "n = a * b"
  have "sint (word_of_nat n :: u32) = int n"
    using assms unfolding n_def [symmetric] by (simp add: signed_of_nat signed_take_bit_int_eq_self)
  then show ?thesis
    using assms unfolding int_product_def n_def [symmetric] by simp
qed

lemma CopyFileReconfig_grow:
  assumes ok: "ring_ok st" and w: "bufSize st < blockCount st * w" "blockCount st * w < 2 ^ 31"
    and mem: "length mem = blockCount st * w"
    and res: "CopyFileReconfig cfg (\<lambda>_. Some mem) (st\<lparr>WriteCount := w\<rparr>) = Some a"
  shows "ring_ok a" "pending a = pending st" "used st \<noteq> 0 \<Longrightarrow> bufOut a = 0"
    "bufSize a = blockCount st * w" "blockCount a = blockCount st" "WriteCount a = w"
    "fileOffset a = fileOffset st" "bufEndArchive a = bufEndArchive st"
    "bufEmpty a = bufEmpty st" "bufFull a = bufFull st"
proof -
  let ?st = "st\<lparr>WriteCount := w\<rparr>"
  define st1 where "st1 = ?st\<lparr>blockCount := blockCount st, bufSize := blockCount st * w\<rparr>"
  have ne: "bufFirst st \<noteq> []"
    using ok by (auto simp: ring_ok_def)
  have ok1: "ring_ok ?st" "pending ?st = pending st" "used ?st = used st"
    using ok by simp_all
  have "adjust_blocks (blockCount st) w = blockCount st"
    using w by (intro adjust_blocks_small) (simp add: SIZE_MAX_def)
  then have a: "a = (move_data (bufSize ?st) st1 mem)\<lparr>ReadCount := blockCount st * w div 2\<rparr>"
    using res w ne by (simp add: CopyFileReconfig_def st1_def Let_def int_product_small)
  have "bufSize ?st < blockCount st * w"
    using w(1) by simp
  note m = move_data_ok [OF ok1(1) st1_def mem this]
  show "ring_ok a" "pending a = pending st" "used st \<noteq> 0 \<Longrightarrow> bufOut a = 0"
    using m ok1 by (simp_all add: a)
  show "bufSize a = blockCount st * w" "blockCount a = blockCount st" "WriteCount a = w"
    "fileOffset a = fileOffset st" "bufEndArchive a = bufEndArchive st"
    "bufEmpty a = bufEmpty st" "bufFull a = bufFull st"
    by (simp_all add: a move_data_def st1_def Let_def)
qed

section \<open>The queue contract and its clients\<close>

text \<open>
  What the code that copies data relies on: as long as the data fits, it is appended to the
  content of the buffer. Any sequence of pieces then appends their concatenation.
\<close>

locale byte_queue =
  fixes ok :: "'s \<Rightarrow> bool" and content :: "'s \<Rightarrow> string" and capacity :: "'s \<Rightarrow> nat"
    and put :: "'s \<Rightarrow> string \<Rightarrow> 's"
  assumes put_law: "ok s \<Longrightarrow> length (content s) + length xs < capacity s \<Longrightarrow>
    ok (put s xs) \<and> content (put s xs) = content s @ xs \<and> capacity (put s xs) = capacity s"
begin

lemma put_all:
  "ok s \<Longrightarrow> length (content s) + length (concat xss) < capacity s \<Longrightarrow>
   ok (foldl put s xss) \<and> content (foldl put s xss) = content s @ concat xss \<and>
   capacity (foldl put s xss) = capacity s"
proof (induction xss arbitrary: s)
  case (Cons xs xss)
  then show ?case
    using put_law [of s xs] Cons.IH [of "put s xs"] by simp
qed simp

end

lemma length_pending [simp]: "length (pending st) = used st"
  by (simp add: pending_def)

interpretation arcopy_queue: byte_queue ring_ok pending bufSize put_piece
proof
  fix st :: arcopy and xs :: string
  assume ok: "ring_ok st" and room: "length (pending st) + length xs < bufSize st"
  then have c: "ring_ok (copy_in st xs)" "used (copy_in st xs) + length xs < bufSize (copy_in st xs)"
    using copy_in_ok [of st xs] by simp_all
  show "ring_ok (put_piece st xs) \<and> pending (put_piece st xs) = pending st @ xs \<and>
      bufSize (put_piece st xs) = bufSize st"
    using AdvanceIn_ok(1,3) [OF c] copy_in_window [OF ok, of xs] room
    by (simp add: put_piece_def) (simp add: AdvanceIn_def)
qed

lemma put_piece_simps:
  "bufSize (put_piece st xs) = bufSize st" "ReadCount (put_piece st xs) = ReadCount st"
  "fileOffset (put_piece st xs) = fileOffset st + length xs"
  "WriteCount (put_piece st xs) = WriteCount st"
  "bufIn st < bufSize st \<Longrightarrow> length xs \<le> bufSize st \<Longrightarrow> bufIn (put_piece st xs) < bufSize st"
  by (auto simp: put_piece_def AdvanceIn_def Let_def)

lemma piece_bounds:
  assumes "bufIn st < bufSize st" "0 < n"
  shows "0 < piece st n" "piece st n \<le> n" "piece st n \<le> bufSize st"
  using assms by (auto simp: piece_def)

lemma WriteData_pieces:
  assumes "bufIn st < bufSize st" "0 < ReadCount st"
  shows "\<exists>ws xss. WriteData st data = Some (ws, foldl put_piece st xss) \<and> concat xss = data \<and>
    (\<forall>w \<in> set ws. w \<le> ReadCount st) \<and> (\<forall>xs \<in> set xss. length xs \<le> bufSize st)"
  using assms
proof (induction "length data" arbitrary: st data rule: less_induct)
  case less
  show ?case
  proof (cases "data = []")
    case True
    then show ?thesis
      by (subst WriteData.simps) (auto intro!: exI [of _ "[]"])
  next
    case False
    define want where "want = min (length data) (ReadCount st)"
    define n where "n = piece st want"
    have n: "0 < n" "n \<le> want" "n \<le> bufSize st"
      using piece_bounds [OF less.prems(1), of want] False less.prems(2) by (simp_all add: n_def want_def)
    let ?st = "put_piece st (take n data)"
    have "length (drop n data) < length data" "bufIn ?st < bufSize ?st" "0 < ReadCount ?st"
      using False n less.prems put_piece_simps [of st "take n data"] by auto
    from less.hyps [OF this] obtain ws xss where r:
      "WriteData ?st (drop n data) = Some (ws, foldl put_piece ?st xss)" "concat xss = drop n data"
      "\<forall>w \<in> set ws. w \<le> ReadCount st" "\<forall>xs \<in> set xss. length xs \<le> bufSize st"
      by (auto simp: put_piece_simps)
    have "WriteData st data = Some (want # ws, foldl put_piece st (take n data # xss))"
      using False r(1) by (subst WriteData.simps) (simp add: Let_def flip: want_def n_def)
    moreover have "concat (take n data # xss) = data" "\<forall>w \<in> set (want # ws). w \<le> ReadCount st"
      "\<forall>xs \<in> set (take n data # xss). length xs \<le> bufSize st"
      using r(2-4) n(3) by (auto simp: want_def)
    ultimately show ?thesis
      by blast
  qed
qed

lemma foldl_put_piece:
  "fileOffset (foldl put_piece st xss) = fileOffset st + length (concat xss)"
  by (induction xss arbitrary: st) (simp_all add: put_piece_simps)

lemma round_loop_pieces:
  assumes "bufIn st < bufSize st"
  shows "\<exists>ws xss. round_loop st rm = Some (ws, foldl put_piece st xss) \<and>
    concat xss = replicate rm NUL \<and> (\<forall>w \<in> set ws. w \<le> rm) \<and> (\<forall>xs \<in> set xss. length xs \<le> bufSize st)"
  using assms
proof (induction rm arbitrary: st rule: less_induct)
  case (less rm)
  show ?case
  proof (cases "rm = 0")
    case True
    then show ?thesis
      by (subst round_loop.simps) (auto intro!: exI [of _ "[]"])
  next
    case False
    define n where "n = piece st rm"
    have n: "0 < n" "n \<le> rm" "n \<le> bufSize st"
      using piece_bounds [OF less.prems, of rm] False by (simp_all add: n_def)
    let ?st = "put_piece st (replicate n NUL)"
    have "rm - n < rm" "bufIn ?st < bufSize ?st"
      using False n less.prems put_piece_simps [of st "replicate n NUL"] by auto
    from less.IH [OF this] obtain ws xss where r:
      "round_loop ?st (rm - n) = Some (ws, foldl put_piece ?st xss)" "concat xss = replicate (rm - n) NUL"
      "\<forall>w \<in> set ws. w \<le> rm - n" "\<forall>xs \<in> set xss. length xs \<le> bufSize st"
      by (auto simp: put_piece_simps)
    have "round_loop st rm = Some (rm # ws, foldl put_piece st (replicate n NUL # xss))"
      using False r(1) by (subst round_loop.simps) (simp add: Let_def flip: n_def)
    moreover have "concat (replicate n NUL # xss) = replicate rm NUL" "\<forall>w \<in> set (rm # ws). w \<le> rm"
      "\<forall>xs \<in> set (replicate n NUL # xss). length xs \<le> bufSize st"
      using r(2-4) n(2,3) by (auto simp flip: replicate_add)
    ultimately show ?thesis
      by blast
  qed
qed

section \<open>Properties\<close>


definition small_buffer :: arcopy where
  "small_buffer =
     \<lparr>bufFirst = ''xxxxxxab'', bufSize = 8, bufIn = 0, bufOut = 6, fileOffset = 10,
        bufEndArchive = False, bufEmpty = False, bufFull = False, blockCount = 4,
        WriteCount = 2, ReadCount = 4\<rparr>"

lemma small_buffer_ok: "ring_ok small_buffer" "0 < ReadCount small_buffer"
  by (simp_all add: small_buffer_def ring_ok_def)


text \<open>
  C20. Growing the buffer. When a larger block size makes the buffer larger, and its size in
  bytes fits into an int, \<open>CopyFileReconfig\<close> moves the content to the new memory, wrapped or
  not: what the buffer holds and its order stay the same, and the next block starts at the
  beginning of the memory, so it is aligned to the new block size.
\<close>

theorem reconfig_grow_keeps_data:
  assumes "ring_ok st" "used st \<noteq> 0" "bufSize st < blockCount st * w" "blockCount st * w < 2 ^ 31"
    "length mem = blockCount st * w"
  shows "\<exists>a. CopyFileReconfig cfg (\<lambda>_. Some mem) (st\<lparr>WriteCount := w\<rparr>) = Some a \<and> ring_ok a \<and>
    pending a = pending st \<and> bufOut a = 0 \<and> WriteCount a dvd bufSize a \<and>
    ReadCount a = bufSize a div 2 \<and> fileOffset a = fileOffset st"
proof -
  have ne: "bufFirst st \<noteq> []"
    using assms(1) by (auto simp: ring_ok_def)
  moreover have "adjust_blocks (blockCount st) w = blockCount st"
    using assms(4) by (intro adjust_blocks_small) (simp add: SIZE_MAX_def)
  ultimately obtain a where a: "CopyFileReconfig cfg (\<lambda>_. Some mem) (st\<lparr>WriteCount := w\<rparr>) = Some a"
    "ReadCount a = blockCount st * w div 2"
    using assms(3,4) by (simp add: CopyFileReconfig_def Let_def int_product_small)
  then show ?thesis
    using CopyFileReconfig_grow [OF assms(1,3-5) a(1)] assms(2) by auto
qed

theorem reconfig_grow_keeps_data_witness:
  "\<exists>a. CopyFileReconfig 0 (\<lambda>_. Some (replicate 16 NUL)) (small_buffer\<lparr>WriteCount := 4\<rparr>) = Some a \<and>
    pending a = pending small_buffer \<and> bufOut a = 0"
proof -
  have "used small_buffer \<noteq> 0" "bufSize small_buffer < blockCount small_buffer * 4"
    "blockCount small_buffer * 4 < 2 ^ 31" "length (replicate 16 NUL) = blockCount small_buffer * 4"
    by (simp_all add: used_simps(1) [OF small_buffer_ok(1)]) (simp_all add: small_buffer_def)
  from reconfig_grow_keeps_data [OF small_buffer_ok(1) this, of 0] show ?thesis
    by auto
qed

text \<open>
  C38. A block size that grows back does not realign the buffer. If the block size went down
  on one volume and goes up again on the next, to at most its first value, the buffer does
  not become larger and \<open>CopyFileReconfig\<close> returns without moving the data. If \<open>bufOut\<close> is then
  not a multiple of the new block size, it never meets the end of the buffer: after k more
  blocks it is before the end, and the next block reaches behind it.
\<close>

theorem reconfig_back_not_aligned:
  assumes ok: "ring_ok st" and w: "0 < w" "blockCount st * w \<le> bufSize st" "bufSize st < 2 ^ 31"
    and odd: "\<not> w dvd bufOut st" and inside: "bufOut st < blockCount st * w"
  shows "\<exists>a k. CopyFileReconfig cfg fresh (st\<lparr>WriteCount := w\<rparr>) = Some a \<and> bufOut a = bufOut st \<and>
    bufOut (foldl advance_out a (replicate k w)) = bufOut st + k * w \<and>
    bufOut st + k * w < bufSize a \<and> bufSize a < bufOut st + k * w + w"
proof -
  let ?n = "blockCount st * w"
  let ?a = "st\<lparr>WriteCount := w, bufSize := ?n\<rparr>"
  have "bufFirst st \<noteq> []"
    using ok by (auto simp: ring_ok_def)
  moreover have "adjust_blocks (blockCount st) w = blockCount st"
    using w by (intro adjust_blocks_small) (simp add: SIZE_MAX_def)
  ultimately have a: "CopyFileReconfig cfg fresh (st\<lparr>WriteCount := w\<rparr>) = Some ?a"
    using w by (simp add: CopyFileReconfig_def Let_def int_product_small)
  have ne: "bufOut st + j * w \<noteq> ?n" for j
  proof
    assume "bufOut st + j * w = ?n"
    then have "w dvd bufOut st + j * w"
      by simp
    then show False
      using odd by (simp add: dvd_add_left_iff)
  qed
  have run: "bufOut (foldl advance_out ?a (replicate j w)) = bufOut st + j * w \<and>
      bufSize (foldl advance_out ?a (replicate j w)) = ?n" for j
  proof (induction j)
    case (Suc j)
    define b where "b = foldl advance_out ?a (replicate j w)"
    have "replicate (Suc j) w = replicate j w @ [w]"
      by (simp add: replicate_append_same)
    then have eq: "foldl advance_out ?a (replicate (Suc j) w) = advance_out b w"
      by (simp only: foldl_append foldl.simps b_def)
    have "bufOut b = bufOut st + j * w" "bufSize b = ?n"
      using Suc unfolding b_def by blast+
    then have "bufOut (advance_out b w) = bufOut st + Suc j * w" "bufSize (advance_out b w) = ?n"
      using ne [of "Suc j"] by (simp_all add: advance_out_def)
    then show ?case
      unfolding eq by blast
  qed simp
  define k where "k = (?n - bufOut st) div w"
  have "k * w \<le> ?n - bufOut st" "?n - bufOut st < k * w + w"
    using w(1) div_times_less_eq_dividend [of "?n - bufOut st" w] dividend_less_div_times [OF w(1), of "?n - bufOut st"]
    by (simp_all add: k_def)
  then have "bufOut st + k * w < ?n" "?n < bufOut st + k * w + w"
    using ne [of k] inside by linarith+
  then show ?thesis
    using a run by (intro exI [of _ ?a] exI [of _ k]) simp
qed

definition back_buffer :: arcopy where
  "back_buffer = small_buffer\<lparr>bufFirst := replicate 16 (CHR ''x''), bufSize := 16, bufOut := 6, bufIn := 3\<rparr>"

theorem reconfig_back_not_aligned_witness:
  "\<exists>a k. CopyFileReconfig 0 (\<lambda>_. None) (back_buffer\<lparr>WriteCount := 4\<rparr>) = Some a \<and> bufOut a = 6 \<and>
    bufOut (foldl advance_out a (replicate k 4)) = 6 + k * 4 \<and>
    6 + k * 4 < bufSize a \<and> bufSize a < 6 + k * 4 + 4"
  using reconfig_back_not_aligned [of back_buffer 4 0 "\<lambda>_. None"]
  by (simp add: back_buffer_def small_buffer_def ring_ok_def)

text \<open>
  C39. The size of the buffer is computed in 32 bits. When the configured number of blocks
  times the block size is a multiple of \<open>2 ^ 32\<close>, for example 4096 blocks of one mebibyte, the
  first configuration leaves a buffer of size 0 without memory, and \<open>WaitRoom\<close> never returns,
  for any request. The configuration accepts up to 8192 blocks.
\<close>

theorem reconfig_size_wraps:
  assumes "bufFirst st = []" "bufSize st = 0" "2 ^ 32 dvd config * WriteCount st"
    "config * WriteCount st < 2 ^ 64 - 1"
  shows "\<exists>a. CopyFileReconfig config fresh st = Some a \<and> bufFirst a = [] \<and> bufSize a = 0 \<and>
    (\<forall>n. \<not> WaitRoom (beginArchiveFile a) n)"
proof -
  have "adjust_blocks config (WriteCount st) = config"
    using assms(4) by (intro adjust_blocks_small) (simp add: SIZE_MAX_def)
  moreover have "(word_of_nat (config * WriteCount st) :: u32) = 0"
    using assms(3) by (subst word_of_nat_eq_0_iff) simp
  then have "int_product config (WriteCount st) = 0"
    by (simp only: int_product_def) simp
  ultimately show ?thesis
    using assms(1,2) by (simp add: CopyFileReconfig_def Let_def WaitRoom_def beginArchiveFile_def)
qed

theorem reconfig_size_wraps_witness:
  "\<exists>a. CopyFileReconfig 4096 (\<lambda>_. None)
      (small_buffer\<lparr>bufFirst := [], bufSize := 0, WriteCount := 1048576\<rparr>) = Some a \<and>
    bufFirst a = [] \<and> bufSize a = 0 \<and> (\<forall>n. \<not> WaitRoom (beginArchiveFile a) n)"
  by (rule reconfig_size_wraps) simp_all

end
