(* ===== verification/Arcopy_Threads.thy ===== *)
theory Arcopy_Threads
  imports Arcopy_Buffer
begin

text \<open>
  The copying thread and the writing thread of the archive copy process
  (src/src/archiver/arcopy/copyfile.c) as a step relation on the state of the buffer: every
  critical section of \<open>bufLock\<close> is one step, every access to the memory of the buffer outside
  of the lock is a step of its own, and a thread in \<open>PthreadCondWait\<close> stays asleep until the
  other one signals it. The invariant gives that the medium receives exactly the bytes that
  were copied in, in order, that \<open>EndArchiveFile\<close> returns only when all of them are there, and
  that the threads never both sleep, unless the buffer was replaced.
\<close>

section \<open>The two threads\<close>

text \<open>
  Where the copying thread is. It holds the mutex \<open>bufInuse\<close> in \<open>P_run\<close>, \<open>P_room\<close> and
  \<open>P_filled\<close>: \<open>WaitRoom\<close> releases it before its loop and takes it again when the loop has
  ended (\<open>P_granted\<close>).
\<close>

datatype copier =
    P_idle               \<comment> \<open>between files\<close>
  | P_run                \<comment> \<open>in CopyFile or RoundBuffer\<close>
  | P_wait nat           \<comment> \<open>in the loop of WaitRoom\<close>
  | P_sleep nat          \<comment> \<open>waiting for bufRead there\<close>
  | P_granted nat        \<comment> \<open>the loop has ended\<close>
  | P_room nat           \<comment> \<open>WaitRoom has returned\<close>
  | P_filled string      \<comment> \<open>the data is copied\<close>
  | P_ending             \<comment> \<open>in the loop of EndArchiveFile\<close>
  | P_end_sleep          \<comment> \<open>waiting for bufRead there\<close>

datatype writer =
    C_check              \<comment> \<open>about to look for data\<close>
  | C_sleep              \<comment> \<open>waiting for bufWrite\<close>
  | C_write nat          \<comment> \<open>in writeBlock\<close>
  | C_written nat        \<comment> \<open>writeBlock has succeeded\<close>
  | C_end                \<comment> \<open>the archive file is complete\<close>

text \<open>
  The system: the buffer, the threads, all bytes the copying thread has handed over and all
  bytes on the medium since the start, and whether the buffer was ever replaced.
\<close>

record arcopy_sys =
  ab :: arcopy
  copying :: copier
  writing :: writer
  sent :: string
  media :: string
  regrown :: bool

fun wake_writer :: "writer \<Rightarrow> writer" where
  "wake_writer C_sleep = C_check"
| "wake_writer c = c"

fun wake_copier :: "copier \<Rightarrow> copier" where
  "wake_copier (P_sleep n) = P_wait n"
| "wake_copier P_end_sleep = P_ending"
| "wake_copier p = p"

fun holds_bufInuse :: "copier \<Rightarrow> bool" where
  "holds_bufInuse P_run = True"
| "holds_bufInuse (P_room _) = True"
| "holds_bufInuse (P_filled _) = True"
| "holds_bufInuse _ = False"

text \<open>
  The steps. \<open>limit\<close> bounds what is asked of \<open>WaitRoom\<close>. A failed write changes the volume:
  a smaller block size divides the old one and only changes \<open>WriteCount\<close>, a larger one
  replaces the buffer; then the write is tried again.
\<close>

inductive arcopy_step :: "nat \<Rightarrow> arcopy_sys \<Rightarrow> arcopy_sys \<Rightarrow> bool" for limit where
  copy_file: "copying s = P_idle \<Longrightarrow>
    arcopy_step limit s (s\<lparr>copying := P_run,
      ab := (if fileOffset (ab s) = 0 then beginArchiveFile (ab s) else ab s)\<rparr>)"
| copy_done: "copying s = P_run \<Longrightarrow> arcopy_step limit s (s\<lparr>copying := P_idle\<rparr>)"
| wait_room: "copying s = P_run \<Longrightarrow> n \<le> limit \<Longrightarrow> arcopy_step limit s (s\<lparr>copying := P_wait n\<rparr>)"
| room: "copying s = P_wait n \<Longrightarrow> WaitRoom (ab s) n \<Longrightarrow> arcopy_step limit s (s\<lparr>copying := P_granted n\<rparr>)"
| no_room: "copying s = P_wait n \<Longrightarrow> \<not> WaitRoom (ab s) n \<Longrightarrow>
    arcopy_step limit s (s\<lparr>copying := P_sleep n, ab := (ab s)\<lparr>bufFull := True\<rparr>\<rparr>)"
| lock_inuse: "copying s = P_granted n \<Longrightarrow> arcopy_step limit s (s\<lparr>copying := P_room n\<rparr>)"
| fill: "copying s = P_room n \<Longrightarrow> length xs \<le> n \<Longrightarrow>
    arcopy_step limit s (s\<lparr>copying := P_filled xs, ab := copy_in (ab s) xs\<rparr>)"
| advance_in: "copying s = P_filled xs \<Longrightarrow>
    arcopy_step limit s (s\<lparr>copying := P_run, ab := AdvanceIn (ab s) (length xs), sent := sent s @ xs,
      writing := (if bufEmpty (ab s) then wake_writer (writing s) else writing s)\<rparr>)"
| end_archive: "copying s = P_idle \<Longrightarrow> fileOffset (ab s) \<noteq> 0 \<Longrightarrow>
    arcopy_step limit s (s\<lparr>copying := P_ending, ab := (ab s)\<lparr>bufEndArchive := True\<rparr>,
      writing := wake_writer (writing s)\<rparr>)"
| end_wait: "copying s = P_ending \<Longrightarrow> bufEndArchive (ab s) \<Longrightarrow> arcopy_step limit s (s\<lparr>copying := P_end_sleep\<rparr>)"
| end_done: "copying s = P_ending \<Longrightarrow> \<not> bufEndArchive (ab s) \<Longrightarrow>
    arcopy_step limit s (s\<lparr>copying := P_idle, ab := (ab s)\<lparr>fileOffset := 0\<rparr>\<rparr>)"
| take_block: "writing s = C_check \<Longrightarrow> WriteCount (ab s) \<le> used (ab s) \<Longrightarrow>
    arcopy_step limit s (s\<lparr>writing := C_write (WriteCount (ab s))\<rparr>)"
| take_rest: "writing s = C_check \<Longrightarrow> used (ab s) < WriteCount (ab s) \<Longrightarrow> bufEndArchive (ab s) \<Longrightarrow>
    arcopy_step limit s (s\<lparr>writing := (if used (ab s) = 0 then C_end else C_write (used (ab s)))\<rparr>)"
| no_data: "writing s = C_check \<Longrightarrow> used (ab s) < WriteCount (ab s) \<Longrightarrow> \<not> bufEndArchive (ab s) \<Longrightarrow>
    arcopy_step limit s (s\<lparr>writing := C_sleep, ab := (ab s)\<lparr>bufEmpty := True\<rparr>\<rparr>)"
| write_ok: "writing s = C_write l \<Longrightarrow>
    arcopy_step limit s (s\<lparr>writing := C_written l, media := media s @ block_out (ab s) l\<rparr>)"
| write_retry: "writing s = C_write l \<Longrightarrow> 0 < w \<Longrightarrow> w dvd WriteCount (ab s) \<Longrightarrow>
    arcopy_step limit s (s\<lparr>writing := C_check, ab := (ab s)\<lparr>WriteCount := w\<rparr>\<rparr>)"
| write_grow: "writing s = C_write l \<Longrightarrow> bufSize (ab s) < blockCount (ab s) * w \<Longrightarrow>
    \<not> holds_bufInuse (copying s) \<Longrightarrow> blockCount (ab s) * w < 2 ^ 31 \<Longrightarrow> length mem = blockCount (ab s) * w \<Longrightarrow>
    CopyFileReconfig cfg (\<lambda>_. Some mem) ((ab s)\<lparr>WriteCount := w\<rparr>) = Some a \<Longrightarrow>
    arcopy_step limit s (s\<lparr>writing := C_check, ab := a, regrown := True\<rparr>)"
| advance_out: "writing s = C_written l \<Longrightarrow>
    arcopy_step limit s (s\<lparr>writing := C_check, ab := advance_out (ab s) l,
      copying := (if bufFull (ab s) then wake_copier (copying s) else copying s)\<rparr>)"
| end_signal: "writing s = C_end \<Longrightarrow>
    arcopy_step limit s (s\<lparr>writing := C_check, ab := (ab s)\<lparr>bufEndArchive := False\<rparr>,
      copying := wake_copier (copying s)\<rparr>)"

definition arcopy_start :: "nat \<Rightarrow> nat \<Rightarrow> string \<Rightarrow> arcopy_sys" where
  "arcopy_start blocks wc mem =
     \<lparr>ab = \<lparr>bufFirst = mem, bufSize = blocks * wc, bufIn = 0, bufOut = 0, fileOffset = 0,
        bufEndArchive = False, bufEmpty = False, bufFull = False, blockCount = blocks,
        WriteCount = wc, ReadCount = blocks * wc div 2\<rparr>,
      copying = P_idle, writing = C_check, sent = [], media = [], regrown = False\<rparr>"

section \<open>Invariant of the threads\<close>

fun ending :: "copier \<Rightarrow> bool" where
  "ending P_ending = True"
| "ending P_end_sleep = True"
| "ending _ = False"

text \<open>The bytes that are on the medium but still before \<open>bufOut\<close>.\<close>

fun taken :: "writer \<Rightarrow> nat" where
  "taken (C_written l) = l"
| "taken _ = 0"

definition idle_writer :: "writer \<Rightarrow> bool" where
  "idle_writer c \<longleftrightarrow> c = C_check \<or> c = C_sleep"

definition block_ok :: "arcopy \<Rightarrow> copier \<Rightarrow> nat \<Rightarrow> bool" where
  "block_ok st p l \<longleftrightarrow>
     0 < l \<and> l \<le> used st \<and> bufOut st + l \<le> bufSize st \<and>
     (WriteCount st dvd l \<or> l = used st \<and> bufEndArchive st \<and> ending p)"

fun writer_ok :: "arcopy \<Rightarrow> copier \<Rightarrow> writer \<Rightarrow> bool" where
  "writer_ok st p C_check = True"
| "writer_ok st p C_sleep = (bufEmpty st \<and> used st < WriteCount st \<and> \<not> bufEndArchive st)"
| "writer_ok st p (C_write l) = block_ok st p l"
| "writer_ok st p (C_written l) = block_ok st p l"
| "writer_ok st p C_end = (bufEndArchive st \<and> used st = 0)"

fun copier_ok :: "nat \<Rightarrow> arcopy \<Rightarrow> writer \<Rightarrow> copier \<Rightarrow> bool" where
  "copier_ok limit st c (P_wait n) = (n \<le> limit)"
| "copier_ok limit st c (P_sleep n) = (n \<le> limit \<and> bufFull st)"
| "copier_ok limit st c (P_granted n) = (used st + n + 1 < bufSize st)"
| "copier_ok limit st c (P_room n) = (used st + n + 1 < bufSize st)"
| "copier_ok limit st c (P_filled xs) =
     (used st + length xs + 1 < bufSize st \<and>
      window (bufFirst st) (bufSize st) (bufIn st) (length xs) = xs)"
| "copier_ok limit st c P_ending = (bufEndArchive st \<or> used st = 0 \<and> idle_writer c)"
| "copier_ok limit st c P_end_sleep = bufEndArchive st"
| "copier_ok limit st c _ = True"

definition aligned :: "arcopy \<Rightarrow> copier \<Rightarrow> bool" where
  "aligned st p \<longleftrightarrow>
     WriteCount st dvd bufOut st \<or> used st = 0 \<and> (ending p \<or> p = P_idle \<and> fileOffset st = 0)"

definition arcopy_inv :: "nat \<Rightarrow> arcopy_sys \<Rightarrow> bool" where
  "arcopy_inv limit s \<longleftrightarrow>
     ring_ok (ab s) \<and> 0 < WriteCount (ab s) \<and> WriteCount (ab s) dvd bufSize (ab s) \<and>
     sent s = media s @ drop (taken (writing s)) (pending (ab s)) \<and>
     writer_ok (ab s) (copying s) (writing s) \<and> copier_ok limit (ab s) (writing s) (copying s) \<and>
     aligned (ab s) (copying s) \<and> (bufEndArchive (ab s) \<longrightarrow> ending (copying s)) \<and>
     (fileOffset (ab s) = 0 \<longrightarrow> used (ab s) = 0 \<and> idle_writer (writing s) \<and> \<not> ending (copying s))"

lemma window_zero [simp]: "window m sz i 0 = []"
  by (simp add: window_def)

lemma pending_empty: "used st = 0 \<Longrightarrow> pending st = []"
  by (simp add: pending_def)

lemma wake_writer_props [simp]:
  "taken (wake_writer c) = taken c" "idle_writer (wake_writer c) = idle_writer c"
  by (cases c; simp add: idle_writer_def)+

lemma inv_copy_file:
  assumes "arcopy_inv limit s" "copying s = P_idle"
  shows "arcopy_inv limit (s\<lparr>copying := P_run,
      ab := (if fileOffset (ab s) = 0 then beginArchiveFile (ab s) else ab s)\<rparr>)"
proof (cases "fileOffset (ab s) = 0")
  case True
  then have "used (ab s) = 0" "idle_writer (writing s)"
    using assms by (simp_all add: arcopy_inv_def)
  moreover have "used (beginArchiveFile (ab s)) = 0" "ring_ok (beginArchiveFile (ab s))"
    using assms by (auto simp: arcopy_inv_def beginArchiveFile_def used_def ring_ok_def)
  ultimately show ?thesis
    using assms True
    by (auto simp: arcopy_inv_def pending_empty aligned_def idle_writer_def beginArchiveFile_def)
next
  case False
  then show ?thesis
    using assms by (cases "writing s") (auto simp: arcopy_inv_def aligned_def block_ok_def)
qed

lemma inv_easy_copier:
  assumes inv: "arcopy_inv limit s"
  shows "copying s = P_run \<Longrightarrow> arcopy_inv limit (s\<lparr>copying := P_idle\<rparr>)"
    and "copying s = P_run \<Longrightarrow> n \<le> limit \<Longrightarrow> arcopy_inv limit (s\<lparr>copying := P_wait n\<rparr>)"
    and "copying s = P_wait n \<Longrightarrow> WaitRoom (ab s) n \<Longrightarrow> arcopy_inv limit (s\<lparr>copying := P_granted n\<rparr>)"
    and "copying s = P_wait n \<Longrightarrow> arcopy_inv limit (s\<lparr>copying := P_sleep n, ab := (ab s)\<lparr>bufFull := True\<rparr>\<rparr>)"
    and "copying s = P_granted n \<Longrightarrow> arcopy_inv limit (s\<lparr>copying := P_room n\<rparr>)"
    and "copying s = P_ending \<Longrightarrow> bufEndArchive (ab s) \<Longrightarrow> arcopy_inv limit (s\<lparr>copying := P_end_sleep\<rparr>)"
  using inv
  by (cases "writing s"; auto simp: arcopy_inv_def aligned_def block_ok_def WaitRoom_iff idle_writer_def)+

lemma inv_fill:
  assumes inv: "arcopy_inv limit s" and p: "copying s = P_room n" and xs: "length xs \<le> n"
  shows "arcopy_inv limit (s\<lparr>copying := P_filled xs, ab := copy_in (ab s) xs\<rparr>)"
proof -
  have ok: "ring_ok (ab s)" "used (ab s) + length xs + 1 < bufSize (ab s)"
    using inv p xs by (auto simp: arcopy_inv_def)
  then have "ring_ok (copy_in (ab s) xs)" "pending (copy_in (ab s) xs) = pending (ab s)"
    "window (bufFirst (copy_in (ab s) xs)) (bufSize (ab s)) (bufIn (ab s)) (length xs) = xs"
    using copy_in_ok [of "ab s" xs] copy_in_window [of "ab s" xs] by simp_all
  then show ?thesis
    using inv p ok(2) by (cases "writing s") (auto simp: arcopy_inv_def aligned_def block_ok_def)
qed

lemma AdvanceIn_simps [simp]:
  "bufSize (AdvanceIn st n) = bufSize st" "bufOut (AdvanceIn st n) = bufOut st"
  "fileOffset (AdvanceIn st n) = fileOffset st + n" "bufEmpty (AdvanceIn st n) = False"
  "bufEndArchive (AdvanceIn st n) = bufEndArchive st" "WriteCount (AdvanceIn st n) = WriteCount st"
  "bufFull (AdvanceIn st n) = bufFull st" "blockCount (AdvanceIn st n) = blockCount st"
  "ReadCount (AdvanceIn st n) = ReadCount st"
  by (simp_all add: AdvanceIn_def)

lemma inv_advance_in:
  assumes inv: "arcopy_inv limit s" and p: "copying s = P_filled xs"
  shows "arcopy_inv limit (s\<lparr>copying := P_run, ab := AdvanceIn (ab s) (length xs), sent := sent s @ xs,
      writing := (if bufEmpty (ab s) then wake_writer (writing s) else writing s)\<rparr>)"
proof -
  let ?a = "AdvanceIn (ab s) (length xs)"
  have ok: "ring_ok (ab s)" "used (ab s) + length xs < bufSize (ab s)"
    "window (bufFirst (ab s)) (bufSize (ab s)) (bufIn (ab s)) (length xs) = xs"
    "\<not> bufEndArchive (ab s)"
    using inv p by (auto simp: arcopy_inv_def)
  then have a: "ring_ok ?a" "used ?a = used (ab s) + length xs" "pending ?a = pending (ab s) @ xs"
    using AdvanceIn_ok [OF ok(1,2)] by simp_all
  have tk: "taken (writing s) \<le> length (pending (ab s))"
    using inv by (cases "writing s") (auto simp: arcopy_inv_def block_ok_def pending_def)
  have "writer_ok ?a P_run (if bufEmpty (ab s) then wake_writer (writing s) else writing s)"
    using inv p a(2) ok(4) by (cases "writing s") (auto simp: arcopy_inv_def block_ok_def)
  moreover have "idle_writer (writing s)" "used (ab s) = 0" if "fileOffset (ab s) = 0"
    using that inv by (simp_all add: arcopy_inv_def)
  moreover have "aligned ?a P_run"
    using inv p by (auto simp: arcopy_inv_def aligned_def)
  ultimately show ?thesis
    using inv p a tk ok(4) by (auto simp: arcopy_inv_def)
qed

lemma inv_end_archive:
  assumes inv: "arcopy_inv limit s" and p: "copying s = P_idle" "fileOffset (ab s) \<noteq> 0"
  shows "arcopy_inv limit (s\<lparr>copying := P_ending, ab := (ab s)\<lparr>bufEndArchive := True\<rparr>,
      writing := wake_writer (writing s)\<rparr>)"
  using inv p by (cases "writing s") (auto simp: arcopy_inv_def aligned_def block_ok_def)

lemma inv_end_done:
  assumes inv: "arcopy_inv limit s" and p: "copying s = P_ending" "\<not> bufEndArchive (ab s)"
  shows "arcopy_inv limit (s\<lparr>copying := P_idle, ab := (ab s)\<lparr>fileOffset := 0\<rparr>\<rparr>)"
  using inv p by (auto simp: arcopy_inv_def aligned_def idle_writer_def)

lemma aligned_room:
  assumes "arcopy_inv limit s" "used (ab s) \<noteq> 0"
  shows "WriteCount (ab s) dvd bufOut (ab s)" "bufOut (ab s) + WriteCount (ab s) \<le> bufSize (ab s)"
proof -
  let ?w = "WriteCount (ab s)"
  show d: "?w dvd bufOut (ab s)"
    using assms by (auto simp: arcopy_inv_def aligned_def)
  moreover have "?w dvd bufSize (ab s)" "bufOut (ab s) < bufSize (ab s)"
    using assms(1) by (simp_all add: arcopy_inv_def ring_ok_def)
  ultimately obtain a b where "bufOut (ab s) = ?w * a" "bufSize (ab s) = ?w * b" "a < b"
    by (auto elim!: dvdE)
  then show "bufOut (ab s) + ?w \<le> bufSize (ab s)"
    using mult_le_mono2 [of "Suc a" b ?w] by simp
qed

lemma inv_take:
  assumes inv: "arcopy_inv limit s" and c: "writing s = C_check"
  shows "WriteCount (ab s) \<le> used (ab s) \<Longrightarrow> arcopy_inv limit (s\<lparr>writing := C_write (WriteCount (ab s))\<rparr>)"
    and "used (ab s) < WriteCount (ab s) \<Longrightarrow> bufEndArchive (ab s) \<Longrightarrow>
      arcopy_inv limit (s\<lparr>writing := (if used (ab s) = 0 then C_end else C_write (used (ab s)))\<rparr>)"
    and "used (ab s) < WriteCount (ab s) \<Longrightarrow> \<not> bufEndArchive (ab s) \<Longrightarrow>
      arcopy_inv limit (s\<lparr>writing := C_sleep, ab := (ab s)\<lparr>bufEmpty := True\<rparr>\<rparr>)"
proof -
  have w: "0 < WriteCount (ab s)"
    using inv by (simp add: arcopy_inv_def)
  have blk: "block_ok (ab s) (copying s) (WriteCount (ab s))" if "WriteCount (ab s) \<le> used (ab s)"
    using that w aligned_room [OF inv] by (auto simp: block_ok_def)
  have rest: "block_ok (ab s) (copying s) (used (ab s))"
    if "used (ab s) < WriteCount (ab s)" "bufEndArchive (ab s)" "used (ab s) \<noteq> 0"
    using that aligned_room [OF inv] inv by (auto simp: block_ok_def arcopy_inv_def)
  have off: "fileOffset (ab s) \<noteq> 0" if "used (ab s) \<noteq> 0 \<or> bufEndArchive (ab s)"
    using that inv by (auto simp: arcopy_inv_def)
  show "arcopy_inv limit (s\<lparr>writing := C_write (WriteCount (ab s))\<rparr>)" if "WriteCount (ab s) \<le> used (ab s)"
    using inv c blk [OF that] off that w by (cases "copying s") (auto simp: arcopy_inv_def)
  show "arcopy_inv limit (s\<lparr>writing := (if used (ab s) = 0 then C_end else C_write (used (ab s)))\<rparr>)"
    if "used (ab s) < WriteCount (ab s)" "bufEndArchive (ab s)"
    using inv c rest that off by (cases "copying s") (auto simp: arcopy_inv_def)
  show "arcopy_inv limit (s\<lparr>writing := C_sleep, ab := (ab s)\<lparr>bufEmpty := True\<rparr>\<rparr>)"
    if "used (ab s) < WriteCount (ab s)" "\<not> bufEndArchive (ab s)"
    using inv c that by (cases "copying s") (auto simp: arcopy_inv_def aligned_def idle_writer_def)
qed

lemma inv_write_ok:
  assumes inv: "arcopy_inv limit s" and c: "writing s = C_write l"
  shows "arcopy_inv limit (s\<lparr>writing := C_written l, media := media s @ block_out (ab s) l\<rparr>)"
proof -
  have blk: "block_ok (ab s) (copying s) l" and ok: "ring_ok (ab s)"
    using inv c by (simp_all add: arcopy_inv_def)
  then have "block_out (ab s) l @ drop l (pending (ab s)) = pending (ab s)"
    using block_out_take [OF ok] by (simp add: block_ok_def)
  then show ?thesis
    using inv c blk by (cases "copying s") (auto simp: arcopy_inv_def idle_writer_def)
qed

lemma inv_write_retry:
  assumes inv: "arcopy_inv limit s" and c: "writing s = C_write l" and w: "0 < w" "w dvd WriteCount (ab s)"
  shows "arcopy_inv limit (s\<lparr>writing := C_check, ab := (ab s)\<lparr>WriteCount := w\<rparr>\<rparr>)"
proof -
  have "used (ab s) \<noteq> 0"
    using inv c by (auto simp: arcopy_inv_def block_ok_def)
  then show ?thesis
    using inv c w dvd_trans [OF w(2)]
    by (cases "copying s") (auto simp: arcopy_inv_def aligned_def idle_writer_def)
qed

lemma inv_write_grow:
  assumes inv: "arcopy_inv limit s" and c: "writing s = C_write l"
    and w: "bufSize (ab s) < blockCount (ab s) * w" "\<not> holds_bufInuse (copying s)"
      "blockCount (ab s) * w < 2 ^ 31" "length mem = blockCount (ab s) * w"
    and a: "CopyFileReconfig cfg (\<lambda>_. Some mem) ((ab s)\<lparr>WriteCount := w\<rparr>) = Some a"
  shows "arcopy_inv limit (s\<lparr>writing := C_check, ab := a, regrown := True\<rparr>)"
proof -
  have ok: "ring_ok (ab s)" and u: "used (ab s) \<noteq> 0"
    using inv c by (auto simp: arcopy_inv_def block_ok_def)
  note g = CopyFileReconfig_grow [OF ok w(1,3,4) a]
  have "length (pending a) = length (pending (ab s))"
    using g(2) by simp
  then have ua: "used a = used (ab s)"
    by (simp add: pending_def)
  have "0 < w"
    using w(1) by (cases w) simp_all
  then show ?thesis
    using inv c w(1,2) g(1,2,4-) g(3) [OF u] ua u
    by (cases "copying s") (auto simp: arcopy_inv_def aligned_def idle_writer_def)
qed

lemma advance_out_simps [simp]:
  "bufSize (advance_out st l) = bufSize st" "bufIn (advance_out st l) = bufIn st"
  "bufFirst (advance_out st l) = bufFirst st" "fileOffset (advance_out st l) = fileOffset st"
  "bufEmpty (advance_out st l) = bufEmpty st" "bufEndArchive (advance_out st l) = bufEndArchive st"
  "WriteCount (advance_out st l) = WriteCount st" "bufFull (advance_out st l) = False"
  "blockCount (advance_out st l) = blockCount st" "ReadCount (advance_out st l) = ReadCount st"
  by (simp_all add: advance_out_def)

lemma inv_advance_out:
  assumes inv: "arcopy_inv limit s" and c: "writing s = C_written l"
  shows "arcopy_inv limit (s\<lparr>writing := C_check, ab := advance_out (ab s) l,
      copying := (if bufFull (ab s) then wake_copier (copying s) else copying s)\<rparr>)"
proof -
  let ?a = "advance_out (ab s) l"
  have blk: "block_ok (ab s) (copying s) l" and ok: "ring_ok (ab s)"
    using inv c by (simp_all add: arcopy_inv_def)
  then have l: "l \<le> used (ab s)" "bufOut (ab s) + l \<le> bufSize (ab s)" "0 < l"
    by (simp_all add: block_ok_def)
  note o = advance_out_ok [OF ok l(1,2)]
  have d: "WriteCount (ab s) dvd bufOut (ab s)"
    using aligned_room(1) [OF inv] l by simp
  have al: "WriteCount (ab s) dvd bufOut ?a \<or> used ?a = 0 \<and> ending (copying s)"
  proof (cases "WriteCount (ab s) dvd l")
    case True
    then show ?thesis
      using d by (simp add: advance_out_def)
  next
    case False
    then show ?thesis
      using blk o(2) by (simp add: block_ok_def)
  qed
  have "\<not> idle_writer (C_written l)"
    by (simp add: idle_writer_def)
  then have "fileOffset (ab s) \<noteq> 0"
    using inv c by (auto simp: arcopy_inv_def)
  then show ?thesis
    using inv c o al by (cases "copying s") (auto simp: arcopy_inv_def aligned_def idle_writer_def)
qed

lemma inv_end_signal:
  assumes inv: "arcopy_inv limit s" and c: "writing s = C_end"
  shows "arcopy_inv limit (s\<lparr>writing := C_check, ab := (ab s)\<lparr>bufEndArchive := False\<rparr>,
      copying := wake_copier (copying s)\<rparr>)"
  using inv c by (cases "copying s") (auto simp: arcopy_inv_def aligned_def idle_writer_def)

lemma arcopy_inv_step:
  assumes "arcopy_step limit s s'" "arcopy_inv limit s"
  shows "arcopy_inv limit s'"
  using assms
proof (induction rule: arcopy_step.induct)
  case (write_grow s l w mem cfg a)
  then show ?case
    by (intro inv_write_grow)
qed (rule inv_copy_file inv_easy_copier inv_fill inv_advance_in inv_end_archive inv_end_done
  inv_take inv_write_ok inv_write_retry inv_advance_out inv_end_signal; assumption)+

inductive arcopy_reach :: "nat \<Rightarrow> arcopy_sys \<Rightarrow> arcopy_sys \<Rightarrow> bool" for limit s where
  start: "arcopy_reach limit s s"
| step: "arcopy_reach limit s t \<Longrightarrow> arcopy_step limit t u \<Longrightarrow> arcopy_reach limit s u"

lemma arcopy_inv_start:
  assumes "0 < blocks" "0 < wc" "length mem = blocks * wc"
  shows "arcopy_inv limit (arcopy_start blocks wc mem)"
  using assms
  by (simp add: arcopy_inv_def arcopy_start_def ring_ok_def used_def pending_empty aligned_def idle_writer_def)

lemma arcopy_inv_reach:
  "arcopy_reach limit s t \<Longrightarrow> arcopy_inv limit s \<Longrightarrow> arcopy_inv limit t"
  by (induction rule: arcopy_reach.induct) (auto intro: arcopy_inv_step)

section \<open>Sleep\<close>

text \<open>
  As long as the buffer was not replaced, the copying thread sleeps only while there really
  is no room, and a request and a block fit into the buffer together.
\<close>

definition sleep_inv :: "nat \<Rightarrow> arcopy_sys \<Rightarrow> bool" where
  "sleep_inv limit s \<longleftrightarrow>
     (\<not> regrown s \<longrightarrow>
        limit + WriteCount (ab s) < bufSize (ab s) \<and>
        (\<forall>n. copying s = P_sleep n \<longrightarrow> bufSize (ab s) \<le> used (ab s) + n + 1))"

lemma wake_copier_sleep: "wake_copier p \<noteq> P_sleep n"
  by (cases p) simp_all

lemma sleep_inv_step:
  assumes "arcopy_step limit s s'" "arcopy_inv limit s" "sleep_inv limit s"
  shows "sleep_inv limit s'"
  using assms
proof (induction rule: arcopy_step.induct)
  case (no_room s n)
  moreover have "ring_ok (ab s)"
    using no_room by (simp add: arcopy_inv_def)
  ultimately show ?case
    by (auto simp: sleep_inv_def WaitRoom_iff)
next
  case (write_retry s l w)
  have "w \<le> WriteCount (ab s)"
    using write_retry by (intro dvd_imp_le) (simp_all add: arcopy_inv_def)
  then show ?case
    using write_retry by (auto simp: sleep_inv_def)
next
  case (advance_out s l)
  have "bufFull (ab s)" if "copying s = P_sleep n" for n
    using that advance_out by (simp add: arcopy_inv_def)
  then show ?case
    using advance_out wake_copier_sleep by (auto simp: sleep_inv_def split: if_splits)
next
  case (end_signal s)
  then show ?case
    using wake_copier_sleep by (auto simp: sleep_inv_def)
qed (auto simp: sleep_inv_def beginArchiveFile_def)

lemma sleep_inv_reach:
  assumes "arcopy_reach limit s t" "arcopy_inv limit s" "sleep_inv limit s"
  shows "sleep_inv limit t"
  using assms by (induction rule: arcopy_reach.induct) (auto intro: sleep_inv_step arcopy_inv_reach)

lemma sleep_inv_start: "limit + wc < blocks * wc \<Longrightarrow> sleep_inv limit (arcopy_start blocks wc mem)"
  by (simp add: sleep_inv_def arcopy_start_def)

text \<open>A copying thread that waits finds a writing thread with a block to write.\<close>

lemma sleeper_has_block:
  assumes "arcopy_inv limit s" "sleep_inv limit s" "\<not> regrown s" "copying s = P_sleep n"
  shows "WriteCount (ab s) \<le> used (ab s)" "writing s \<noteq> C_sleep" "writing s \<noteq> C_end"
proof -
  have "n \<le> limit" "bufSize (ab s) \<le> used (ab s) + n + 1" "limit + WriteCount (ab s) < bufSize (ab s)"
    using assms by (auto simp: arcopy_inv_def sleep_inv_def)
  then show u: "WriteCount (ab s) \<le> used (ab s)"
    by simp
  then show "writing s \<noteq> C_sleep" "writing s \<noteq> C_end"
    using assms(1) by (auto simp: arcopy_inv_def)
qed

section \<open>Liveness\<close>

lemma arcopy_reach_trans: "arcopy_reach limit t u \<Longrightarrow> arcopy_reach limit s t \<Longrightarrow> arcopy_reach limit s u"
  by (induction rule: arcopy_reach.induct) (auto intro: arcopy_reach.step)

lemma arcopy_step_reach: "arcopy_step limit s t \<Longrightarrow> arcopy_reach limit t u \<Longrightarrow> arcopy_reach limit s u"
  by (rule arcopy_reach_trans) (auto intro: arcopy_reach.intros)

text \<open>Steps of the writing thread until it has written one block and woken the sleeper.\<close>

definition drained :: "nat \<Rightarrow> arcopy_sys \<Rightarrow> nat \<Rightarrow> arcopy_sys \<Rightarrow> bool" where
  "drained limit s n t \<longleftrightarrow>
     arcopy_reach limit s t \<and> copying t = P_wait n \<and> used (ab t) < used (ab s) \<and> sent t = sent s \<and>
     regrown t = regrown s"

lemma drained_step:
  assumes "arcopy_step limit s s'" "used (ab s') = used (ab s)" "sent s' = sent s" "regrown s' = regrown s"
    "drained limit s' n t"
  shows "drained limit s n t"
  using assms arcopy_step_reach unfolding drained_def by metis

lemma drain_written:
  assumes inv: "arcopy_inv limit s" and p: "copying s = P_sleep n" and c: "writing s = C_written l"
  shows "\<exists>t. drained limit s n t"
proof -
  have blk: "block_ok (ab s) (copying s) l" "ring_ok (ab s)" "bufFull (ab s)"
    using inv p c by (simp_all add: arcopy_inv_def)
  let ?t = "s\<lparr>writing := C_check, ab := advance_out (ab s) l,
      copying := (if bufFull (ab s) then wake_copier (copying s) else copying s)\<rparr>"
  have "arcopy_step limit s ?t"
    using c by (rule arcopy_step.advance_out)
  moreover have "used (ab ?t) < used (ab s)"
    using blk advance_out_ok(2) [OF blk(2), of l] by (auto simp: block_ok_def)
  ultimately have "drained limit s n ?t"
    using p blk(3) by (auto simp: drained_def intro: arcopy_reach.intros)
  then show ?thesis ..
qed

lemma drain_write:
  assumes inv: "arcopy_inv limit s" and p: "copying s = P_sleep n" and c: "writing s = C_write l"
  shows "\<exists>t. drained limit s n t"
proof -
  let ?s = "s\<lparr>writing := C_written l, media := media s @ block_out (ab s) l\<rparr>"
  have "\<exists>t. drained limit ?s n t"
    using p by (intro drain_written inv_write_ok [OF inv c]) simp_all
  then show ?thesis
    using drained_step [OF arcopy_step.write_ok [OF c]] by fastforce
qed

lemma drain_sleeper:
  assumes inv: "arcopy_inv limit s" "sleep_inv limit s" "\<not> regrown s" and p: "copying s = P_sleep n"
  shows "\<exists>t. drained limit s n t"
proof (cases "writing s")
  case C_check
  let ?s = "s\<lparr>writing := C_write (WriteCount (ab s))\<rparr>"
  have w: "WriteCount (ab s) \<le> used (ab s)"
    using sleeper_has_block [OF inv p] by simp
  have "\<exists>t. drained limit ?s n t"
    using p by (intro drain_write inv_take(1) [OF inv(1) C_check w]) simp_all
  then show ?thesis
    using drained_step [OF arcopy_step.take_block [OF C_check w]] by fastforce
qed (use sleeper_has_block [OF inv p] drain_write drain_written inv(1) p in auto)

lemma waiter_granted:
  assumes "arcopy_inv limit s" "sleep_inv limit s" "\<not> regrown s" "copying s = P_wait n"
  shows "\<exists>t. arcopy_reach limit s t \<and> copying t = P_granted n \<and> sent t = sent s"
  using assms
proof (induction "used (ab s)" arbitrary: s rule: less_induct)
  case less
  show ?case
  proof (cases "WaitRoom (ab s) n")
    case True
    let ?t = "s\<lparr>copying := P_granted n\<rparr>"
    have "arcopy_step limit s ?t"
      using less.prems(4) True by (rule arcopy_step.room)
    then show ?thesis
      by (intro exI [of _ ?t]) (auto intro: arcopy_reach.intros)
  next
    case False
    let ?s = "s\<lparr>copying := P_sleep n, ab := (ab s)\<lparr>bufFull := True\<rparr>\<rparr>"
    have st: "arcopy_step limit s ?s"
      using less.prems(4) False by (rule arcopy_step.no_room)
    have inv: "arcopy_inv limit ?s" "sleep_inv limit ?s"
      using arcopy_inv_step [OF st] sleep_inv_step [OF st] less.prems by simp_all
    then obtain t where t: "drained limit ?s n t"
      using drain_sleeper [of limit ?s n] less.prems(3) by auto
    then have r: "arcopy_reach limit ?s t" "copying t = P_wait n" "used (ab t) < used (ab s)"
      "sent t = sent s" "\<not> regrown t"
      using less.prems(3) by (simp_all add: drained_def)
    obtain u where u: "arcopy_reach limit t u" "copying u = P_granted n" "sent u = sent t"
      using less.hyps [OF r(3)] r inv arcopy_inv_reach sleep_inv_reach by blast
    have "arcopy_reach limit s u"
      by (rule arcopy_step_reach [OF st arcopy_reach_trans [OF u(1) r(1)]])
    then show ?thesis
      using u r(4) by auto
  qed
qed

section \<open>Runs\<close>

text \<open>Copying a piece of data, as \<open>WriteData\<close> and the header functions do, is a run of steps.\<close>

lemma piece_run:
  assumes "copying s = P_run" "n \<le> limit" "WaitRoom (ab s) n" "length xs \<le> n"
  shows "arcopy_reach limit s (s\<lparr>ab := put_piece (ab s) xs, sent := sent s @ xs,
      writing := (if bufEmpty (ab s) then wake_writer (writing s) else writing s)\<rparr>)"
proof -
  let ?s1 = "s\<lparr>copying := P_wait n\<rparr>"
  let ?s2 = "?s1\<lparr>copying := P_granted n\<rparr>" let ?s3 = "?s2\<lparr>copying := P_room n\<rparr>"
  let ?s4 = "?s3\<lparr>copying := P_filled xs, ab := copy_in (ab ?s3) xs\<rparr>"
  let ?s5 = "?s4\<lparr>copying := P_run, ab := AdvanceIn (ab ?s4) (length xs), sent := sent ?s4 @ xs,
      writing := (if bufEmpty (ab ?s4) then wake_writer (writing ?s4) else writing ?s4)\<rparr>"
  have 1: "arcopy_step limit s ?s1"
    by (rule arcopy_step.wait_room [OF assms(1,2)])
  have 2: "arcopy_step limit ?s1 ?s2"
    using assms(3) by (intro arcopy_step.room) simp_all
  have 3: "arcopy_step limit ?s2 ?s3" "arcopy_step limit ?s3 ?s4" "arcopy_step limit ?s4 ?s5"
    using assms(4) by (intro arcopy_step.lock_inuse arcopy_step.fill arcopy_step.advance_in; simp)+
  have "arcopy_reach limit s ?s5"
    by (rule arcopy_step_reach [OF 1 arcopy_step_reach [OF 2 arcopy_step_reach [OF 3(1)
      arcopy_step_reach [OF 3(2) arcopy_step_reach [OF 3(3) arcopy_reach.start]]]]])
  moreover have "?s5 = s\<lparr>ab := put_piece (ab s) xs, sent := sent s @ xs,
      writing := (if bufEmpty (ab s) then wake_writer (writing s) else writing s)\<rparr>"
    using assms(1) by (simp add: put_piece_def)
  ultimately show ?thesis
    by simp
qed

text \<open>
  A sample run with a buffer of four blocks of four bytes: seven bytes are copied in, the
  writing thread takes a block, and the copying thread waits for room for eight more.
\<close>

definition sample_taken :: arcopy_sys where
  "sample_taken =
     \<lparr>ab = \<lparr>bufFirst = ''abcdefg'' @ replicate 9 NUL, bufSize = 16, bufIn = 7, bufOut = 0, fileOffset = 7,
        bufEndArchive = False, bufEmpty = False, bufFull = False, blockCount = 4,
        WriteCount = 4, ReadCount = 8\<rparr>,
      copying = P_run, writing = C_write 4, sent = ''abcdefg'', media = [], regrown = False\<rparr>"

definition sample_sleeper :: arcopy_sys where
  "sample_sleeper =
     sample_taken\<lparr>copying := P_sleep 8, ab := (ab sample_taken)\<lparr>bufFull := True\<rparr>\<rparr>"

lemma sample_taken_reach: "arcopy_reach 8 (arcopy_start 4 4 (replicate 16 NUL)) sample_taken"
proof -
  let ?s = "arcopy_start 4 4 (replicate 16 NUL)"
  let ?s1 = "?s\<lparr>copying := P_run, ab := beginArchiveFile (ab ?s)\<rparr>"
  let ?s2 = "?s1\<lparr>ab := put_piece (ab ?s1) ''abcdefg'', sent := ''abcdefg''\<rparr>"
  have 1: "arcopy_step 8 ?s ?s1"
    using arcopy_step.copy_file [of ?s 8] by (simp add: arcopy_start_def)
  have 2: "arcopy_reach 8 ?s1 ?s2"
    using piece_run [of ?s1 7 8 "''abcdefg''"]
    by (simp add: arcopy_start_def beginArchiveFile_def WaitRoom_def)
  have ab2: "ab ?s2 = ab sample_taken"
    by (simp add: sample_taken_def put_piece_def copy_in_def overwrite_def AdvanceIn_def arcopy_start_def
        beginArchiveFile_def)
  have 3: "arcopy_step 8 ?s2 (?s2\<lparr>writing := C_write (WriteCount (ab ?s2))\<rparr>)"
  proof (rule arcopy_step.take_block)
    show "WriteCount (ab ?s2) \<le> used (ab ?s2)"
      unfolding ab2 by (simp add: sample_taken_def used_def)
  qed (simp add: arcopy_start_def)
  have "?s2\<lparr>writing := C_write (WriteCount (ab ?s2))\<rparr> = sample_taken"
    using ab2 by (simp add: sample_taken_def arcopy_start_def)
  then show ?thesis
    using arcopy_step_reach [OF 1 arcopy_reach.step [OF 2 3]] by (simp only:)
qed

lemma sample_sleeper_reach: "arcopy_reach 8 (arcopy_start 4 4 (replicate 16 NUL)) sample_sleeper"
proof -
  let ?w = "sample_taken\<lparr>copying := P_wait 8\<rparr>"
  have "arcopy_step 8 sample_taken ?w"
    by (rule arcopy_step.wait_room) (simp_all add: sample_taken_def)
  moreover have "arcopy_step 8 ?w (?w\<lparr>copying := P_sleep 8, ab := (ab ?w)\<lparr>bufFull := True\<rparr>\<rparr>)"
    by (rule arcopy_step.no_room) (simp_all add: sample_taken_def WaitRoom_def)
  ultimately show ?thesis
    using sample_taken_reach by (auto simp: sample_sleeper_def intro: arcopy_reach.step)
qed

section \<open>Properties\<close>




definition sample_end :: arcopy_sys where
  "sample_end =
     \<lparr>ab = \<lparr>bufFirst = ''abc'' @ replicate 5 NUL, bufSize = 8, bufIn = 3, bufOut = 3, fileOffset = 3,
        bufEndArchive = False, bufEmpty = False, bufFull = False, blockCount = 2,
        WriteCount = 4, ReadCount = 4\<rparr>,
      copying = P_ending, writing = C_check, sent = ''abc'', media = ''abc'', regrown = False\<rparr>"

lemma sample_end_reach: "arcopy_reach 4 (arcopy_start 2 4 (replicate 8 NUL)) sample_end"
proof -
  let ?s = "arcopy_start 2 4 (replicate 8 NUL)"
  let ?s1 = "?s\<lparr>copying := P_run, ab := beginArchiveFile (ab ?s)\<rparr>"
  let ?s2 = "?s1\<lparr>ab := put_piece (ab ?s1) ''abc'', sent := ''abc''\<rparr>"
  define a where "a = \<lparr>bufFirst = ''abc'' @ replicate 5 NUL, bufSize = 8, bufIn = 3, bufOut = 0, fileOffset = 3,
        bufEndArchive = False, bufEmpty = False, bufFull = False, blockCount = 2,
        WriteCount = 4, ReadCount = 4\<rparr>"
  define s3 where "s3 = \<lparr>ab = a, copying = P_idle, writing = C_check, sent = ''abc'', media = [], regrown = False\<rparr>"
  define s4 where "s4 = s3\<lparr>copying := P_ending, ab := a\<lparr>bufEndArchive := True\<rparr>\<rparr>"
  have 1: "arcopy_step 4 ?s ?s1"
    using arcopy_step.copy_file [of ?s 4] by (simp add: arcopy_start_def)
  have 2: "arcopy_reach 4 ?s1 ?s2"
    using piece_run [of ?s1 3 4 "''abc''"]
    by (simp add: arcopy_start_def beginArchiveFile_def WaitRoom_def)
  have "?s2\<lparr>copying := P_idle\<rparr> = s3"
    by (simp add: s3_def a_def put_piece_def copy_in_def overwrite_def AdvanceIn_def arcopy_start_def
        beginArchiveFile_def)
  then have 3: "arcopy_step 4 ?s2 s3"
    using arcopy_step.copy_done [of ?s2 4] by (simp add: arcopy_start_def)
  have 4: "arcopy_step 4 s3 s4"
    using arcopy_step.end_archive [of s3 4] by (simp add: s3_def s4_def a_def)
  have 5: "arcopy_step 4 s4 (s4\<lparr>writing := C_write 3\<rparr>)"
    using arcopy_step.take_rest [of s4 4] by (simp add: s4_def s3_def a_def used_def)
  have 6: "arcopy_step 4 (s4\<lparr>writing := C_write 3\<rparr>) (s4\<lparr>writing := C_written 3, media := ''abc''\<rparr>)"
    using arcopy_step.write_ok [of "s4\<lparr>writing := C_write 3\<rparr>" 3 4]
    by (simp add: s4_def s3_def a_def block_out_def)
  define s5 where "s5 = s4\<lparr>media := ''abc'', ab := (ab s4)\<lparr>bufOut := 3\<rparr>\<rparr>"
  have 7: "arcopy_step 4 (s4\<lparr>writing := C_written 3, media := ''abc''\<rparr>) s5"
    using arcopy_step.advance_out [of "s4\<lparr>writing := C_written 3, media := ''abc''\<rparr>" 3 4]
    by (simp add: s5_def s4_def s3_def a_def advance_out_def)
  have 8: "arcopy_step 4 s5 (s5\<lparr>writing := C_end\<rparr>)"
    using arcopy_step.take_rest [of s5 4] by (simp add: s5_def s4_def s3_def a_def used_def)
  have 9: "arcopy_step 4 (s5\<lparr>writing := C_end\<rparr>) sample_end"
    using arcopy_step.end_signal [of "s5\<lparr>writing := C_end\<rparr>" 4]
    by (simp add: s5_def s4_def s3_def a_def sample_end_def)
  show ?thesis
    by (rule arcopy_step_reach [OF 1 arcopy_reach.step [OF arcopy_reach.step [OF arcopy_reach.step [OF
      arcopy_reach.step [OF arcopy_reach.step [OF arcopy_reach.step [OF arcopy_reach.step [OF 2 3] 4] 5] 6] 7] 8] 9]])
qed




text \<open>
  C15. Replacing the buffer can stop both threads for good. \<open>CopyFileReconfig\<close> does not signal
  \<open>bufRead\<close>. If the copying thread sleeps for want of room when a volume with larger blocks is
  loaded, and the buffer holds less than one of the new blocks, the writing thread goes to
  sleep too: there is room in the new buffer, but no step is possible any more.
\<close>

theorem regrown_buffer_deadlock:
  assumes inv: "arcopy_inv limit s" and p: "copying s = P_sleep n" and c: "writing s = C_write l"
    and w: "bufSize (ab s) < blockCount (ab s) * w" "blockCount (ab s) * w < 2 ^ 31"
    and few: "used (ab s) < w" "used (ab s) + n + 1 < blockCount (ab s) * w"
  shows "\<exists>t u. arcopy_step limit s t \<and> arcopy_step limit t u \<and>
    copying u = P_sleep n \<and> writing u = C_sleep \<and> WaitRoom (ab u) n \<and> (\<forall>v. \<not> arcopy_step limit u v)"
proof -
  let ?mem = "replicate (blockCount (ab s) * w) NUL"
  have ok: "ring_ok (ab s)" and e: "\<not> bufEndArchive (ab s)"
    using inv p by (auto simp: arcopy_inv_def)
  have "bufFirst (ab s) \<noteq> []" "adjust_blocks (blockCount (ab s)) w = blockCount (ab s)"
    using ok w adjust_blocks_small [of "blockCount (ab s)" w] by (auto simp: ring_ok_def SIZE_MAX_def)
  then obtain a where a: "CopyFileReconfig 0 (\<lambda>_. Some ?mem) ((ab s)\<lparr>WriteCount := w\<rparr>) = Some a"
    using w by (simp add: CopyFileReconfig_def Let_def int_product_small)
  note g = CopyFileReconfig_grow [OF ok w _ a, simplified]
  have "length (pending a) = length (pending (ab s))"
    using g(2) by simp
  then have ua: "used a = used (ab s)"
    by (simp add: pending_def)
  let ?t = "s\<lparr>writing := C_check, ab := a, regrown := True\<rparr>"
  let ?u = "?t\<lparr>writing := C_sleep, ab := (ab ?t)\<lparr>bufEmpty := True\<rparr>\<rparr>"
  have "arcopy_step limit s ?t"
    using arcopy_step.write_grow [OF c w(1) _ w(2) _ a, where limit = limit] p by simp
  moreover have "arcopy_step limit ?t ?u"
    using g few(1) ua e by (intro arcopy_step.no_data) simp_all
  moreover have "WaitRoom (ab ?u) n"
    using g few(2) ua by (subst WaitRoom_iff) simp_all
  moreover have "\<not> arcopy_step limit ?u v" for v
    using p by (auto elim: arcopy_step.cases)
  ultimately show ?thesis
    using p by (intro exI [of _ ?t] exI [of _ ?u]) simp
qed

theorem regrown_buffer_deadlock_witness:
  "\<exists>t u. arcopy_step 8 sample_sleeper t \<and> arcopy_step 8 t u \<and>
    copying u = P_sleep 8 \<and> writing u = C_sleep \<and> WaitRoom (ab u) 8 \<and> (\<forall>v. \<not> arcopy_step 8 u v)"
proof (rule regrown_buffer_deadlock [where l = 4 and w = 16])
  show "arcopy_inv 8 sample_sleeper"
    using arcopy_inv_reach [OF sample_sleeper_reach] arcopy_inv_start [of 4 4] by simp
qed (simp_all add: sample_sleeper_def sample_taken_def used_def)

end
