(* ===== verification/Byte_Swap.thy ===== *)
theory Byte_Swap
  imports Prelude
begin

text \<open>
  Byte order conversion of on-disk and on-wire structures: \<open>sam_bswap2\<close>, \<open>sam_bswap4\<close> and
  \<open>sam_bswap8\<close> of src/src/fs/include/bswap.h, which reverse the bytes of consecutive elements,
  several elements at a time in one wide word where the address allows it; \<open>sam_byte_swap\<close> and
  its callers of src/src/fs/lib/bswap.c, which walk over a table of the elements of a
  structure. The tables themselves are in Byte\_Swap\_Tables.

  Memory is a list of bytes. A wide access reads and writes the bytes in the byte order of the
  machine, which is a parameter, and the alignment tests look at the address.
\<close>

unbundle bit_operations_syntax

section \<open>Wide accesses\<close>

definition byte_at :: "nat \<Rightarrow> 'a::len word \<Rightarrow> u8" where
  "byte_at i v = ucast (drop_bit (8 * i) v)"

definition load_le :: "u8 list \<Rightarrow> 'a::len word" where
  "load_le bs = foldr (\<lambda>b v. ucast b OR push_bit 8 v) bs 0"

definition store_le :: "nat \<Rightarrow> 'a::len word \<Rightarrow> u8 list" where
  "store_le n v = map (\<lambda>i. byte_at i v) [0..<n]"

definition load :: "bool \<Rightarrow> u8 list \<Rightarrow> 'a::len word" where
  "load big bs = load_le (if big then rev bs else bs)"

definition store :: "bool \<Rightarrow> nat \<Rightarrow> 'a::len word \<Rightarrow> u8 list" where
  "store big n v = (if big then rev (store_le n v) else store_le n v)"

section \<open>Elements of 2, 4 and 8 bytes\<close>

definition swap16 :: "16 word \<Rightarrow> 16 word" where
  "swap16 v = push_bit 8 v OR drop_bit 8 v"

definition swap16x2 :: "u32 \<Rightarrow> u32" where
  "swap16x2 v = push_bit 8 (v AND 0xff00ff) OR (drop_bit 8 v AND 0xff00ff)"

definition swap16x4 :: "u64 \<Rightarrow> u64" where
  "swap16x4 v = push_bit 8 (v AND 0xff00ff00ff00ff) OR (drop_bit 8 v AND 0xff00ff00ff00ff)"

definition swap32 :: "u32 \<Rightarrow> u32" where
  "swap32 v = swap16x2 (push_bit 16 v OR drop_bit 16 v)"

definition swap32x2 :: "u64 \<Rightarrow> u64" where
  "swap32x2 v = swap16x4 (push_bit 16 (v AND 0xffff0000ffff) OR (drop_bit 16 v AND 0xffff0000ffff))"

definition swap64 :: "u64 \<Rightarrow> u64" where
  "swap64 v = swap32x2 (push_bit 32 v OR drop_bit 32 v)"

text \<open>
  The loops. \<open>a\<close> is the address of the memory \<open>m\<close>, \<open>count\<close> the number of elements that are left.
\<close>

fun sam_bswap2 :: "bool \<Rightarrow> nat \<Rightarrow> nat \<Rightarrow> u8 list \<Rightarrow> u8 list" where
  "sam_bswap2 big a n m =
     (if n = 0 then m
      else if 4 \<le> n \<and> a mod 8 = 0
      then store big 8 (swap16x4 (load big (take 8 m))) @ sam_bswap2 big (a + 8) (n - 4) (drop 8 m)
      else if 2 \<le> n \<and> a mod 4 = 0
      then store big 4 (swap16x2 (load big (take 4 m))) @ sam_bswap2 big (a + 4) (n - 2) (drop 4 m)
      else store big 2 (swap16 (load big (take 2 m))) @ sam_bswap2 big (a + 2) (n - 1) (drop 2 m))"

fun sam_bswap4 :: "bool \<Rightarrow> nat \<Rightarrow> nat \<Rightarrow> u8 list \<Rightarrow> u8 list" where
  "sam_bswap4 big a n m =
     (if n = 0 then m
      else if 2 \<le> n \<and> a mod 8 = 0
      then store big 8 (swap32x2 (load big (take 8 m))) @ sam_bswap4 big (a + 8) (n - 2) (drop 8 m)
      else store big 4 (swap32 (load big (take 4 m))) @ sam_bswap4 big (a + 4) (n - 1) (drop 4 m))"

fun sam_bswap8 :: "bool \<Rightarrow> nat \<Rightarrow> u8 list \<Rightarrow> u8 list" where
  "sam_bswap8 big n m =
     (if n = 0 then m
      else store big 8 (swap64 (load big (take 8 m))) @ sam_bswap8 big (n - 1) (drop 8 m))"

declare sam_bswap2.simps [simp del] sam_bswap4.simps [simp del] sam_bswap8.simps [simp del]

section \<open>Tables of elements\<close>

text \<open>An entry of a table: offset, element size, count. A table ends at element size 0.\<close>

record swap_descriptor =
  d_offset :: nat
  d_elsize :: nat
  d_count :: nat

text \<open>
  One entry applied to the structure \<open>m\<close> at address \<open>a\<close>; \<^const>\<open>None\<close> is the default case of the
  switch.
\<close>

definition swap_elements :: "bool \<Rightarrow> nat \<Rightarrow> swap_descriptor \<Rightarrow> u8 list \<Rightarrow> u8 list option" where
  "swap_elements big a d m =
     (let pre = take (d_offset d) m; r = drop (d_offset d) m
      in if d_elsize d = 1 then Some m
         else if d_elsize d = 2 then Some (pre @ sam_bswap2 big (a + d_offset d) (d_count d) r)
         else if d_elsize d = 4 then Some (pre @ sam_bswap4 big (a + d_offset d) (d_count d) r)
         else if d_elsize d = 8 then Some (pre @ sam_bswap8 big (d_count d) r)
         else None)"

text \<open>
  \<open>len\<close> is the length of the object the caller passes. The result is the status and the
  memory, which an error leaves partly swapped.
\<close>

fun sam_byte_swap :: "bool \<Rightarrow> nat \<Rightarrow> swap_descriptor list \<Rightarrow> nat \<Rightarrow> u8 list \<Rightarrow> int \<times> u8 list" where
  "sam_byte_swap big a [] len m = (0, m)"
| "sam_byte_swap big a (d # ds) len m =
     (if d_elsize d = 0 then (0, m)
      else if len < d_offset d + d_count d * d_elsize d then (- 1, m)
      else case swap_elements big a d m of
        None \<Rightarrow> (- 1, m)
      | Some m' \<Rightarrow> sam_byte_swap big a ds len m')"

section \<open>Lemmas: bytes of words\<close>

lemma byte_at_load_le:
  "i < length bs \<Longrightarrow> 8 * length bs \<le> LENGTH('a::len) \<Longrightarrow> byte_at i (load_le bs :: 'a word) = bs ! i"
proof (induction bs arbitrary: i)
  case (Cons b bs)
  let ?v = "load_le bs :: 'a word"
  have eq: "load_le (b # bs) = ucast b OR push_bit 8 ?v"
    by (simp add: load_le_def)
  show ?case
  proof (cases i)
    case 0
    have "bit (byte_at 0 (ucast b OR push_bit 8 ?v)) n \<longleftrightarrow> bit b n" if "n < 8" for n
      using that Cons.prems by (simp add: byte_at_def bit_simps)
    then show ?thesis
      unfolding eq 0 by (intro bit_word_eqI) simp
  next
    case (Suc j)
    have "bit (byte_at i (ucast b OR push_bit 8 ?v)) n \<longleftrightarrow> bit (byte_at j ?v) n" if "n < 8" for n
    proof -
      have "8 * j + 8 + n < LENGTH('a)"
        using that Cons.prems Suc by simp
      then show ?thesis
        using that bit_imp_le_length [of b "8 * j + 8 + n"]
        by (auto simp add: byte_at_def bit_simps Suc ac_simps)
    qed
    then have "byte_at i (ucast b OR push_bit 8 ?v) = byte_at j ?v"
      by (intro bit_word_eqI) simp
    then show ?thesis
      using Cons Suc by (simp add: eq)
  qed
qed simp

lemma bit_byte_at: "n < 8 \<Longrightarrow> bit (byte_at i v) n \<longleftrightarrow> bit v (8 * i + n)"
  by (auto simp: byte_at_def bit_simps ac_simps dest: bit_imp_le_length)

lemma byte_eqI:
  assumes "\<And>n. n < 8 \<Longrightarrow> bit v (8 * i + n) = bit w (8 * j + n)"
  shows "byte_at i v = byte_at j w"
  using assms by (intro bit_word_eqI) (simp add: bit_byte_at)

text \<open>
  A permutation of the bytes of a word, as an operation on memory: it does not depend on the
  byte order when it commutes with the reversal of all bytes.
\<close>

lemma store_permuted:
  fixes f :: "'a::len word \<Rightarrow> 'b::len word"
  assumes f: "\<And>v i. i < n \<Longrightarrow> byte_at i (f v) = byte_at (p i) v"
    and p: "\<And>i. i < n \<Longrightarrow> p i < n \<and> p (n - 1 - i) = n - 1 - p i"
    and n: "length bs = n" "8 * n \<le> LENGTH('a)"
  shows "store big n (f (load big bs)) = map (\<lambda>i. bs ! p i) [0..<n]"
proof (cases big)
  case True
  have "byte_at (n - 1 - i) (f (load_le (rev bs))) = bs ! p i" if "i < n" for i
  proof -
    have "byte_at (n - 1 - i) (f (load_le (rev bs))) = rev bs ! (n - 1 - p i)"
      using f [of "n - 1 - i"] p [OF that] that n byte_at_load_le [of "n - 1 - p i" "rev bs"] by simp
    then show ?thesis
      using p [OF that] n by (simp add: rev_nth)
  qed
  then show ?thesis
    using True n by (intro nth_equalityI) (simp_all add: store_def load_def store_le_def rev_nth)
next
  case False
  then show ?thesis
    using f p n by (intro nth_equalityI) (simp_all add: store_def load_def store_le_def byte_at_load_le)
qed

section \<open>Lemmas: swapped elements\<close>

lemma bit_shifted_mask:
  "n + m \<le> LENGTH('a) \<Longrightarrow> bit (push_bit m (mask n) :: 'a::len word) k \<longleftrightarrow> m \<le> k \<and> k < n + m"
  by (auto simp: bit_push_bit_iff bit_mask_iff possible_bit_word)

lemma mask_bits:
  "bit (0xff00ff00ff00ff :: u64) k \<longleftrightarrow>
    k < 8 \<or> 16 \<le> k \<and> k < 24 \<or> 32 \<le> k \<and> k < 40 \<or> 48 \<le> k \<and> k < 56"
  "bit (0xffff0000ffff :: u64) k \<longleftrightarrow> k < 16 \<or> 32 \<le> k \<and> k < 48"
  "bit (0xff00ff :: u32) k \<longleftrightarrow> k < 8 \<or> 16 \<le> k \<and> k < 24"
proof -
  have "(0xff00ff00ff00ff :: u64) =
      push_bit 0 (mask 8) OR push_bit 16 (mask 8) OR push_bit 32 (mask 8) OR push_bit 48 (mask 8)"
    by (simp add: mask_eq_exp_minus_1)
  then show "bit (0xff00ff00ff00ff :: u64) k \<longleftrightarrow>
      k < 8 \<or> 16 \<le> k \<and> k < 24 \<or> 32 \<le> k \<and> k < 40 \<or> 48 \<le> k \<and> k < 56"
    by (simp only: bit_or_iff) (simp add: bit_shifted_mask del: push_bit_of_0 push_bit_0_id)
  have "(0xffff0000ffff :: u64) = push_bit 0 (mask 16) OR push_bit 32 (mask 16)"
    by (simp add: mask_eq_exp_minus_1)
  then show "bit (0xffff0000ffff :: u64) k \<longleftrightarrow> k < 16 \<or> 32 \<le> k \<and> k < 48"
    by (simp only: bit_or_iff) (simp add: bit_shifted_mask del: push_bit_of_0 push_bit_0_id)
  have "(0xff00ff :: u32) = push_bit 0 (mask 8) OR push_bit 16 (mask 8)"
    by (simp add: mask_eq_exp_minus_1)
  then show "bit (0xff00ff :: u32) k \<longleftrightarrow> k < 8 \<or> 16 \<le> k \<and> k < 24"
    by (simp only: bit_or_iff) (simp add: bit_shifted_mask del: push_bit_of_0 push_bit_0_id)
qed

lemmas word_bits = bit_or_iff bit_and_iff bit_push_bit_iff bit_drop_bit_eq possible_bit_word o_apply mask_bits

text \<open>Where the bytes of a swapped word come from.\<close>

lemma less_8_cases:
  fixes i :: nat
  assumes "i < 8"
  shows "i = 0 \<or> i = Suc 0 \<or> i = 2 \<or> i = 3 \<or> i = 4 \<or> i = 5 \<or> i = 6 \<or> i = 7"
  using assms by linarith

lemma less_4_cases:
  fixes i :: nat
  assumes "i < 4"
  shows "i = 0 \<or> i = Suc 0 \<or> i = 2 \<or> i = 3"
  using assms by linarith

lemma swap16_bytes: "i < 2 \<Longrightarrow> byte_at i (swap16 v) = byte_at (Suc 0 - i) v"
  by (rule byte_eqI) (auto simp: less_2_cases_iff swap16_def word_bits dest: bit_imp_le_length)

lemma swap16x2_bytes:
  assumes "i < 4"
  shows "byte_at i (swap16x2 v) = byte_at (if even i then Suc i else i - 1) v"
  using less_4_cases [OF assms]
  by (elim disjE; hypsubst; intro byte_eqI; simp only: swap16x2_def word_bits; simp)

lemma swap16x4_bytes:
  assumes "i < 8"
  shows "byte_at i (swap16x4 v) = byte_at (if even i then Suc i else i - 1) v"
  using less_8_cases [OF assms]
  by (elim disjE; hypsubst; intro byte_eqI; simp only: swap16x4_def word_bits; simp)

lemma halves_bytes:
  "i < 4 \<Longrightarrow> byte_at i (push_bit 16 v OR drop_bit 16 v :: u32) = byte_at (if i < 2 then i + 2 else i - 2) v"
  "i < 8 \<Longrightarrow> byte_at i (push_bit 16 (w AND 0xffff0000ffff) OR (drop_bit 16 w AND 0xffff0000ffff) :: u64) =
    byte_at (if i mod 4 < 2 then i + 2 else i - 2) w"
  "i < 8 \<Longrightarrow> byte_at i (push_bit 32 w OR drop_bit 32 w :: u64) = byte_at (if i < 4 then i + 4 else i - 4) w"
  by (drule less_4_cases less_8_cases;
      elim disjE; hypsubst; intro byte_eqI; simp only: word_bits; auto dest: bit_imp_le_length)+

lemma swap32_bytes:
  assumes "i < 4"
  shows "byte_at i (swap32 v) = byte_at (3 - i) v"
proof -
  define w where "w = push_bit 16 v OR drop_bit 16 v"
  have w: "byte_at j w = byte_at (if j < 2 then j + 2 else j - 2) v" if "j < 4" for j
    unfolding w_def by (rule halves_bytes(1) [OF that])
  have "swap32 v = swap16x2 w"
    by (simp only: swap32_def w_def)
  then show ?thesis
    using less_4_cases [OF assms] by (elim disjE) (simp_all add: swap16x2_bytes w flip: numeral_2_eq_2 numeral_3_eq_3)
qed

lemma swap32x2_bytes:
  assumes "i < 8"
  shows "byte_at i (swap32x2 v) = byte_at (if i < 4 then 3 - i else 11 - i) v"
proof -
  define w where "w = push_bit 16 (v AND 0xffff0000ffff) OR (drop_bit 16 v AND 0xffff0000ffff)"
  have w: "byte_at j w = byte_at (if j mod 4 < 2 then j + 2 else j - 2) v" if "j < 8" for j
    unfolding w_def by (rule halves_bytes(2) [OF that])
  have "swap32x2 v = swap16x4 w"
    by (simp only: swap32x2_def w_def)
  then show ?thesis
    using less_8_cases [OF assms] by (elim disjE) (simp_all add: swap16x4_bytes w flip: numeral_2_eq_2 numeral_3_eq_3)
qed

lemma swap64_bytes:
  assumes "i < 8"
  shows "byte_at i (swap64 v) = byte_at (7 - i) v"
proof -
  define w where "w = push_bit 32 v OR drop_bit 32 v"
  have w: "byte_at j w = byte_at (if j < 4 then j + 4 else j - 4) v" if "j < 8" for j
    unfolding w_def by (rule halves_bytes(3) [OF that])
  have "swap64 v = swap32x2 w"
    by (simp only: swap64_def w_def)
  then show ?thesis
    using less_8_cases [OF assms] by (elim disjE) (simp_all add: swap32x2_bytes w)
qed

text \<open>What the loops are for: the bytes of each of n elements of size k reversed.\<close>

fun rev_elems :: "nat \<Rightarrow> nat \<Rightarrow> 'a list \<Rightarrow> 'a list" where
  "rev_elems k 0 m = m"
| "rev_elems k (Suc n) m = rev (take k m) @ rev_elems k n (drop k m)"

lemma length_rev_elems [simp]: "length (rev_elems k n m) = length m"
  by (induction k n m rule: rev_elems.induct) auto

lemma rev_elems_add:
  "k * n \<le> length m \<Longrightarrow> rev_elems k (n + n') m = rev_elems k n (take (k * n) m) @ rev_elems k n' (drop (k * n) m)"
  by (induction k n m rule: rev_elems.induct) (auto simp: take_drop add.commute min_def)

lemma rev_elems_numeral [simp]:
  "rev_elems k (numeral n) m = rev (take k m) @ rev_elems k (pred_numeral n) (drop k m)"
  by (simp add: numeral_eq_Suc)

lemma upt_bytes: "[0..<2] = [0, Suc 0]" "[0..<4] = [0, Suc 0, 2, 3]" "[0..<8] = [0, Suc 0, 2, 3, 4, 5, 6, 7]"
  by (simp_all add: upt_rec)

lemma eight_bytes:
  assumes "8 \<le> length m"
  obtains a b c d e f g h where "take 8 m = [a, b, c, d, e, f, g, h]"
proof -
  have "length (take 8 m) = Suc (Suc (Suc (Suc (Suc (Suc (Suc (Suc 0)))))))"
    using assms by simp
  then show thesis
    using that by (auto simp only: length_Suc_conv length_0_conv)
qed

lemma four_bytes:
  assumes "4 \<le> length m"
  obtains a b c d where "take 4 m = [a, b, c, d]"
proof -
  have "length (take 4 m) = Suc (Suc (Suc (Suc 0)))"
    using assms by simp
  then show thesis
    using that by (auto simp only: length_Suc_conv length_0_conv)
qed

lemma store_swapped:
  "8 \<le> length m \<Longrightarrow> store big 8 (swap16x4 (load big (take 8 m))) = rev_elems 2 4 (take 8 m)"
  "8 \<le> length m \<Longrightarrow> store big 8 (swap32x2 (load big (take 8 m))) = rev_elems 4 2 (take 8 m)"
  "8 \<le> length m \<Longrightarrow> store big 8 (swap64 (load big (take 8 m))) = rev (take 8 m)"
  "4 \<le> length m \<Longrightarrow> store big 4 (swap16x2 (load big (take 4 m))) = rev_elems 2 2 (take 4 m)"
  "4 \<le> length m \<Longrightarrow> store big 4 (swap32 (load big (take 4 m))) = rev (take 4 m)"
  "2 \<le> length m \<Longrightarrow> store big 2 (swap16 (load big (take 2 m))) = rev (take 2 m)"
proof -
  assume m: "8 \<le> length m"
  then obtain a b c d e f g h where t: "take 8 m = [a, b, c, d, e, f, g, h]"
    by (rule eight_bytes)
  have "store big 8 (swap16x4 (load big (take 8 m))) =
      map (\<lambda>i. take 8 m ! (if even i then Suc i else i - 1)) [0..<8]"
    using m by (intro store_permuted swap16x4_bytes) (simp | (drule less_8_cases; elim disjE; simp))+
  then show "store big 8 (swap16x4 (load big (take 8 m))) = rev_elems 2 4 (take 8 m)"
    unfolding t by (simp add: upt_bytes)
  have "store big 8 (swap32x2 (load big (take 8 m))) =
      map (\<lambda>i. take 8 m ! (if i < 4 then 3 - i else 11 - i)) [0..<8]"
    using m by (intro store_permuted swap32x2_bytes) (simp | (drule less_8_cases; elim disjE; simp))+
  then show "store big 8 (swap32x2 (load big (take 8 m))) = rev_elems 4 2 (take 8 m)"
    unfolding t by (simp add: upt_bytes)
  have "store big 8 (swap64 (load big (take 8 m))) = map (\<lambda>i. take 8 m ! (7 - i)) [0..<8]"
    using m by (intro store_permuted swap64_bytes) (simp | (drule less_8_cases; elim disjE; simp))+
  then show "store big 8 (swap64 (load big (take 8 m))) = rev (take 8 m)"
    unfolding t by (simp add: upt_bytes)
next
  assume m: "4 \<le> length m"
  then obtain a b c d where t: "take 4 m = [a, b, c, d]"
    by (rule four_bytes)
  have "store big 4 (swap16x2 (load big (take 4 m))) =
      map (\<lambda>i. take 4 m ! (if even i then Suc i else i - 1)) [0..<4]"
    using m by (intro store_permuted swap16x2_bytes) (simp | (drule less_4_cases; elim disjE; simp))+
  then show "store big 4 (swap16x2 (load big (take 4 m))) = rev_elems 2 2 (take 4 m)"
    unfolding t by (simp add: upt_bytes)
  have "store big 4 (swap32 (load big (take 4 m))) = map (\<lambda>i. take 4 m ! (3 - i)) [0..<4]"
    using m by (intro store_permuted swap32_bytes) (simp | (drule less_4_cases; elim disjE; simp))+
  then show "store big 4 (swap32 (load big (take 4 m))) = rev (take 4 m)"
    unfolding t by (simp add: upt_bytes)
next
  assume m: "2 \<le> length m"
  then obtain a b r where t: "m = a # b # r"
    by (cases m rule: remdups_adj.cases) auto
  have "store big 2 (swap16 (load big (take 2 m))) = map (\<lambda>i. take 2 m ! (Suc 0 - i)) [0..<2]"
    using m by (intro store_permuted swap16_bytes) auto
  then show "store big 2 (swap16 (load big (take 2 m))) = rev (take 2 m)"
    unfolding t by (simp add: upt_bytes)
qed

text \<open>The loops reverse every element, whatever the alignment and the byte order.\<close>

lemma rev_elems_step:
  "k * c \<le> length m \<Longrightarrow> c \<le> n \<Longrightarrow>
    rev_elems k n m = rev_elems k c (take (k * c) m) @ rev_elems k (n - c) (drop (k * c) m)"
  using rev_elems_add [of k c m "n - c"] by simp

lemma rev_elems_first: "k \<le> length m \<Longrightarrow> 0 < n \<Longrightarrow> rev_elems k n m = rev (take k m) @ rev_elems k (n - 1) (drop k m)"
  by (cases n) simp_all

lemma sam_bswap2_rev: "2 * n \<le> length m \<Longrightarrow> sam_bswap2 big a n m = rev_elems 2 n m"
proof (induction big a n m rule: sam_bswap2.induct)
  case (1 big a n m)
  consider "n = 0" | "4 \<le> n \<and> a mod 8 = 0" | "\<not> (4 \<le> n \<and> a mod 8 = 0)" "2 \<le> n \<and> a mod 4 = 0"
    | "n \<noteq> 0" "\<not> (4 \<le> n \<and> a mod 8 = 0)" "\<not> (2 \<le> n \<and> a mod 4 = 0)"
    by blast
  then show ?case
  proof cases
    case 1
    then show ?thesis
      by (subst sam_bswap2.simps) simp
  next
    case 2
    then have "sam_bswap2 big (a + 8) (n - 4) (drop 8 m) = rev_elems 2 (n - 4) (drop 8 m)"
      using "1.IH"(1) "1.prems" by simp
    then show ?thesis
      using 2 "1.prems" rev_elems_step [of 2 4 m n] store_swapped(1) [of m]
      by (subst sam_bswap2.simps) (simp del: rev_elems_numeral)
  next
    case 3
    then have "sam_bswap2 big (a + 4) (n - 2) (drop 4 m) = rev_elems 2 (n - 2) (drop 4 m)"
      using "1.IH"(2) "1.prems" by simp
    then show ?thesis
      using 3 "1.prems" rev_elems_step [of 2 2 m n] store_swapped(4) [of m]
      by (subst sam_bswap2.simps) (auto simp del: rev_elems_numeral)
  next
    case 4
    then have "sam_bswap2 big (a + 2) (n - 1) (drop 2 m) = rev_elems 2 (n - 1) (drop 2 m)"
      using "1.IH"(3) "1.prems" by simp
    then show ?thesis
      using 4 "1.prems" rev_elems_first [of 2 m n] store_swapped(6) [of m]
      by (subst sam_bswap2.simps) auto
  qed
qed

lemma sam_bswap4_rev: "4 * n \<le> length m \<Longrightarrow> sam_bswap4 big a n m = rev_elems 4 n m"
proof (induction big a n m rule: sam_bswap4.induct)
  case (1 big a n m)
  consider "n = 0" | "2 \<le> n \<and> a mod 8 = 0" | "n \<noteq> 0" "\<not> (2 \<le> n \<and> a mod 8 = 0)"
    by blast
  then show ?case
  proof cases
    case 1
    then show ?thesis
      by (subst sam_bswap4.simps) simp
  next
    case 2
    then have "sam_bswap4 big (a + 8) (n - 2) (drop 8 m) = rev_elems 4 (n - 2) (drop 8 m)"
      using "1.IH"(1) "1.prems" by simp
    then show ?thesis
      using 2 "1.prems" rev_elems_step [of 4 2 m n] store_swapped(2) [of m]
      by (subst sam_bswap4.simps) (simp del: rev_elems_numeral)
  next
    case 3
    then have "sam_bswap4 big (a + 4) (n - 1) (drop 4 m) = rev_elems 4 (n - 1) (drop 4 m)"
      using "1.IH"(2) "1.prems" by simp
    then show ?thesis
      using 3 "1.prems" rev_elems_first [of 4 m n] store_swapped(5) [of m]
      by (subst sam_bswap4.simps) auto
  qed
qed

lemma sam_bswap8_rev: "8 * n \<le> length m \<Longrightarrow> sam_bswap8 big n m = rev_elems 8 n m"
proof (induction n arbitrary: m)
  case (Suc n)
  then show ?case
    using store_swapped(3) [of m] by (subst sam_bswap8.simps) simp
qed (simp add: sam_bswap8.simps)

section \<open>Lemmas: tables\<close>

text \<open>
  The tables \<open>sam_byte_swap\<close> expects: elements of 1, 2, 4 or 8 bytes, naturally aligned, in
  the order of their offsets, and a terminator at the end of the structure.
\<close>

fun table_ok :: "nat \<Rightarrow> swap_descriptor list \<Rightarrow> bool" where
  "table_ok lo [] = False"
| "table_ok lo (d # ds) =
     (lo \<le> d_offset d \<and>
      (d_elsize d \<noteq> 0 \<longrightarrow> d_elsize d \<in> {1, 2, 4, 8} \<and> d_offset d mod d_elsize d = 0 \<and>
         0 < d_count d \<and> table_ok (d_offset d + d_count d * d_elsize d) ds))"

fun table_size :: "swap_descriptor list \<Rightarrow> nat" where
  "table_size [] = 0"
| "table_size (d # ds) = (if d_elsize d = 0 then d_offset d else table_size ds)"

fun table_entries :: "swap_descriptor list \<Rightarrow> swap_descriptor list" where
  "table_entries [] = []"
| "table_entries (d # ds) = (if d_elsize d = 0 then [] else d # table_entries ds)"

definition covers :: "swap_descriptor \<Rightarrow> nat \<Rightarrow> bool" where
  "covers d i \<longleftrightarrow> d_offset d \<le> i \<and> i < d_offset d + d_count d * d_elsize d"

text \<open>The index a swapped byte comes from.\<close>

definition elem_index :: "swap_descriptor \<Rightarrow> nat \<Rightarrow> nat" where
  "elem_index d i =
     (if covers d i
      then (let j = i - d_offset d; k = d_elsize d in d_offset d + j div k * k + (k - 1 - j mod k))
      else i)"

fun table_index :: "swap_descriptor list \<Rightarrow> nat \<Rightarrow> nat" where
  "table_index [] i = i"
| "table_index (d # ds) i = (if covers d i then elem_index d i else table_index ds i)"

lemma nth_rev_elems:
  "0 < k \<Longrightarrow> k * n \<le> length m \<Longrightarrow> i < length m \<Longrightarrow>
    rev_elems k n m ! i = m ! (if i < k * n then i div k * k + (k - 1 - i mod k) else i)"
proof (induction k n m arbitrary: i rule: rev_elems.induct)
  case (2 k n m)
  show ?case
  proof (cases "i < k")
    case True
    then show ?thesis
      using "2.prems" by (simp add: nth_append rev_nth)
  next
    case False
    define j where "j = i - k"
    have i: "i = k + j"
      using False by (simp add: j_def)
    have "rev_elems k (Suc n) m ! i = rev_elems k n (drop k m) ! j"
      using "2.prems" by (simp add: nth_append i min_def)
    also have "\<dots> = drop k m ! (if j < k * n then j div k * k + (k - 1 - j mod k) else j)"
      using "2.prems" by (intro "2.IH") (simp_all add: i)
    also have "(k + j) div k = Suc (j div k)"
      using "2.prems"(1) div_add_self1 [of k j] by simp
    then have "drop k m ! (if j < k * n then j div k * k + (k - 1 - j mod k) else j) =
        m ! (if i < k * Suc n then i div k * k + (k - 1 - i mod k) else i)"
      using "2.prems" by (simp add: i add.assoc)
    finally show ?thesis .
  qed
qed simp

text \<open>An index stays inside its element.\<close>

lemma elem_index_covers: "covers d i \<Longrightarrow> covers d (elem_index d i)"
  and elem_index_twice: "elem_index d (elem_index d i) = i"
proof -
  let ?k = "d_elsize d" and ?j = "i - d_offset d"
  let ?q = "?j div ?k"
  have e: "elem_index d i = d_offset d + (?q * ?k + (?k - 1 - ?j mod ?k))" if "covers d i"
    using that by (simp add: elem_index_def Let_def)
  have k: "0 < ?k" "?j < d_count d * ?k" "d_offset d \<le> i" if "covers d i"
    using that by (auto simp: covers_def intro: gr0I)
  have q: "?q * ?k + (?k - 1 - ?j mod ?k) < d_count d * ?k" if "covers d i"
  proof -
    have "?q < d_count d"
      using k [OF that] by (simp add: less_mult_imp_div_less)
    then have "?q * ?k + ?k \<le> d_count d * ?k"
      using mult_le_mono1 [of "Suc ?q" "d_count d" ?k] by simp
    then show ?thesis
      using k(1) [OF that] by linarith
  qed
  then show c: "covers d (elem_index d i)" if "covers d i"
    using that e by (simp add: covers_def)
  show "elem_index d (elem_index d i) = i"
  proof (cases "covers d i")
    case True
    let ?r = "?q * ?k + (?k - 1 - ?j mod ?k)"
    have "?r div ?k = ?q" "?r mod ?k = ?k - 1 - ?j mod ?k"
      using k(1) [OF True] by simp_all
    then have "elem_index d (d_offset d + ?r) = d_offset d + (?q * ?k + (?k - 1 - (?k - 1 - ?j mod ?k)))"
      using c [OF True] e [OF True] by (simp add: elem_index_def Let_def)
    also have "?k - 1 - (?k - 1 - ?j mod ?k) = ?j mod ?k"
      using mod_less_divisor [OF k(1) [OF True], of ?j] by linarith
    finally show ?thesis
      using k(3) [OF True] e [OF True] by simp
  qed (simp add: elem_index_def)
qed

lemma swap_elements_ok:
  assumes "d_elsize d \<in> {1, 2, 4, 8}" "d_offset d + d_count d * d_elsize d \<le> length m"
  shows "\<exists>m'. swap_elements big a d m = Some m' \<and> length m' = length m \<and>
    (\<forall>i<length m. m' ! i = m ! elem_index d i)"
proof -
  let ?o = "d_offset d" and ?k = "d_elsize d" and ?n = "d_count d"
  let ?m = "take ?o m @ rev_elems ?k ?n (drop ?o m)"
  have k: "0 < ?k" and len: "?k * ?n \<le> length (drop ?o m)"
    using assms by (auto simp: mult.commute)
  have "rev_elems 1 n xs = xs" for n and xs :: "u8 list"
  proof (induction n arbitrary: xs)
    case (Suc n)
    then show ?case
      by (cases xs) simp_all
  qed simp
  then have "swap_elements big a d m = Some ?m"
    using assms len sam_bswap2_rev [of ?n "drop ?o m"] sam_bswap4_rev [of ?n "drop ?o m"]
      sam_bswap8_rev [of ?n "drop ?o m"]
    by (auto simp: swap_elements_def Let_def)
  moreover have "?m ! i = m ! elem_index d i" if "i < length m" for i
  proof (cases "i < ?o")
    case True
    then show ?thesis
      using that by (simp add: nth_append elem_index_def covers_def)
  next
    case False
    have "i < ?o + ?n * ?k \<Longrightarrow> (i - ?o) div ?k * ?k + (?k - 1 - (i - ?o) mod ?k) \<le> length m - ?o"
      using elem_index_covers [of d i] False len that
      by (simp add: elem_index_def covers_def Let_def mult.commute)
    then show ?thesis
      using False that assms nth_rev_elems [OF k len, of "i - ?o"]
      by (auto simp: nth_append elem_index_def covers_def Let_def min_def mult.commute add.assoc)
  qed
  ultimately show ?thesis
    using assms(2) by (intro exI [of _ ?m]) simp
qed

lemma table_ok_size: "table_ok lo ds \<Longrightarrow> lo \<le> table_size ds"
  by (induction lo ds rule: table_ok.induct) auto

lemma table_ok_entry:
  "table_ok lo ds \<Longrightarrow> d \<in> set (table_entries ds) \<Longrightarrow>
    lo \<le> d_offset d \<and> d_offset d + d_count d * d_elsize d \<le> table_size ds \<and> d_elsize d \<in> {1, 2, 4, 8}"
proof (induction lo ds rule: table_ok.induct)
  case (2 lo e ds)
  then show ?case
    using table_ok_size [of "d_offset e + d_count e * d_elsize e" ds]
    by (cases "d_elsize e = 0"; cases "d = e") auto
qed simp

text \<open>The bytes behind a point that the rest of a table covers come from behind it as well.\<close>

lemma table_index_behind:
  "table_ok lo ds \<Longrightarrow> i < lo \<Longrightarrow> table_index (table_entries ds) i = i"
  "table_ok lo ds \<Longrightarrow> lo \<le> i \<Longrightarrow> lo \<le> table_index (table_entries ds) i"
  "table_ok lo ds \<Longrightarrow> i < table_size ds \<Longrightarrow> table_index (table_entries ds) i < table_size ds"
  "table_ok lo ds \<Longrightarrow> table_index (table_entries ds) (table_index (table_entries ds) i) = i"
proof (induction lo ds rule: table_ok.induct)
  case (2 lo d ds)
  let ?hi = "d_offset d + d_count d * d_elsize d" and ?t = "table_index (table_entries ds)"
  {
    case 1
    then show ?case
      using "2.IH"(1) by (auto simp: covers_def)
  next
    case 2
    then show ?case
      using "2.IH"(1,2) elem_index_covers [of d i] by (cases "i < ?hi") (auto simp: covers_def not_less)
  next
    case 3
    then show ?case
      using "2.IH"(3) elem_index_covers [of d i] table_ok_size [of ?hi ds] by (auto simp: covers_def)
  next
    case 4
    then show ?case
      using "2.IH" elem_index_covers [of d i] elem_index_twice [of d i] by (auto simp: covers_def)
  }
qed simp_all

lemma table_index_outside: "table_ok lo ds \<Longrightarrow> table_size ds \<le> i \<Longrightarrow> table_index (table_entries ds) i = i"
proof (induction lo ds rule: table_ok.induct)
  case (2 lo d ds)
  then show ?case
    using table_ok_size [of "d_offset d + d_count d * d_elsize d" ds] by (auto simp: covers_def)
qed simp

text \<open>Both byte orders: a swapped element has the value the other machine has stored.\<close>

lemma load_rev: "load big (rev bs) = load (\<not> big) bs"
  by (simp add: load_def)

lemma sam_byte_swap_index:
  "table_ok lo ds \<Longrightarrow> table_size ds \<le> len \<Longrightarrow> len \<le> length m \<Longrightarrow>
    \<exists>m'. sam_byte_swap big a ds len m = (0, m') \<and> length m' = length m \<and>
      (\<forall>i<length m. m' ! i = m ! table_index (table_entries ds) i)"
proof (induction lo ds arbitrary: m rule: table_ok.induct)
  case (2 lo d ds)
  let ?hi = "d_offset d + d_count d * d_elsize d"
  show ?case
  proof (cases "d_elsize d = 0")
    case False
    then have ok: "table_ok ?hi ds" "table_size ds \<le> len" "d_elsize d \<in> {1, 2, 4, 8}"
      using "2.prems" by auto
    then have hi: "?hi \<le> len"
      using table_ok_size [OF ok(1)] by simp
    obtain m1 where m1: "swap_elements big a d m = Some m1" "length m1 = length m"
      "\<And>i. i < length m \<Longrightarrow> m1 ! i = m ! elem_index d i"
      using swap_elements_ok [OF ok(3), of m big a] hi "2.prems"(3) by auto
    obtain m' where m': "sam_byte_swap big a ds len m1 = (0, m')" "length m' = length m1"
      "\<And>i. i < length m1 \<Longrightarrow> m' ! i = m1 ! table_index (table_entries ds) i"
      using "2.IH" [of m1] ok False m1(2) "2.prems"(1,3) by auto
    have "m' ! i = m ! table_index (table_entries (d # ds)) i" if i: "i < length m" for i
    proof -
      let ?j = "table_index (table_entries ds) i"
      have j: "?j < length m"
        using table_index_behind(3) [OF ok(1), of i] ok(2) "2.prems"(3) i
          table_index_outside [OF ok(1), of i] by (cases "i < table_size ds") auto
      have "elem_index d ?j = (if covers d i then elem_index d i else ?j)"
        using table_index_behind(1,2) [OF ok(1), of i] by (auto simp: covers_def elem_index_def not_less)
      then show ?thesis
        using m1(3) [OF j] m'(3) [of i] m1(2) i False by auto
    qed
    then show ?thesis
      using m'(1,2) m1(1,2) hi False by simp
  qed simp
qed simp

lemma table_index_entry:
  "table_ok lo ds \<Longrightarrow> d \<in> set (table_entries ds) \<Longrightarrow> covers d i \<Longrightarrow>
    table_index (table_entries ds) i = elem_index d i"
proof (induction lo ds rule: table_ok.induct)
  case (2 lo e ds)
  show ?case
  proof (cases "d = e \<or> d_elsize e = 0")
    case False
    then have d: "d \<in> set (table_entries ds)" and ok: "table_ok (d_offset e + d_count e * d_elsize e) ds"
      using "2.prems" by (auto split: if_splits)
    then have "\<not> covers e i"
      using table_ok_entry [OF ok d] "2.prems"(3) by (auto simp: covers_def)
    then show ?thesis
      using "2.IH" "2.prems" False d by simp
  qed (use "2.prems" in auto)
qed simp

lemma table_index_uncovered: "\<forall>d \<in> set ds. \<not> covers d i \<Longrightarrow> table_index ds i = i"
  by (induction ds) auto

text \<open>Element number k of an entry.\<close>

definition element :: "swap_descriptor \<Rightarrow> nat \<Rightarrow> u8 list \<Rightarrow> u8 list" where
  "element d k m = take (d_elsize d) (drop (d_offset d + k * d_elsize d) m)"

lemma element_swapped:
  assumes k: "k < d_count d" and len: "d_offset d + d_count d * d_elsize d \<le> length m" "length m' = length m"
    and idx: "\<And>i. covers d i \<Longrightarrow> m' ! i = m ! elem_index d i"
  shows "element d k m' = rev (element d k m)"
proof (rule nth_equalityI)
  let ?s = "d_elsize d" and ?b = "d_offset d + k * d_elsize d"
  have bs: "?b + ?s \<le> d_offset d + d_count d * ?s"
    using mult_le_mono1 [of "Suc k" "d_count d" ?s] k by simp
  then show "length (element d k m') = length (rev (element d k m))"
    using len by (simp add: element_def)
  fix r
  assume "r < length (element d k m')"
  then have r: "r < ?s"
    by (simp add: element_def)
  have "covers d (?b + r)"
    using r bs by (simp add: covers_def)
  moreover from this have "elem_index d (?b + r) = ?b + (?s - 1 - r)"
    using r by (simp add: elem_index_def Let_def)
  ultimately have "m' ! (?b + r) = m ! (?b + (?s - 1 - r))"
    using idx by simp
  then show "element d k m' ! r = rev (element d k m) ! r"
    using r bs len by (simp add: element_def rev_nth)
qed

lemma byte_swap_ok:
  assumes ok: "table_ok lo ds" and len: "table_size ds \<le> len" "len \<le> length m"
  shows "\<exists>m'. (\<forall>big a. sam_byte_swap big a ds len m = (0, m')) \<and> length m' = length m \<and>
    (\<forall>d \<in> set (table_entries ds). \<forall>k < d_count d. element d k m' = rev (element d k m) \<and>
      (\<forall>big. (load big (element d k m') :: u64) = load (\<not> big) (element d k m))) \<and>
    (\<forall>i < length m. (\<forall>d \<in> set (table_entries ds). \<not> covers d i) \<longrightarrow> m' ! i = m ! i) \<and>
    (\<forall>big a. sam_byte_swap big a ds len m' = (0, m))"
proof -
  let ?t = "table_index (table_entries ds)"
  define m' where "m' = map (\<lambda>i. m ! ?t i) [0..<length m]"
  have bound: "?t i < length m" if "i < length m" for i
    using that table_index_behind(3) [OF ok, of i] table_index_outside [OF ok, of i] len
    by (cases "i < table_size ds") auto
  have m': "length m' = length m" "m' ! i = m ! ?t i" if "i < length m" for i
    using that by (simp_all add: m'_def)
  have l': "length m' = length m"
    by (simp add: m'_def)
  have all: "sam_byte_swap big a ds len x = (0, map (\<lambda>i. x ! ?t i) [0..<length x])"
    if "len \<le> length x" for big a x
    using sam_byte_swap_index [OF ok len(1) that, of big a] by (auto intro!: nth_equalityI)
  have "map (\<lambda>i. m' ! ?t i) [0..<length m'] = m"
    using bound m' table_index_behind(4) [OF ok] l' by (intro nth_equalityI) simp_all
  then have again: "sam_byte_swap big a ds len m' = (0, m)" for big a
    using all [of m' big a] len l' by simp
  have "element d k m' = rev (element d k m)" if d: "d \<in> set (table_entries ds)" and k: "k < d_count d" for d k
  proof (rule element_swapped [OF k _ l'])
    show fits: "d_offset d + d_count d * d_elsize d \<le> length m"
      using table_ok_entry [OF ok d] len by linarith
    show "m' ! i = m ! elem_index d i" if "covers d i" for i
      using table_index_entry [OF ok d that] m'(2) [of i] that fits by (simp add: covers_def)
  qed
  then have elems: "\<forall>d \<in> set (table_entries ds). \<forall>k < d_count d. element d k m' = rev (element d k m) \<and>
      (\<forall>big. (load big (element d k m') :: u64) = load (\<not> big) (element d k m))"
    by (simp add: load_rev)
  have rest: "\<forall>i < length m. (\<forall>d \<in> set (table_entries ds). \<not> covers d i) \<longrightarrow> m' ! i = m ! i"
    using m'(2) table_index_uncovered by simp
  have first: "\<forall>big a. sam_byte_swap big a ds len m = (0, m')"
    using all [OF len(2)] unfolding m'_def by blast
  have second: "\<forall>big a. sam_byte_swap big a ds len m' = (0, m)"
    using again by blast
  show ?thesis
    by (rule exI [of _ m'], (rule conjI, rule first | rule conjI, rule l' | rule conjI, rule elems | rule conjI, rule rest)+,
        rule second)
qed

section \<open>Properties\<close>


text \<open>A structure with a 16-bit, a 32-bit and two 64-bit numbers.\<close>

definition sample_table :: "swap_descriptor list" where
  "sample_table = [\<lparr>d_offset = 0, d_elsize = 2, d_count = 3\<rparr>, \<lparr>d_offset = 8, d_elsize = 4, d_count = 3\<rparr>,
     \<lparr>d_offset = 24, d_elsize = 0, d_count = 0\<rparr>]"


end
