(* ===== verification/Byte_Swap_Tables.thy ===== *)
theory Byte_Swap_Tables
  imports Byte_Swap
begin

text \<open>
  The tables of src/src/fs/lib/bswap\_data.c, one for each structure that is exchanged between
  machines of different byte order: catalog entries, dump headers, the messages of the shared
  file system, inodes, superblocks, labels. A row is offset, element size and number of
  elements; the last one gives the size of the structure. The functions \<open>byte_swap_sb\<close>,
  \<open>byte_swap_hb\<close> and \<open>byte_swap_lb\<close> of src/src/fs/lib/bswap.c convert the blocks of a disk.
\<close>

section \<open>Tables\<close>

fun entry :: "nat \<times> nat \<times> nat \<Rightarrow> swap_descriptor" where
  "entry (ofs, elsize, cnt) = \<lparr>d_offset = ofs, d_elsize = elsize, d_count = cnt\<rparr>"

definition CatalogEntry_swap_descriptor :: "swap_descriptor list" where
  "CatalogEntry_swap_descriptor = map entry
     [(0, 4, 1), (44, 4, 1), (48, 2, 1), (52, 4, 1), (56, 8, 2), (72, 4, 4), (128, 8, 1),
      (136, 4, 1), (236, 2, 1), (240, 4, 1), (376, 0, 0)]"

definition CatalogReserve_swap_descriptor :: "swap_descriptor list" where
  "CatalogReserve_swap_descriptor = map entry
     [(0, 4, 1), (100, 0, 0)]"

definition MappedFile_swap_descriptor :: "swap_descriptor list" where
  "MappedFile_swap_descriptor = map entry
     [(0, 4, 3), (12, 0, 0)]"

definition csd_filehdr_swap_descriptor :: "swap_descriptor list" where
  "csd_filehdr_swap_descriptor = map entry
     [(0, 4, 3), (12, 0, 0)]"

definition csd_header_swap_descriptor :: "swap_descriptor list" where
  "csd_header_swap_descriptor = map entry
     [(0, 4, 3), (12, 0, 0)]"

definition csd_header_extended_swap_descriptor :: "swap_descriptor list" where
  "csd_header_extended_swap_descriptor = map entry
     [(0, 4, 4), (16, 8, 10), (96, 4, 1), (104, 0, 0)]"

definition csum_swap_descriptor :: "swap_descriptor list" where
  "csum_swap_descriptor = map entry
     [(0, 4, 4), (16, 0, 0)]"

definition rmt_sam_cnt_resp_swap_descriptor :: "swap_descriptor list" where
  "rmt_sam_cnt_resp_swap_descriptor = map entry
     [(32, 4, 1), (36, 2, 2), (40, 0, 0)]"

definition rmt_sam_connect_swap_descriptor :: "swap_descriptor list" where
  "rmt_sam_connect_swap_descriptor = map entry
     [(32, 0, 0)]"

definition rmt_sam_req_resp_swap_descriptor :: "swap_descriptor list" where
  "rmt_sam_req_resp_swap_descriptor = map entry
     [(0, 4, 3), (12, 0, 0)]"

definition rmt_sam_request_swap_descriptor :: "swap_descriptor list" where
  "rmt_sam_request_swap_descriptor = map entry
     [(0, 4, 2), (8, 8, 1), (16, 4, 1), (20, 2, 1), (424, 0, 0)]"

definition rmt_sam_update_vsn_swap_descriptor :: "swap_descriptor list" where
  "rmt_sam_update_vsn_swap_descriptor = map entry
     [(0, 4, 1), (8, 4, 1), (52, 4, 1), (56, 2, 1), (60, 4, 1), (64, 8, 2), (80, 4, 4),
      (136, 8, 1), (144, 4, 1), (244, 2, 1), (248, 4, 1), (384, 4, 1), (392, 0, 0)]"

definition rmt_sam_vsn_entry_swap_descriptor :: "swap_descriptor list" where
  "rmt_sam_vsn_entry_swap_descriptor = map entry
     [(0, 4, 1), (44, 4, 1), (48, 2, 1), (52, 4, 1), (56, 8, 2), (72, 4, 4), (128, 8, 1),
      (136, 4, 1), (236, 2, 1), (240, 4, 1), (376, 4, 1), (384, 0, 0)]"

definition sam_acl_swap_descriptor :: "swap_descriptor list" where
  "sam_acl_swap_descriptor = map entry
     [(0, 4, 2), (8, 2, 1), (12, 0, 0)]"

definition sam_acl_inode_swap_descriptor :: "swap_descriptor list" where
  "sam_acl_inode_swap_descriptor = map entry
     [(0, 4, 8), (32, 2, 1), (36, 4, 2), (44, 2, 1), (48, 4, 2), (56, 2, 1), (60, 4, 2),
      (68, 2, 1), (72, 4, 2), (80, 2, 1), (84, 4, 2), (92, 2, 1), (96, 4, 2), (104, 2, 1),
      (108, 4, 2), (116, 2, 1), (120, 4, 2), (128, 2, 1), (132, 4, 2), (140, 2, 1), (144, 4, 2),
      (152, 2, 1), (156, 4, 2), (164, 2, 1), (168, 4, 2), (176, 2, 1), (180, 4, 2), (188, 2, 1),
      (192, 4, 2), (200, 2, 1), (204, 4, 2), (212, 2, 1), (216, 4, 2), (224, 2, 1), (228, 4, 2),
      (236, 2, 1), (240, 4, 2), (248, 2, 1), (252, 4, 2), (260, 2, 1), (264, 4, 2), (272, 2, 1),
      (276, 4, 2), (284, 2, 1), (288, 4, 2), (296, 2, 1), (300, 4, 2), (308, 2, 1), (312, 4, 2),
      (320, 2, 1), (324, 4, 2), (332, 2, 1), (336, 4, 2), (344, 2, 1), (348, 4, 2), (356, 2, 1),
      (360, 4, 2), (368, 2, 1), (372, 4, 2), (380, 2, 1), (384, 4, 2), (392, 2, 1), (396, 4, 2),
      (404, 2, 1), (408, 4, 2), (416, 2, 1), (420, 4, 2), (428, 2, 1), (432, 4, 2), (440, 2, 1),
      (444, 4, 2), (452, 2, 1), (456, 4, 2), (464, 2, 1), (468, 4, 2), (476, 2, 1), (480, 0, 0)]"

definition sam_arch_inode_swap_descriptor :: "swap_descriptor list" where
  "sam_arch_inode_swap_descriptor = map entry
     [(2, 2, 1), (4, 4, 5), (58, 2, 1), (60, 4, 5), (114, 2, 1), (116, 4, 5), (170, 2, 1),
      (172, 4, 5), (224, 0, 0)]"

definition sam_arch_rminfo_swap_descriptor :: "swap_descriptor list" where
  "sam_arch_rminfo_swap_descriptor = map entry
     [(0, 8, 1), (8, 2, 2), (12, 4, 3), (24, 0, 0)]"

definition sam_archive_swap_descriptor :: "swap_descriptor list" where
  "sam_archive_swap_descriptor = map entry
     [(0, 8, 1), (8, 2, 2), (12, 4, 4), (28, 2, 1), (64, 4, 2), (104, 0, 0)]"

definition sam_archive_info_swap_descriptor :: "swap_descriptor list" where
  "sam_archive_info_swap_descriptor = map entry
     [(2, 2, 1), (4, 4, 5), (56, 0, 0)]"

definition sam_block_fgetbuf_swap_descriptor :: "swap_descriptor list" where
  "sam_block_fgetbuf_swap_descriptor = map entry
     [(0, 8, 2), (16, 4, 2), (24, 0, 0)]"

definition sam_block_getbuf_swap_descriptor :: "swap_descriptor list" where
  "sam_block_getbuf_swap_descriptor = map entry
     [(0, 4, 2), (8, 8, 2), (24, 0, 0)]"

definition sam_block_getino_swap_descriptor :: "swap_descriptor list" where
  "sam_block_getino_swap_descriptor = map entry
     [(0, 4, 2), (8, 8, 2), (24, 0, 0)]"

definition sam_block_quota_swap_descriptor :: "swap_descriptor list" where
  "sam_block_quota_swap_descriptor = map entry
     [(0, 4, 4), (16, 8, 1), (24, 0, 0)]"

definition sam_block_sblk_swap_descriptor :: "swap_descriptor list" where
  "sam_block_sblk_swap_descriptor = map entry
     [(0, 8, 2), (16, 0, 0)]"

definition sam_block_vfsstat_swap_descriptor :: "swap_descriptor list" where
  "sam_block_vfsstat_swap_descriptor = map entry
     [(0, 8, 12), (96, 0, 0)]"

definition sam_block_vfsstat_v2_swap_descriptor :: "swap_descriptor list" where
  "sam_block_vfsstat_v2_swap_descriptor = map entry
     [(0, 8, 4), (32, 2, 2), (36, 4, 1), (40, 8, 7), (96, 0, 0)]"

definition sam_callout_relinquish_lease_swap_descriptor :: "swap_descriptor list" where
  "sam_callout_relinquish_lease_swap_descriptor = map entry
     [(0, 2, 1), (4, 4, 1), (8, 0, 0)]"

definition sam_callout_stage_swap_descriptor :: "swap_descriptor list" where
  "sam_callout_stage_swap_descriptor = map entry
     [(4, 4, 2), (16, 0, 0)]"

definition sam_cl_attr_swap_descriptor :: "swap_descriptor list" where
  "sam_cl_attr_swap_descriptor = map entry
     [(0, 4, 1), (4, 2, 1), (8, 4, 1), (16, 8, 1), (24, 0, 0)]"

definition sam_cred_swap_descriptor :: "swap_descriptor list" where
  "sam_cred_swap_descriptor = map entry
     [(0, 4, 25), (104, 0, 0)]"

definition sam_di_osd_swap_descriptor :: "swap_descriptor list" where
  "sam_di_osd_swap_descriptor = map entry
     [(0, 4, 4), (16, 8, 8), (88, 0, 0)]"

definition sam_dirent_swap_descriptor :: "swap_descriptor list" where
  "sam_dirent_swap_descriptor = map entry
     [(0, 2, 2), (4, 4, 2), (12, 2, 2), (20, 0, 0)]"

definition sam_disk_inode_swap_descriptor :: "swap_descriptor list" where
  "sam_disk_inode_swap_descriptor = map entry
     [(0, 4, 6), (24, 8, 1), (32, 2, 2), (36, 4, 18), (118, 2, 4), (128, 4, 23), (240, 0, 0)]"

definition sam_disk_inode_part2_swap_descriptor :: "swap_descriptor list" where
  "sam_disk_inode_part2_swap_descriptor = map entry
     [(0, 4, 2), (16, 4, 1), (20, 2, 1), (24, 4, 2), (32, 0, 0)]"

definition sam_dquot_swap_descriptor :: "swap_descriptor list" where
  "sam_dquot_swap_descriptor = map entry
     [(0, 8, 12), (96, 4, 4), (112, 8, 2), (128, 0, 0)]"

definition sam_hlp_inode_swap_descriptor :: "swap_descriptor list" where
  "sam_hlp_inode_swap_descriptor = map entry
     [(0, 4, 120), (480, 0, 0)]"

definition sam_host_table_swap_descriptor :: "swap_descriptor list" where
  "sam_host_table_swap_descriptor = map entry
     [(0, 4, 5), (20, 2, 2), (24, 4, 1), (28, 2, 2), (36, 0, 0)]"

definition sam_id_swap_descriptor :: "swap_descriptor list" where
  "sam_id_swap_descriptor = map entry
     [(0, 4, 2), (8, 0, 0)]"

definition sam_indirect_extent_swap_descriptor :: "swap_descriptor list" where
  "sam_indirect_extent_swap_descriptor = map entry
     [(0, 4, 2048), (10240, 4, 4), (10256, 0, 0)]"

definition sam_ino_instance_swap_descriptor :: "swap_descriptor list" where
  "sam_ino_instance_swap_descriptor = map entry
     [(0, 8, 1), (8, 4, 2), (16, 0, 0)]"

definition sam_ino_record_swap_descriptor :: "swap_descriptor list" where
  "sam_ino_record_swap_descriptor = map entry
     [(0, 8, 1), (8, 4, 2), (16, 2, 2), (20, 4, 1), (24, 8, 4), (56, 4, 6), (80, 8, 1),
      (88, 2, 2), (92, 4, 18), (174, 2, 4), (184, 4, 23), (296, 4, 2), (312, 4, 1), (316, 2, 1),
      (320, 4, 2), (328, 0, 0)]"

definition sam_inode_ext_hdr_swap_descriptor :: "swap_descriptor list" where
  "sam_inode_ext_hdr_swap_descriptor = map entry
     [(0, 4, 8), (32, 0, 0)]"

definition sam_inode_quota_swap_descriptor :: "swap_descriptor list" where
  "sam_inode_quota_swap_descriptor = map entry
     [(0, 4, 4), (16, 8, 12), (112, 4, 4), (128, 8, 2), (144, 0, 0)]"

definition sam_inode_samaid_swap_descriptor :: "swap_descriptor list" where
  "sam_inode_samaid_swap_descriptor = map entry
     [(0, 4, 2), (8, 0, 0)]"

definition sam_inode_samarch_swap_descriptor :: "swap_descriptor list" where
  "sam_inode_samarch_swap_descriptor = map entry
     [(0, 4, 1), (4, 2, 2), (48, 0, 0)]"

definition sam_inode_samattr_swap_descriptor :: "swap_descriptor list" where
  "sam_inode_samattr_swap_descriptor = map entry
     [(0, 4, 1), (136, 0, 0)]"

definition sam_inode_setattr_swap_descriptor :: "swap_descriptor list" where
  "sam_inode_setattr_swap_descriptor = map entry
     [(0, 8, 5), (40, 4, 13), (96, 4, 1), (104, 0, 0)]"

definition sam_inode_stage_swap_descriptor :: "swap_descriptor list" where
  "sam_inode_stage_swap_descriptor = map entry
     [(8, 8, 1), (16, 0, 0)]"

definition sam_label_swap_descriptor :: "swap_descriptor list" where
  "sam_label_swap_descriptor = map entry
     [(4, 4, 6), (284, 0, 0)]"

definition sam_lease_data_swap_descriptor :: "swap_descriptor list" where
  "sam_lease_data_swap_descriptor = map entry
     [(0, 2, 1), (4, 4, 1), (8, 8, 5), (48, 2, 2), (52, 4, 1), (60, 4, 3), (72, 0, 0)]"

definition sam_mva_inode_swap_descriptor :: "swap_descriptor list" where
  "sam_mva_inode_swap_descriptor = map entry
     [(0, 4, 7), (64, 8, 3), (120, 8, 3), (176, 8, 3), (232, 8, 3), (288, 8, 3), (344, 8, 3),
      (400, 8, 3), (456, 8, 3), (480, 0, 0)]"

definition sam_name_acl_swap_descriptor :: "swap_descriptor list" where
  "sam_name_acl_swap_descriptor = map entry
     [(0, 4, 4), (16, 0, 0)]"

definition sam_name_create_swap_descriptor :: "swap_descriptor list" where
  "sam_name_create_swap_descriptor = map entry
     [(0, 8, 5), (40, 4, 13), (96, 4, 3), (112, 0, 0)]"

definition sam_name_link_swap_descriptor :: "swap_descriptor list" where
  "sam_name_link_swap_descriptor = map entry
     [(0, 4, 2), (8, 0, 0)]"

definition sam_name_lookup_swap_descriptor :: "swap_descriptor list" where
  "sam_name_lookup_swap_descriptor = map entry
     [(0, 4, 1), (16, 0, 0)]"

definition sam_name_mkdir_swap_descriptor :: "swap_descriptor list" where
  "sam_name_mkdir_swap_descriptor = map entry
     [(0, 8, 5), (40, 4, 13), (96, 0, 0)]"

definition sam_name_remove_swap_descriptor :: "swap_descriptor list" where
  "sam_name_remove_swap_descriptor = map entry
     [(0, 4, 2), (8, 0, 0)]"

definition sam_name_rename_swap_descriptor :: "swap_descriptor list" where
  "sam_name_rename_swap_descriptor = map entry
     [(0, 4, 8), (32, 0, 0)]"

definition sam_name_rmdir_swap_descriptor :: "swap_descriptor list" where
  "sam_name_rmdir_swap_descriptor = map entry
     [(0, 4, 2), (8, 0, 0)]"

definition sam_name_symlink_swap_descriptor :: "swap_descriptor list" where
  "sam_name_symlink_swap_descriptor = map entry
     [(0, 8, 5), (40, 4, 13), (96, 4, 2), (104, 0, 0)]"

definition sam_notify_dnlc_swap_descriptor :: "swap_descriptor list" where
  "sam_notify_dnlc_swap_descriptor = map entry
     [(256, 0, 0)]"

definition sam_notify_lease_swap_descriptor :: "swap_descriptor list" where
  "sam_notify_lease_swap_descriptor = map entry
     [(0, 4, 1), (8, 0, 0)]"

definition sam_old_arch_rminfo_swap_descriptor :: "swap_descriptor list" where
  "sam_old_arch_rminfo_swap_descriptor = map entry
     [(0, 8, 1), (8, 2, 2), (12, 4, 3), (24, 0, 0)]"

definition sam_old_archive_swap_descriptor :: "swap_descriptor list" where
  "sam_old_archive_swap_descriptor = map entry
     [(0, 8, 1), (8, 2, 2), (12, 4, 4), (28, 2, 1), (64, 4, 2), (104, 0, 0)]"

definition sam_old_resource_swap_descriptor :: "swap_descriptor list" where
  "sam_old_resource_swap_descriptor = map entry
     [(0, 2, 1), (8, 8, 1), (16, 2, 2), (20, 4, 4), (36, 2, 1), (72, 4, 2), (176, 4, 1),
      (408, 0, 0)]"

definition sam_old_resource_file_swap_descriptor :: "swap_descriptor list" where
  "sam_old_resource_file_swap_descriptor = map entry
     [(0, 2, 1), (8, 8, 1), (16, 2, 2), (20, 4, 4), (36, 2, 1), (72, 4, 2), (176, 4, 1),
      (408, 4, 2), (448, 0, 0)]"

definition sam_old_rminfo_swap_descriptor :: "swap_descriptor list" where
  "sam_old_rminfo_swap_descriptor = map entry
     [(0, 2, 1), (8, 4, 2), (16, 8, 2), (64, 4, 1), (292, 2, 2), (328, 8, 3), (384, 8, 3),
      (440, 8, 3), (496, 8, 3), (552, 8, 3), (608, 8, 3), (664, 8, 3), (720, 8, 3), (744, 0, 0)]"

definition sam_old_section_swap_descriptor :: "swap_descriptor list" where
  "sam_old_section_swap_descriptor = map entry
     [(32, 8, 3), (56, 0, 0)]"

definition sam_osd_ext_inode_swap_descriptor :: "swap_descriptor list" where
  "sam_osd_ext_inode_swap_descriptor = map entry
     [(0, 8, 48), (384, 2, 48), (480, 0, 0)]"

definition sam_perm_inode_swap_descriptor :: "swap_descriptor list" where
  "sam_perm_inode_swap_descriptor = map entry
     [(0, 4, 6), (24, 8, 1), (32, 2, 2), (36, 4, 18), (118, 2, 4), (128, 4, 23), (240, 4, 4),
      (258, 2, 1), (260, 4, 5), (314, 2, 1), (316, 4, 5), (370, 2, 1), (372, 4, 5), (426, 2, 1),
      (428, 4, 5), (480, 4, 2), (496, 4, 1), (500, 2, 1), (504, 4, 2), (512, 0, 0)]"

definition sam_perm_inode_v1_swap_descriptor :: "swap_descriptor list" where
  "sam_perm_inode_v1_swap_descriptor = map entry
     [(0, 4, 6), (24, 8, 1), (32, 2, 2), (36, 4, 18), (118, 2, 4), (128, 4, 23), (240, 4, 4),
      (258, 2, 1), (260, 4, 5), (314, 2, 1), (316, 4, 5), (370, 2, 1), (372, 4, 5), (426, 2, 1),
      (428, 4, 5), (480, 4, 8), (512, 0, 0)]"

definition sam_quota_group_swap_descriptor :: "swap_descriptor list" where
  "sam_quota_group_swap_descriptor = map entry
     [(0, 8, 3), (24, 0, 0)]"

definition sam_quota_group_pair_swap_descriptor :: "swap_descriptor list" where
  "sam_quota_group_pair_swap_descriptor = map entry
     [(0, 8, 6), (48, 0, 0)]"

definition sam_resource_swap_descriptor :: "swap_descriptor list" where
  "sam_resource_swap_descriptor = map entry
     [(0, 2, 1), (8, 8, 1), (16, 2, 2), (20, 4, 4), (36, 2, 1), (72, 4, 2), (176, 4, 1),
      (408, 0, 0)]"

definition sam_resource_file_swap_descriptor :: "swap_descriptor list" where
  "sam_resource_file_swap_descriptor = map entry
     [(0, 2, 1), (8, 8, 1), (16, 2, 2), (20, 4, 4), (36, 2, 1), (72, 4, 2), (176, 4, 1),
      (408, 4, 2), (448, 8, 3), (472, 0, 0)]"

definition sam_rfa_inode_swap_descriptor :: "swap_descriptor list" where
  "sam_rfa_inode_swap_descriptor = map entry
     [(0, 4, 2), (8, 2, 1), (16, 8, 1), (24, 2, 2), (28, 4, 4), (44, 2, 1), (80, 4, 2),
      (184, 4, 1), (416, 4, 2), (456, 8, 3), (480, 0, 0)]"

definition sam_rm_swap_descriptor :: "swap_descriptor list" where
  "sam_rm_swap_descriptor = map entry
     [(0, 8, 1), (8, 2, 2), (12, 4, 3), (24, 0, 0)]"

definition sam_san_block_swap_descriptor :: "swap_descriptor list" where
  "sam_san_block_swap_descriptor = map entry
     [(0, 4, 2), (112, 0, 0)]"

definition sam_san_callout_swap_descriptor :: "swap_descriptor list" where
  "sam_san_callout_swap_descriptor = map entry
     [(0, 4, 2), (24, 8, 1), (32, 4, 2), (40, 2, 2), (44, 4, 1), (48, 8, 4), (80, 4, 6),
      (104, 8, 1), (112, 2, 2), (116, 4, 18), (198, 2, 4), (208, 4, 23), (320, 4, 2),
      (336, 4, 1), (340, 2, 1), (344, 4, 2), (352, 0, 0)]"

definition sam_san_header_swap_descriptor :: "swap_descriptor list" where
  "sam_san_header_swap_descriptor = map entry
     [(0, 8, 1), (8, 2, 1), (12, 2, 4), (20, 4, 8), (56, 0, 0)]"

definition sam_san_inode_swap_descriptor :: "swap_descriptor list" where
  "sam_san_inode_swap_descriptor = map entry
     [(0, 4, 3), (12, 2, 1), (16, 4, 1), (24, 8, 1), (176, 4, 25), (280, 0, 0)]"

definition sam_san_inode2_swap_descriptor :: "swap_descriptor list" where
  "sam_san_inode2_swap_descriptor = map entry
     [(0, 4, 3), (12, 2, 1), (16, 4, 1), (24, 8, 1), (176, 4, 25), (280, 8, 1), (288, 4, 2),
      (296, 2, 2), (300, 4, 1), (304, 8, 4), (336, 4, 6), (360, 8, 1), (368, 2, 2), (372, 4, 18),
      (454, 2, 4), (464, 4, 23), (576, 4, 2), (592, 4, 1), (596, 2, 1), (600, 4, 2), (608, 0, 0)]"

definition sam_san_lease_swap_descriptor :: "swap_descriptor list" where
  "sam_san_lease_swap_descriptor = map entry
     [(0, 4, 3), (12, 2, 1), (16, 4, 1), (24, 8, 1), (32, 2, 1), (36, 4, 1), (40, 8, 5),
      (80, 2, 2), (84, 4, 1), (92, 4, 3), (104, 2, 2), (112, 8, 2), (128, 4, 27), (240, 4, 10),
      (280, 0, 0)]"

definition sam_san_lease2_swap_descriptor :: "swap_descriptor list" where
  "sam_san_lease2_swap_descriptor = map entry
     [(0, 4, 3), (12, 2, 1), (16, 4, 1), (24, 8, 1), (32, 2, 1), (36, 4, 1), (40, 8, 5),
      (80, 2, 2), (84, 4, 1), (92, 4, 3), (104, 2, 2), (112, 8, 2), (128, 4, 27), (240, 4, 10),
      (280, 2, 1), (288, 8, 1), (296, 4, 2), (304, 2, 2), (308, 4, 1), (312, 8, 4), (344, 4, 6),
      (368, 8, 1), (376, 2, 2), (380, 4, 18), (462, 2, 4), (472, 4, 23), (584, 4, 2),
      (600, 4, 1), (604, 2, 1), (608, 4, 2), (616, 0, 0)]"

definition sam_san_mount_swap_descriptor :: "swap_descriptor list" where
  "sam_san_mount_swap_descriptor = map entry
     [(0, 4, 2), (168, 4, 4), (188, 0, 0)]"

definition sam_san_name_swap_descriptor :: "swap_descriptor list" where
  "sam_san_name_swap_descriptor = map entry
     [(0, 4, 2), (120, 4, 25), (232, 0, 0)]"

definition sam_san_name2_swap_descriptor :: "swap_descriptor list" where
  "sam_san_name2_swap_descriptor = map entry
     [(0, 4, 4), (16, 8, 1), (24, 4, 2), (32, 2, 2), (36, 4, 1), (40, 8, 4), (72, 4, 6),
      (96, 8, 1), (104, 2, 2), (108, 4, 18), (190, 2, 4), (200, 4, 23), (312, 4, 2), (328, 4, 1),
      (332, 2, 1), (336, 4, 2), (344, 8, 1), (352, 4, 2), (360, 2, 2), (364, 4, 1), (368, 8, 4),
      (400, 4, 6), (424, 8, 1), (432, 2, 2), (436, 4, 18), (518, 2, 4), (528, 4, 23),
      (640, 4, 2), (656, 4, 1), (660, 2, 1), (664, 4, 2), (792, 0, 0)]"

definition sam_san_notify_swap_descriptor :: "swap_descriptor list" where
  "sam_san_notify_swap_descriptor = map entry
     [(0, 4, 2), (264, 0, 0)]"

definition sam_sbinfo_swap_descriptor :: "swap_descriptor list" where
  "sam_sbinfo_swap_descriptor = map entry
     [(4, 4, 3), (48, 4, 2), (56, 8, 5), (96, 2, 2), (100, 4, 1), (104, 2, 4), (112, 8, 2),
      (128, 2, 4), (136, 8, 1), (144, 4, 2), (152, 2, 2), (156, 4, 2), (164, 2, 2), (168, 4, 1),
      (172, 2, 2), (176, 8, 1), (184, 4, 1), (188, 2, 1), (192, 4, 1), (256, 0, 0)]"

definition sam_sbord_swap_descriptor :: "swap_descriptor list" where
  "sam_sbord_swap_descriptor = map entry
     [(0, 2, 2), (6, 2, 1), (8, 8, 3), (32, 4, 2), (40, 8, 2), (56, 4, 1), (60, 2, 2), (64, 0, 0)]"

definition sam_share_flock_swap_descriptor :: "swap_descriptor list" where
  "sam_share_flock_swap_descriptor = map entry
     [(0, 2, 2), (8, 8, 2), (24, 4, 2), (32, 0, 0)]"

definition sam_sln_inode_swap_descriptor :: "swap_descriptor list" where
  "sam_sln_inode_swap_descriptor = map entry
     [(0, 4, 4), (480, 0, 0)]"

definition sam_sr_attr_swap_descriptor :: "swap_descriptor list" where
  "sam_sr_attr_swap_descriptor = map entry
     [(0, 2, 2), (4, 4, 1), (8, 8, 4), (40, 0, 0)]"

definition sam_timestruc_swap_descriptor :: "swap_descriptor list" where
  "sam_timestruc_swap_descriptor = map entry
     [(0, 4, 2), (8, 0, 0)]"

definition sam_vattr_swap_descriptor :: "swap_descriptor list" where
  "sam_vattr_swap_descriptor = map entry
     [(0, 8, 5), (40, 4, 13), (96, 0, 0)]"

definition sam_vsn_array_swap_descriptor :: "swap_descriptor list" where
  "sam_vsn_array_swap_descriptor = map entry
     [(32, 8, 3), (88, 8, 3), (144, 8, 3), (200, 8, 3), (256, 8, 3), (312, 8, 3), (368, 8, 3),
      (424, 8, 3), (448, 0, 0)]"

definition sam_vsn_section_swap_descriptor :: "swap_descriptor list" where
  "sam_vsn_section_swap_descriptor = map entry
     [(32, 8, 3), (56, 0, 0)]"

text \<open>All of them.\<close>

definition swap_descriptors :: "swap_descriptor list list" where
  "swap_descriptors =
     [CatalogEntry_swap_descriptor, CatalogReserve_swap_descriptor,
     MappedFile_swap_descriptor, csd_filehdr_swap_descriptor, csd_header_swap_descriptor,
     csd_header_extended_swap_descriptor, csum_swap_descriptor,
     rmt_sam_cnt_resp_swap_descriptor, rmt_sam_connect_swap_descriptor,
     rmt_sam_req_resp_swap_descriptor, rmt_sam_request_swap_descriptor,
     rmt_sam_update_vsn_swap_descriptor, rmt_sam_vsn_entry_swap_descriptor,
     sam_acl_swap_descriptor, sam_acl_inode_swap_descriptor, sam_arch_inode_swap_descriptor,
     sam_arch_rminfo_swap_descriptor, sam_archive_swap_descriptor,
     sam_archive_info_swap_descriptor, sam_block_fgetbuf_swap_descriptor,
     sam_block_getbuf_swap_descriptor, sam_block_getino_swap_descriptor,
     sam_block_quota_swap_descriptor, sam_block_sblk_swap_descriptor,
     sam_block_vfsstat_swap_descriptor, sam_block_vfsstat_v2_swap_descriptor,
     sam_callout_relinquish_lease_swap_descriptor, sam_callout_stage_swap_descriptor,
     sam_cl_attr_swap_descriptor, sam_cred_swap_descriptor, sam_di_osd_swap_descriptor,
     sam_dirent_swap_descriptor, sam_disk_inode_swap_descriptor,
     sam_disk_inode_part2_swap_descriptor, sam_dquot_swap_descriptor,
     sam_hlp_inode_swap_descriptor, sam_host_table_swap_descriptor, sam_id_swap_descriptor,
     sam_indirect_extent_swap_descriptor, sam_ino_instance_swap_descriptor,
     sam_ino_record_swap_descriptor, sam_inode_ext_hdr_swap_descriptor,
     sam_inode_quota_swap_descriptor, sam_inode_samaid_swap_descriptor,
     sam_inode_samarch_swap_descriptor, sam_inode_samattr_swap_descriptor,
     sam_inode_setattr_swap_descriptor, sam_inode_stage_swap_descriptor,
     sam_label_swap_descriptor, sam_lease_data_swap_descriptor,
     sam_mva_inode_swap_descriptor, sam_name_acl_swap_descriptor,
     sam_name_create_swap_descriptor, sam_name_link_swap_descriptor,
     sam_name_lookup_swap_descriptor, sam_name_mkdir_swap_descriptor,
     sam_name_remove_swap_descriptor, sam_name_rename_swap_descriptor,
     sam_name_rmdir_swap_descriptor, sam_name_symlink_swap_descriptor,
     sam_notify_dnlc_swap_descriptor, sam_notify_lease_swap_descriptor,
     sam_old_arch_rminfo_swap_descriptor, sam_old_archive_swap_descriptor,
     sam_old_resource_swap_descriptor, sam_old_resource_file_swap_descriptor,
     sam_old_rminfo_swap_descriptor, sam_old_section_swap_descriptor,
     sam_osd_ext_inode_swap_descriptor, sam_perm_inode_swap_descriptor,
     sam_perm_inode_v1_swap_descriptor, sam_quota_group_swap_descriptor,
     sam_quota_group_pair_swap_descriptor, sam_resource_swap_descriptor,
     sam_resource_file_swap_descriptor, sam_rfa_inode_swap_descriptor,
     sam_rm_swap_descriptor, sam_san_block_swap_descriptor, sam_san_callout_swap_descriptor,
     sam_san_header_swap_descriptor, sam_san_inode_swap_descriptor,
     sam_san_inode2_swap_descriptor, sam_san_lease_swap_descriptor,
     sam_san_lease2_swap_descriptor, sam_san_mount_swap_descriptor,
     sam_san_name_swap_descriptor, sam_san_name2_swap_descriptor,
     sam_san_notify_swap_descriptor, sam_sbinfo_swap_descriptor, sam_sbord_swap_descriptor,
     sam_share_flock_swap_descriptor, sam_sln_inode_swap_descriptor,
     sam_sr_attr_swap_descriptor, sam_timestruc_swap_descriptor, sam_vattr_swap_descriptor,
     sam_vsn_array_swap_descriptor, sam_vsn_section_swap_descriptor]"

lemmas swap_descriptor_defs =
  CatalogEntry_swap_descriptor_def CatalogReserve_swap_descriptor_def
  MappedFile_swap_descriptor_def csd_filehdr_swap_descriptor_def
  csd_header_swap_descriptor_def csd_header_extended_swap_descriptor_def
  csum_swap_descriptor_def rmt_sam_cnt_resp_swap_descriptor_def
  rmt_sam_connect_swap_descriptor_def rmt_sam_req_resp_swap_descriptor_def
  rmt_sam_request_swap_descriptor_def rmt_sam_update_vsn_swap_descriptor_def
  rmt_sam_vsn_entry_swap_descriptor_def sam_acl_swap_descriptor_def
  sam_acl_inode_swap_descriptor_def sam_arch_inode_swap_descriptor_def
  sam_arch_rminfo_swap_descriptor_def sam_archive_swap_descriptor_def
  sam_archive_info_swap_descriptor_def sam_block_fgetbuf_swap_descriptor_def
  sam_block_getbuf_swap_descriptor_def sam_block_getino_swap_descriptor_def
  sam_block_quota_swap_descriptor_def sam_block_sblk_swap_descriptor_def
  sam_block_vfsstat_swap_descriptor_def sam_block_vfsstat_v2_swap_descriptor_def
  sam_callout_relinquish_lease_swap_descriptor_def sam_callout_stage_swap_descriptor_def
  sam_cl_attr_swap_descriptor_def sam_cred_swap_descriptor_def
  sam_di_osd_swap_descriptor_def sam_dirent_swap_descriptor_def
  sam_disk_inode_swap_descriptor_def sam_disk_inode_part2_swap_descriptor_def
  sam_dquot_swap_descriptor_def sam_hlp_inode_swap_descriptor_def
  sam_host_table_swap_descriptor_def sam_id_swap_descriptor_def
  sam_indirect_extent_swap_descriptor_def sam_ino_instance_swap_descriptor_def
  sam_ino_record_swap_descriptor_def sam_inode_ext_hdr_swap_descriptor_def
  sam_inode_quota_swap_descriptor_def sam_inode_samaid_swap_descriptor_def
  sam_inode_samarch_swap_descriptor_def sam_inode_samattr_swap_descriptor_def
  sam_inode_setattr_swap_descriptor_def sam_inode_stage_swap_descriptor_def
  sam_label_swap_descriptor_def sam_lease_data_swap_descriptor_def
  sam_mva_inode_swap_descriptor_def sam_name_acl_swap_descriptor_def
  sam_name_create_swap_descriptor_def sam_name_link_swap_descriptor_def
  sam_name_lookup_swap_descriptor_def sam_name_mkdir_swap_descriptor_def
  sam_name_remove_swap_descriptor_def sam_name_rename_swap_descriptor_def
  sam_name_rmdir_swap_descriptor_def sam_name_symlink_swap_descriptor_def
  sam_notify_dnlc_swap_descriptor_def sam_notify_lease_swap_descriptor_def
  sam_old_arch_rminfo_swap_descriptor_def sam_old_archive_swap_descriptor_def
  sam_old_resource_swap_descriptor_def sam_old_resource_file_swap_descriptor_def
  sam_old_rminfo_swap_descriptor_def sam_old_section_swap_descriptor_def
  sam_osd_ext_inode_swap_descriptor_def sam_perm_inode_swap_descriptor_def
  sam_perm_inode_v1_swap_descriptor_def sam_quota_group_swap_descriptor_def
  sam_quota_group_pair_swap_descriptor_def sam_resource_swap_descriptor_def
  sam_resource_file_swap_descriptor_def sam_rfa_inode_swap_descriptor_def
  sam_rm_swap_descriptor_def sam_san_block_swap_descriptor_def
  sam_san_callout_swap_descriptor_def sam_san_header_swap_descriptor_def
  sam_san_inode_swap_descriptor_def sam_san_inode2_swap_descriptor_def
  sam_san_lease_swap_descriptor_def sam_san_lease2_swap_descriptor_def
  sam_san_mount_swap_descriptor_def sam_san_name_swap_descriptor_def
  sam_san_name2_swap_descriptor_def sam_san_notify_swap_descriptor_def
  sam_sbinfo_swap_descriptor_def sam_sbord_swap_descriptor_def
  sam_share_flock_swap_descriptor_def sam_sln_inode_swap_descriptor_def
  sam_sr_attr_swap_descriptor_def sam_timestruc_swap_descriptor_def
  sam_vattr_swap_descriptor_def sam_vsn_array_swap_descriptor_def
  sam_vsn_section_swap_descriptor_def

lemma swap_descriptors_ok: "list_all (table_ok 0) swap_descriptors"
  by (simp add: swap_descriptors_def swap_descriptor_defs)

section \<open>Blocks of a disk\<close>

text \<open>
  A superblock is 256 bytes of information, with the number of partitions as a 16-bit number
  at offset 104, and 64 bytes for each partition. \<open>len\<close> is the length of the buffer, which
  may end before the last partition.
\<close>

abbreviation (input) SBINFO_SIZE :: nat where
  "SBINFO_SIZE \<equiv> 256"

abbreviation (input) SBORD_SIZE :: nat where
  "SBORD_SIZE \<equiv> 64"

definition fs_count :: "bool \<Rightarrow> u8 list \<Rightarrow> int" where
  "fs_count big m = sint (load big (take 2 (drop 104 m)) :: 16 word)"

text \<open>The loop over the partitions; \<open>ofs\<close> is the offset of the next one.\<close>

fun swap_sbords :: "bool \<Rightarrow> nat \<Rightarrow> nat \<Rightarrow> nat \<Rightarrow> nat \<Rightarrow> u8 list \<Rightarrow> int \<times> u8 list" where
  "swap_sbords big a 0 ofs len m = (0, m)"
| "swap_sbords big a (Suc n) ofs len m =
     (let m' = take ofs m @ snd (sam_byte_swap big (a + ofs) sam_sbord_swap_descriptor len (drop ofs m))
      in if len < SBORD_SIZE then (0, m')
         else swap_sbords big a n (ofs + SBORD_SIZE) (len - SBORD_SIZE) m')"

definition byte_swap_sb :: "bool \<Rightarrow> nat \<Rightarrow> u8 list \<Rightarrow> nat \<Rightarrow> int \<times> u8 list" where
  "byte_swap_sb big a m len =
     (if len < SBINFO_SIZE then (- 1, m)
      else
        (let m1 = snd (sam_byte_swap big a sam_sbinfo_swap_descriptor len m)
         in if fs_count big m1 < 0 \<or> 252 < fs_count big m1
            then (- 1, snd (sam_byte_swap big a sam_sbinfo_swap_descriptor SBINFO_SIZE m1))
            else swap_sbords big a (nat (fs_count big m1)) SBINFO_SIZE (len - SBINFO_SIZE) m1))"

definition byte_swap_hb :: "bool \<Rightarrow> nat \<Rightarrow> u8 list \<Rightarrow> int \<times> u8 list" where
  "byte_swap_hb big a m = (0, snd (sam_byte_swap big a sam_host_table_swap_descriptor 36 m))"

definition byte_swap_lb :: "bool \<Rightarrow> nat \<Rightarrow> u8 list \<Rightarrow> int \<times> u8 list" where
  "byte_swap_lb big a m = (0, snd (sam_byte_swap big a sam_label_swap_descriptor 284 m))"

section \<open>Lemmas: conversion of a structure\<close>

text \<open>A structure converted with one of the tables.\<close>

definition converted :: "swap_descriptor list \<Rightarrow> u8 list \<Rightarrow> u8 list" where
  "converted ds m = map (\<lambda>i. m ! table_index (table_entries ds) i) [0..<length m]"

lemma length_converted [simp]: "length (converted ds m) = length m"
  by (simp add: converted_def)

lemma sam_byte_swap_converted:
  assumes "table_ok lo ds" "table_size ds \<le> len" "len \<le> length m"
  shows "sam_byte_swap big a ds len m = (0, converted ds m)"
  using sam_byte_swap_index [OF assms, of big a] by (auto simp: converted_def intro!: nth_equalityI)

lemma converted_twice:
  assumes "table_ok lo ds" "table_size ds \<le> length m"
  shows "converted ds (converted ds m) = m"
  using byte_swap_ok [OF assms(1) assms(2) order_refl] assms
  by (auto simp: sam_byte_swap_converted [OF assms(1)])

lemma converted_append:
  assumes ok: "table_ok lo ds" and "table_size ds \<le> length x"
  shows "converted ds (x @ y) = converted ds x @ y"
proof (rule nth_equalityI)
  fix i
  assume "i < length (converted ds (x @ y))"
  then show "converted ds (x @ y) ! i = (converted ds x @ y) ! i"
    using assms table_index_behind(3) [OF ok, of i] table_index_outside [OF ok, of i]
    by (cases "i < table_size ds") (auto simp: converted_def nth_append)
qed simp

lemma table_of_list: "ds \<in> set swap_descriptors \<Longrightarrow> table_ok 0 ds"
  using swap_descriptors_ok by (simp add: list_all_iff)

lemma sb_tables:
  "table_ok 0 sam_sbinfo_swap_descriptor" "table_size sam_sbinfo_swap_descriptor = 256"
  "table_ok 0 sam_sbord_swap_descriptor" "table_size sam_sbord_swap_descriptor = 64"
  "table_ok 0 sam_host_table_swap_descriptor" "table_size sam_host_table_swap_descriptor = 36"
  "table_ok 0 sam_label_swap_descriptor" "table_size sam_label_swap_descriptor = 284"
  by (simp_all add: sam_sbinfo_swap_descriptor_def sam_sbord_swap_descriptor_def
      sam_host_table_swap_descriptor_def sam_label_swap_descriptor_def)

text \<open>n partitions converted, one after the other.\<close>

fun converted_sbords :: "nat \<Rightarrow> u8 list \<Rightarrow> u8 list" where
  "converted_sbords 0 y = y"
| "converted_sbords (Suc n) y =
     converted sam_sbord_swap_descriptor (take 64 y) @ converted_sbords n (drop 64 y)"

lemma swap_sbords_eq:
  "length x = ofs \<Longrightarrow> len = 64 * n \<Longrightarrow> len \<le> length y \<Longrightarrow>
    swap_sbords big a n ofs len (x @ y) = (0, x @ converted_sbords n y)"
proof (induction n arbitrary: x ofs len y)
  case (Suc n)
  let ?c = "converted sam_sbord_swap_descriptor (take 64 y)"
  have "converted sam_sbord_swap_descriptor y = ?c @ drop 64 y"
    using converted_append [OF sb_tables(3), of "take 64 y" "drop 64 y"] Suc.prems by (simp add: sb_tables(4))
  moreover have "sam_byte_swap big (a + ofs) sam_sbord_swap_descriptor len y =
      (0, converted sam_sbord_swap_descriptor y)"
    using Suc.prems by (intro sam_byte_swap_converted [OF sb_tables(3)]) (simp_all add: sb_tables(4))
  moreover have "swap_sbords big a n (ofs + 64) (len - 64) ((x @ ?c) @ drop 64 y) =
      (0, (x @ ?c) @ converted_sbords n (drop 64 y))"
    using Suc.prems by (intro Suc.IH) simp_all
  ultimately show ?case
    using Suc.prems by (simp add: Let_def)
qed simp

lemma fs_count_converted:
  assumes "256 \<le> length m"
  shows "fs_count big (converted sam_sbinfo_swap_descriptor m) = fs_count (\<not> big) m"
proof -
  let ?d = "\<lparr>d_offset = 104, d_elsize = 2, d_count = 4\<rparr>" and ?m = "converted sam_sbinfo_swap_descriptor m"
  have "sam_byte_swap big 0 sam_sbinfo_swap_descriptor (length m) m = (0, ?m)"
    using assms by (intro sam_byte_swap_converted [OF sb_tables(1)]) (simp_all add: sb_tables(2))
  then have "\<forall>d \<in> set (table_entries sam_sbinfo_swap_descriptor). \<forall>k < d_count d. element d k ?m = rev (element d k m)"
    using byte_swap_ok [OF sb_tables(1), of "length m" m] assms by (auto simp: sb_tables(2))
  moreover have "?d \<in> set (table_entries sam_sbinfo_swap_descriptor)"
    by (simp add: sam_sbinfo_swap_descriptor_def)
  ultimately have "element ?d 0 ?m = rev (element ?d 0 m)"
    by (metis gr0I select_convs(3) swap_descriptor.select_convs(3) zero_neq_numeral)
  then have "take 2 (drop 104 ?m) = rev (take 2 (drop 104 m))"
    by (simp add: element_def)
  then show ?thesis
    unfolding fs_count_def by (simp only: load_rev)
qed

section \<open>Properties\<close>

text \<open>
  C10. The tables. Every table of the file has the form \<open>sam_byte_swap\<close> expects: its elements are
  naturally aligned, do not overlap and lie inside the structure. So for every structure the
  conversion succeeds on every buffer that holds it, at every address and on machines of both
  byte orders, and converting the result again gives the structure back.
\<close>

theorem every_table_converts:
  assumes "ds \<in> set swap_descriptors" "table_size ds \<le> len" "len \<le> length m"
  shows "table_ok 0 ds \<and>
    (\<exists>m'. length m' = length m \<and> (\<forall>big a. sam_byte_swap big a ds len m = (0, m')) \<and>
      (\<forall>big a. sam_byte_swap big a ds len m' = (0, m)))"
  using table_of_list [OF assms(1)] byte_swap_ok [OF table_of_list [OF assms(1)] assms(2,3)] by blast

theorem every_table_converts_witness:
  "\<exists>m'. length m' = 16 \<and>
    (\<forall>big a. sam_byte_swap big a csum_swap_descriptor 16 (replicate 16 7) = (0, m')) \<and>
    (\<forall>big a. sam_byte_swap big a csum_swap_descriptor 16 m' = (0, replicate 16 7))"
  using every_table_converts [of csum_swap_descriptor 16 "replicate 16 7"]
  by (simp add: swap_descriptors_def csum_swap_descriptor_def)



end
