(* ===== verification/Csum.thy ===== *)
theory Csum
  imports Byte_Swap "HOL-Library.Monad_Syntax"
begin

text \<open>
  Checksums of archived files. \<open>cs_simple\<close> and \<open>cs_repair\<close> of src/src/lib/samfs/cssimple.c:
  sixteen sums of bytes, preset with a cookie, and the correction for a value that a machine
  of the other byte order has computed. The archiver computes the value while it copies a
  file, preset with the space of the file in the archive (src/src/archiver/arfind/archive.c);
  the stager computes it again while it writes the file to disk, with a cookie of its own
  (\<open>ChecksumInit\<close> of src/src/stager/copy/checksum.c), and \<open>ChecksumCompare\<close> decides.

  A value is the 16 bytes of a csum\_t in memory, a cookie the 8 bytes of a 64-bit number.
\<close>

unbundle bit_operations_syntax

section \<open>The simple checksum\<close>

definition add_bytes :: "u8 list \<Rightarrow> u8 list \<Rightarrow> u8 list" where
  "add_bytes p q = map2 (+) p q"

definition cs_preset :: "u8 list \<Rightarrow> u8 list" where
  "cs_preset cookie =
     replicate 4 0 @ take 4 cookie @ replicate 4 0 @ take 4 cookie"

function cs_data :: "u8 list \<Rightarrow> u8 list \<Rightarrow> u8 list" where
  "cs_data p buf =
     (if 16 \<le> length buf then cs_data (add_bytes p (take 16 buf)) (drop 16 buf)
      else if buf \<noteq> [] then add_bytes p (buf @ replicate (16 - length buf) 0)
      else p)"
  by auto
termination
  by (relation "measure (\<lambda>(p, buf). length buf)") auto

declare cs_data.simps [simp del]

definition cs_simple :: "u8 list option \<Rightarrow> u8 list \<Rightarrow> u8 list \<Rightarrow> u8 list" where
  "cs_simple cookie buf val = (case cookie of Some c \<Rightarrow> cs_preset c | None \<Rightarrow> cs_data val buf)"

text \<open>
  The other functions of the table \<open>csum_fns\<close>: the empty checksum, and the user's, which does
  nothing unless a site replaces it.
\<close>

definition cs_empty :: "u8 list option \<Rightarrow> u8 list \<Rightarrow> u8 list \<Rightarrow> u8 list" where
  "cs_empty cookie buf val = (case cookie of Some c \<Rightarrow> replicate 16 0 | None \<Rightarrow> val)"

definition cs_user :: "u8 list option \<Rightarrow> u8 \<Rightarrow> u8 list \<Rightarrow> u8 list \<Rightarrow> u8 list" where
  "cs_user cookie algo buf val = val"

datatype csum_func = Cs_empty | Cs_simple | Cs_user

definition csum_fns :: "csum_func list" where
  "csum_fns = [Cs_empty, Cs_simple]"

text \<open>
  A call of a function pointer. The user's function takes the algorithm as another argument;
  a call with the arguments of the other kind is \<^const>\<open>None\<close>.
\<close>

abbreviation (input) CS_USER_BIT :: u8 where
  "CS_USER_BIT \<equiv> 0x80"

abbreviation (input) CS_SIMPLE :: u8 where
  "CS_SIMPLE \<equiv> 1"

abbreviation (input) CS_FUNCS :: nat where
  "CS_FUNCS \<equiv> 2"

definition call_csum ::
    "csum_func \<Rightarrow> u8 \<Rightarrow> u8 list option \<Rightarrow> u8 list \<Rightarrow> u8 list \<Rightarrow> u8 list option" where
  "call_csum func algo cookie buf val =
     (if algo AND CS_USER_BIT \<noteq> 0
      then (if func = Cs_user then Some (cs_user cookie algo buf val) else None)
      else (case func of
              Cs_empty \<Rightarrow> Some (cs_empty cookie buf val)
            | Cs_simple \<Rightarrow> Some (cs_simple cookie buf val)
            | Cs_user \<Rightarrow> None))"

text \<open>
  The correction. \<open>a\<close> is the address of the local array, which decides how the bytes are
  moved.
\<close>

definition sub_bytes :: "u8 list \<Rightarrow> u8 list \<Rightarrow> u8 list" where
  "sub_bytes p q = map2 (-) p q"

definition cs_repair :: "bool \<Rightarrow> nat \<Rightarrow> u8 list \<Rightarrow> u8 list \<Rightarrow> u8 list" where
  "cs_repair big a csum cookie =
     add_bytes (sam_bswap4 big a 4 (sub_bytes csum (cs_preset (drop 4 cookie)))) (cs_preset cookie)"

section \<open>Cookies\<close>

abbreviation (input) TAR_RECORDSIZE :: nat where
  "TAR_RECORDSIZE \<equiv> 512"

definition roundup :: "nat \<Rightarrow> nat \<Rightarrow> nat" where
  "roundup x y = (x + (y - 1)) div y * y"

text \<open>
  The space of a file in the archive, computed when the file is scheduled. \<open>name_l\<close> is the
  length of its path below the mount point with the terminating NUL.
\<close>

definition FiSpace :: "nat \<Rightarrow> nat \<Rightarrow> nat" where
  "FiSpace fsize name_l =
     (fsize + TAR_RECORDSIZE - 1) div TAR_RECORDSIZE * TAR_RECORDSIZE + TAR_RECORDSIZE +
     (if 100 < name_l
      then TAR_RECORDSIZE + (name_l + TAR_RECORDSIZE - 1) div TAR_RECORDSIZE * TAR_RECORDSIZE
      else 0)"

text \<open>The bytes of a cookie in memory.\<close>

definition cookie_bytes :: "bool \<Rightarrow> u64 \<Rightarrow> u8 list" where
  "cookie_bytes big seed = store big 8 seed"

section \<open>The archiver\<close>

text \<open>
  \<open>ChecksumInit\<close> of the archiver sets the function and presets the value of the file, \<open>val\<close>
  before. An algorithm above \<open>CS_FUNCS\<close> leaves both as they were; the algorithm \<open>CS_FUNCS\<close>
  itself is not rejected and reads behind the table (\<^const>\<open>None\<close>).
\<close>

record ar_csum =
  ac_algo :: u8
  ac_func :: csum_func
  ac_val :: "u8 list"

definition arcopy_ChecksumInit :: "bool \<Rightarrow> ar_csum \<Rightarrow> u8 \<Rightarrow> nat \<Rightarrow> ar_csum option" where
  "arcopy_ChecksumInit big ac algo space =
     (let ac' = ac\<lparr>ac_algo := algo\<rparr>
      in if algo AND CS_USER_BIT \<noteq> 0
         then Some (ac'\<lparr>ac_func := Cs_user,
                        ac_val := cs_user (Some (cookie_bytes big 0)) algo [] (ac_val ac)\<rparr>)
         else if CS_FUNCS < unat algo then Some ac'
         else if CS_FUNCS \<le> unat algo then None
         else (let func = csum_fns ! unat algo
               in map_option (\<lambda>v. ac'\<lparr>ac_func := func, ac_val := v\<rparr>)
                    (call_csum func algo (Some (cookie_bytes big (word_of_nat space))) [] (ac_val ac))))"

text \<open>One piece of data given to the worker thread of the archiver.\<close>

definition arcopy_checksumWorker :: "ar_csum \<Rightarrow> u8 list \<Rightarrow> ar_csum option" where
  "arcopy_checksumWorker ac data =
     map_option (\<lambda>v. ac\<lparr>ac_val := v\<rparr>) (call_csum (ac_func ac) (ac_algo ac) None data (ac_val ac))"

section \<open>The stager\<close>

text \<open>
  The state of the checksum of a copy process of the stager, and its initialisation for a file
  of length \<open>len\<close> with a path of length \<open>namelen\<close>. The test for a user defined algorithm looks
  at the algorithm of the last file. The test for an invalid algorithm, which compares
  before it masks, never succeeds.
\<close>

record csum_state =
  cs_algo :: u8
  cs_func :: "csum_func option"
  cs_seed :: u64
  cs_val :: "u8 list"
  is_initialized :: bool

definition ChecksumInit :: "csum_state \<Rightarrow> u8 \<Rightarrow> nat \<Rightarrow> nat \<Rightarrow> bool \<Rightarrow> csum_state" where
  "ChecksumInit st algo len namelen alreadyInitialized =
     (let seed =
        (if cs_algo st AND CS_USER_BIT \<noteq> 0 then 0
         else (let s = roundup (len + TAR_RECORDSIZE) TAR_RECORDSIZE
               in word_of_nat
                    (if 100 < namelen then roundup (s + (namelen + TAR_RECORDSIZE)) TAR_RECORDSIZE else s)))
      in st\<lparr>cs_seed := seed, cs_algo := algo, cs_val := replicate 16 0, is_initialized := alreadyInitialized\<rparr>)"

text \<open>
  One piece of data in the worker thread: it initialises the value with the first piece.
  A function that is not set or an algorithm behind the table is \<^const>\<open>None\<close>.
\<close>

definition checksumWorker :: "bool \<Rightarrow> csum_state \<Rightarrow> u8 list \<Rightarrow> csum_state option" where
  "checksumWorker big st data =
     do { st \<leftarrow> (if is_initialized st then Some st
                else if cs_algo st AND CS_USER_BIT \<noteq> 0
                then Some (st\<lparr>cs_func := Some Cs_user, is_initialized := True,
                              cs_val := cs_user (Some (cookie_bytes big (cs_seed st))) (cs_algo st) [] (cs_val st)\<rparr>)
                else if CS_FUNCS \<le> unat (cs_algo st) then None
                else (let func = csum_fns ! unat (cs_algo st)
                      in map_option
                           (\<lambda>v. st\<lparr>cs_func := Some func, is_initialized := True, cs_val := v\<rparr>)
                           (call_csum func (cs_algo st) (Some (cookie_bytes big (cs_seed st))) [] (cs_val st))));
          func \<leftarrow> cs_func st;
          v \<leftarrow> call_csum func (cs_algo st) None data (cs_val st);
          Some (st\<lparr>cs_val := v\<rparr>) }"

text \<open>The pieces of a file, one after the other.\<close>

fun arcopy_pieces :: "ar_csum \<Rightarrow> u8 list list \<Rightarrow> ar_csum option" where
  "arcopy_pieces ac [] = Some ac"
| "arcopy_pieces ac (x # xs) = do { ac' \<leftarrow> arcopy_checksumWorker ac x; arcopy_pieces ac' xs }"

fun stager_pieces :: "bool \<Rightarrow> csum_state \<Rightarrow> u8 list list \<Rightarrow> csum_state option" where
  "stager_pieces big st [] = Some st"
| "stager_pieces big st (x # xs) = do { st' \<leftarrow> checksumWorker big st x; stager_pieces big st' xs }"

text \<open>
  The comparison with the value of the inode; \<^const>\<open>None\<close> is success, otherwise the error is
  EDVVCMP.
\<close>

datatype csum_error = EDVVCMP

definition ChecksumCompare :: "bool \<Rightarrow> nat \<Rightarrow> u8 list \<Rightarrow> u8 \<Rightarrow> csum_state \<Rightarrow> csum_error option" where
  "ChecksumCompare big a csum algo st =
     (if csum = cs_val st then None
      else if algo = CS_SIMPLE \<and> cs_repair big a csum (cookie_bytes big (cs_seed st)) = cs_val st then None
      else Some EDVVCMP)"

section \<open>Lemmas\<close>

lemma length_add_bytes [simp]: "length (add_bytes p q) = min (length p) (length q)"
  by (simp add: add_bytes_def)

lemma length_sub_bytes [simp]: "length (sub_bytes p q) = min (length p) (length q)"
  by (simp add: sub_bytes_def)

lemma add_bytes_assoc: "add_bytes (add_bytes p q) r = add_bytes p (add_bytes q r)"
  by (rule nth_equalityI) (simp_all add: add_bytes_def add.assoc)

lemma add_bytes_comm: "add_bytes p q = add_bytes q p"
  by (rule nth_equalityI) (simp_all add: add_bytes_def add.commute)

lemma add_bytes_zero:
  "length p = 16 \<Longrightarrow> add_bytes p (replicate 16 0) = p" "length p = 16 \<Longrightarrow> add_bytes (replicate 16 0) p = p"
  by (rule nth_equalityI; simp add: add_bytes_def)+

lemma sub_add_bytes: "length p = length q \<Longrightarrow> sub_bytes (add_bytes p q) p = q"
  by (rule nth_equalityI) (simp_all add: add_bytes_def sub_bytes_def)

lemma length_cs_preset [simp]: "4 \<le> length c \<Longrightarrow> length (cs_preset c) = 16"
  by (simp add: cs_preset_def)

lemma length_cs_data [simp]: "length p = 16 \<Longrightarrow> length (cs_data p buf) = 16"
proof (induction p buf rule: cs_data.induct)
  case (1 p buf)
  then show ?case
    by (subst cs_data.simps) auto
qed

lemma cs_data_Nil [simp]: "cs_data p [] = p"
  by (simp add: cs_data.simps)

lemma cs_data_append: "16 dvd length x \<Longrightarrow> cs_data p (x @ y) = cs_data (cs_data p x) y"
proof (induction p x rule: cs_data.induct)
  case (1 p x)
  show ?case
  proof (cases "16 \<le> length x")
    case True
    then have "16 dvd length (drop 16 x)"
      using "1.prems" by (simp add: dvd_minus_self)
    then have "cs_data (add_bytes p (take 16 x)) (drop 16 x @ y) = cs_data (cs_data (add_bytes p (take 16 x)) (drop 16 x)) y"
      using "1.IH" True by simp
    then show ?thesis
      using True cs_data.simps [of p "x @ y"] cs_data.simps [of p x] by auto
  next
    case False
    then have "x = []"
      using "1.prems" by (auto dest: dvd_imp_le)
    then show ?thesis
      by simp
  qed
qed

lemma cs_data_add: "cs_data (add_bytes p q) buf = add_bytes p (cs_data q buf)"
proof (induction q buf rule: cs_data.induct)
  case (1 q buf)
  then show ?case
    by (subst (1 2) cs_data.simps) (simp add: add_bytes_assoc)
qed

lemma cs_data_sum: "length p = 16 \<Longrightarrow> cs_data p buf = add_bytes p (cs_data (replicate 16 0) buf)"
  using cs_data_add [of p "replicate 16 0" buf] by (simp add: add_bytes_zero(1))

text \<open>Data in pieces: all but the last have to be multiples of 16 bytes.\<close>

lemma cs_data_pieces:
  "(\<forall>x \<in> set xs. 16 dvd length x) \<Longrightarrow> cs_data (foldl cs_data p xs) y = cs_data p (concat xs @ y)"
  by (induction xs arbitrary: p) (simp_all add: cs_data_append)

lemma rev_elems_map2:
  "length p = length q \<Longrightarrow> rev_elems k n (map2 f p q) = map2 f (rev_elems k n p) (rev_elems k n q)"
proof (induction k n p arbitrary: q rule: rev_elems.induct)
  case (2 k n p)
  then show ?case
    by (simp add: take_map drop_map take_zip drop_zip rev_map zip_rev)
qed simp

lemma rev_elems_twice: "k * n \<le> length m \<Longrightarrow> rev_elems k n (rev_elems k n m) = m"
  by (induction k n m rule: rev_elems.induct) (simp_all add: min_def)

lemma cs_preset_swapped:
  "length d = 4 \<Longrightarrow> rev_elems 4 4 (cs_preset (rev d)) = cs_preset d"
  by (simp add: cs_preset_def numeral_eq_Suc)

lemma length_cookie_bytes [simp]: "length (cookie_bytes big c) = 8"
  by (simp add: cookie_bytes_def store_def store_le_def)

lemma cookie_bytes_other: "cookie_bytes (\<not> big) c = rev (cookie_bytes big c)"
  by (cases big) (simp_all add: cookie_bytes_def store_def)

lemma drop_cookie_other: "cs_preset (cookie_bytes (\<not> big) c) = cs_preset (rev (drop 4 (cookie_bytes big c)))"
  by (simp add: cookie_bytes_other cs_preset_def rev_drop)

text \<open>
  \<open>cs_repair\<close> recovers the own checksum from the one of a machine of the other byte order,
  whose words were swapped when the inode was converted.
\<close>

lemma cs_repair_other:
  "cs_repair big a (rev_elems 4 4 (cs_data (cs_preset (cookie_bytes (\<not> big) c)) data)) (cookie_bytes big c) =
     cs_data (cs_preset (cookie_bytes big c)) data"
proof -
  define S where "S = cs_data (replicate 16 0) data"
  define d where "d = drop 4 (cookie_bytes big c)"
  have S: "length S = 16" and d: "length d = 4"
    by (simp_all add: S_def d_def)
  have "rev_elems 4 4 (cs_data (cs_preset (cookie_bytes (\<not> big) c)) data) =
          rev_elems 4 4 (add_bytes (cs_preset (rev d)) S)"
    by (simp add: drop_cookie_other cs_data_sum [of "cs_preset _"] d_def S_def)
  also have "\<dots> = add_bytes (cs_preset d) (rev_elems 4 4 S)"
    using S d by (simp add: add_bytes_def rev_elems_map2 cs_preset_swapped del: rev_elems_numeral)
  finally have "sub_bytes (rev_elems 4 4 (cs_data (cs_preset (cookie_bytes (\<not> big) c)) data)) (cs_preset d) =
      rev_elems 4 4 S"
    using S d by (simp add: sub_add_bytes del: rev_elems_numeral)
  then have "cs_repair big a (rev_elems 4 4 (cs_data (cs_preset (cookie_bytes (\<not> big) c)) data)) (cookie_bytes big c)
      = add_bytes (rev_elems 4 4 (rev_elems 4 4 S)) (cs_preset (cookie_bytes big c))"
    by (simp add: cs_repair_def d_def sam_bswap4_rev S del: rev_elems_numeral)
  then show ?thesis
    using S by (simp add: rev_elems_twice cs_data_sum [of "cs_preset _"] S_def add_bytes_comm del: rev_elems_numeral)
qed

section \<open>The cookies of archiver and stager\<close>

lemma roundup_512: "roundup (k * 512 + n) 512 = k * 512 + roundup n 512"
  by (simp add: roundup_def add.assoc)

lemma FiSpace_roundup:
  "FiSpace len namelen =
     (if 100 < namelen then roundup (roundup (len + 512) 512 + (namelen + 512)) 512
      else roundup (len + 512) 512)"
proof -
  define k where "k = (len + 511) div 512 + 1"
  have s: "roundup (len + 512) 512 = k * 512"
    using div_add_self1 [of 512 "len + 511"] by (simp add: roundup_def k_def algebra_simps)
  have "roundup (k * 512 + (namelen + 512)) 512 = k * 512 + (roundup namelen 512 + 512)"
    using roundup_512 [of "k + 1" namelen] by (simp add: algebra_simps)
  moreover have "FiSpace len namelen = k * 512 + (if 100 < namelen then roundup namelen 512 + 512 else 0)"
    by (simp only: FiSpace_def k_def roundup_def add_mult_distrib) (simp add: add.commute)
  ultimately show ?thesis
    unfolding s by presburger
qed

lemma ChecksumInit_seed:
  "cs_algo st AND CS_USER_BIT = 0 \<Longrightarrow>
     cs_seed (ChecksumInit st algo len namelen i) = word_of_nat (FiSpace len namelen)"
  by (simp only: ChecksumInit_def Let_def FiSpace_roundup if_True if_False refl not_True_eq_False) simp

lemma unat_byte_at: "unat (byte_at i (w :: u64)) = unat w div 256 ^ i mod 256"
  by (simp only: byte_at_def unsigned_ucast_eq take_bit_eq_mod unat_drop_bit_eq)
    (simp add: drop_bit_eq_div power_mult)

lemma cookie_nth:
  "i < 8 \<Longrightarrow> n < 2 ^ 64 \<Longrightarrow> unat (cookie_bytes False (word_of_nat n) ! i) = n div 256 ^ i mod 256"
  by (simp add: cookie_bytes_def store_def store_le_def unat_byte_at unat_of_nat take_bit_nat_eq_self)

lemma four_bytes_nat:
  assumes "n < 2 ^ 32" "m < 2 ^ 32" "\<forall>i < 4. n div 256 ^ i mod 256 = m div 256 ^ i mod (256 :: nat)"
  shows "n = m"
proof -
  have e: "n mod 256 = m mod 256" "n div 256 mod 256 = m div 256 mod 256"
    "n div 65536 mod 256 = m div 65536 mod 256" "n div 16777216 mod 256 = m div 16777216 mod 256"
    using assms(3) [rule_format, of 0] assms(3) [rule_format, of 1] assms(3) [rule_format, of 2]
      assms(3) [rule_format, of 3] by simp_all
  have base: "x = y" if "x div 256 = y div 256" "x mod 256 = y mod 256" for x y :: nat
    using that by (metis div_mult_mod_eq)
  have "n div 16777216 < 256" "m div 16777216 < 256"
    using assms(1,2) by simp_all
  then have "n div 65536 div 256 = m div 65536 div 256"
    using e(4) div_mult2_eq [of n 65536 256] div_mult2_eq [of m 65536 256] by simp
  from base [OF this e(3)] have "n div 256 div 256 = m div 256 div 256"
    using div_mult2_eq [of n 256 256] div_mult2_eq [of m 256 256] by simp
  from base [OF this e(2)] have "n div 256 = m div 256" .
  then show ?thesis
    using e(1) by (rule base)
qed

section \<open>The value of a file\<close>

definition file_csum :: "bool \<Rightarrow> nat \<Rightarrow> u8 list \<Rightarrow> u8 list" where
  "file_csum big space data = cs_data (cs_preset (cookie_bytes big (word_of_nat space))) data"

lemma length_file_csum [simp]: "length (file_csum big space data) = 16"
  by (simp add: file_csum_def)

lemma arcopy_init_simple:
  "arcopy_ChecksumInit big ac CS_SIMPLE space =
     Some (ac\<lparr>ac_algo := CS_SIMPLE, ac_func := Cs_simple,
              ac_val := cs_preset (cookie_bytes big (word_of_nat space))\<rparr>)"
  by (simp add: arcopy_ChecksumInit_def csum_fns_def call_csum_def cs_simple_def)

lemma arcopy_pieces_simple:
  "ac_func ac = Cs_simple \<Longrightarrow> ac_algo ac = CS_SIMPLE \<Longrightarrow>
     arcopy_pieces ac xs = Some (ac\<lparr>ac_val := foldl cs_data (ac_val ac) xs\<rparr>)"
  by (induction xs arbitrary: ac)
    (simp_all add: arcopy_checksumWorker_def call_csum_def cs_simple_def)

lemma stager_pieces_simple:
  "cs_func st = Some Cs_simple \<Longrightarrow> cs_algo st = CS_SIMPLE \<Longrightarrow> is_initialized st \<Longrightarrow>
     stager_pieces big st xs = Some (st\<lparr>cs_val := foldl cs_data (cs_val st) xs\<rparr>)"
  by (induction xs arbitrary: st) (simp_all add: checksumWorker_def call_csum_def cs_simple_def)

lemma stager_first_piece:
  "cs_algo st = CS_SIMPLE \<Longrightarrow> \<not> is_initialized st \<Longrightarrow>
     checksumWorker big st x =
       Some (st\<lparr>cs_func := Some Cs_simple, is_initialized := True,
                cs_val := cs_data (cs_preset (cookie_bytes big (cs_seed st))) x\<rparr>)"
  by (simp add: checksumWorker_def call_csum_def cs_simple_def csum_fns_def)

text \<open>Pieces that do not change the value: all but the last are multiples of 16 bytes.\<close>

definition pieces_ok :: "u8 list list \<Rightarrow> bool" where
  "pieces_ok xs \<longleftrightarrow> xs \<noteq> [] \<and> (\<forall>x \<in> set (butlast xs). 16 dvd length x)"

lemma foldl_pieces: "pieces_ok xs \<Longrightarrow> foldl cs_data p xs = cs_data p (concat xs)"
proof (induction xs rule: rev_induct)
  case (snoc y xs)
  then show ?case
    using cs_data_pieces [of xs p y] by (simp add: pieces_ok_def)
qed (simp add: pieces_ok_def)

lemma archived_value:
  assumes "arcopy_ChecksumInit big ac CS_SIMPLE space = Some ac0" "arcopy_pieces ac0 xs = Some ac1" "pieces_ok xs"
  shows "ac_val ac1 = file_csum big space (concat xs)"
  using assms(1,2) foldl_pieces [OF assms(3)] unfolding arcopy_init_simple
  by (auto simp: arcopy_pieces_simple file_csum_def)

lemma staged_value:
  assumes "cs_algo st AND CS_USER_BIT = 0" "pieces_ok xs"
  obtains st' where "stager_pieces big (ChecksumInit st CS_SIMPLE len namelen False) xs = Some st'"
    "cs_val st' = file_csum big (FiSpace len namelen) (concat xs)"
    "cs_seed st' = word_of_nat (FiSpace len namelen)"
proof -
  obtain x ys where xs: "xs = x # ys"
    using assms(2) by (cases xs) (auto simp: pieces_ok_def)
  let ?i = "ChecksumInit st CS_SIMPLE len namelen False"
  have i: "cs_algo ?i = CS_SIMPLE" "\<not> is_initialized ?i"
    by (simp_all add: ChecksumInit_def Let_def)
  show ?thesis
    using that foldl_pieces [OF assms(2), of "cs_preset (cookie_bytes big (cs_seed ?i))"]
    unfolding xs by (simp add: stager_first_piece [OF i] stager_pieces_simple i file_csum_def
        ChecksumInit_seed [OF assms(1)])
qed

section \<open>A file that was renamed\<close>

lemma file_csum_nth:
  "i < 16 \<Longrightarrow> file_csum big space data ! i =
     cs_preset (cookie_bytes big (word_of_nat space)) ! i + cs_data (replicate 16 0) data ! i"
  by (simp add: file_csum_def cs_data_sum [of "cs_preset _"]) (simp add: add_bytes_def)

lemma cs_preset_nth: "i < 4 \<Longrightarrow> 4 \<le> length c \<Longrightarrow> cs_preset c ! (4 + i) = c ! i"
  by (simp add: cs_preset_def nth_append)

lemma file_csum_inj:
  assumes "n < 2 ^ 32" "m < 2 ^ 32" "file_csum False n data = file_csum False m data"
  shows "n = m"
proof (rule four_bytes_nat [OF assms(1,2)], intro allI impI)
  fix i :: nat
  assume i: "i < 4"
  have "cookie_bytes False (word_of_nat n) ! i = cookie_bytes False (word_of_nat m) ! i"
    using arg_cong [OF assms(3), of "\<lambda>x. x ! (4 + i)"] i
    by (simp only: file_csum_nth [of "4 + i"] cs_preset_nth length_cookie_bytes add_right_cancel)
  then show "n div 256 ^ i mod 256 = m div 256 ^ i mod 256"
    using cookie_nth [of i n] cookie_nth [of i m] i assms(1,2) by simp
qed

lemma high_cookie:
  "m < 2 ^ 32 \<Longrightarrow> drop 4 (cookie_bytes False (word_of_nat m)) = replicate 4 0"
proof (rule nth_equalityI)
  fix i
  assume m: "m < 2 ^ 32" and "i < length (drop 4 (cookie_bytes False (word_of_nat m)))"
  then have i: "i < 4"
    by simp
  have "(2 :: nat) ^ 32 \<le> 256 ^ (4 + i)"
    using power_increasing [of 4 "4 + i" "256 :: nat"] by simp
  then have "m div 256 ^ (4 + i) = 0"
    using m by simp
  then have "unat (cookie_bytes False (word_of_nat m) ! (4 + i)) = 0"
    using cookie_nth [of "4 + i" m] i m by simp
  then show "drop 4 (cookie_bytes False (word_of_nat m)) ! i = replicate 4 0 ! i"
    using i by (simp add: unat_eq_zero)
qed simp

lemma rev_elems_mid:
  assumes "length X = 16"
  shows "rev_elems 4 4 X ! 5 = X ! 6" "rev_elems 4 4 X ! 6 = X ! 5"
  using assms by (simp_all add: nth_append rev_nth)

lemma repair_renamed:
  assumes "512 \<le> n" "n < 65536" "m < 2 ^ 32"
  shows "cs_repair False a (file_csum False n data) (cookie_bytes False (word_of_nat m)) \<noteq> file_csum False m data"
proof
  let ?X = "file_csum False n data" and ?c = "cookie_bytes False (word_of_nat m)"
  let ?n = "\<lambda>i. cookie_bytes False (word_of_nat n) ! i"
  define S where "S = cs_data (replicate 16 0) data"
  assume eq: "cs_repair False a ?X ?c = file_csum False m data"
  have "sub_bytes ?X (cs_preset (replicate 4 0)) = ?X"
    by (rule nth_equalityI) (auto simp: sub_bytes_def cs_preset_def nth_append simp flip: replicate_add)
  then have r: "file_csum False m data = add_bytes (rev_elems 4 4 ?X) (cs_preset ?c)"
    using eq high_cookie [OF assms(3)] by (simp add: cs_repair_def sam_bswap4_rev del: rev_elems_numeral)
  have X: "?X ! 5 = ?n 1 + S ! 5" "?X ! 6 = ?n 2 + S ! 6"
    using cs_preset_nth [of 1 "cookie_bytes False (word_of_nat n)"]
      cs_preset_nth [of 2 "cookie_bytes False (word_of_nat n)"] by (simp_all add: file_csum_nth S_def)
  have "cs_preset ?c ! 5 + S ! 5 = ?X ! 6 + cs_preset ?c ! 5"
       "cs_preset ?c ! 6 + S ! 6 = ?X ! 5 + cs_preset ?c ! 6"
    using arg_cong [OF r, of "\<lambda>x. x ! 5"] arg_cong [OF r, of "\<lambda>x. x ! 6"]
    by (simp_all add: file_csum_nth S_def add_bytes_def rev_elems_mid del: rev_elems_numeral)
  then have "S ! 5 = ?X ! 6" "S ! 6 = ?X ! 5"
    by (simp_all add: add.commute)
  then have "?n 1 + ?n 2 = 0"
    unfolding X by (simp add: ac_simps)
  moreover have "unat (?n 2) = 0" "unat (?n 1) \<noteq> 0"
    using cookie_nth [of 1 n] cookie_nth [of 2 n] assms(1,2) by (simp_all add: div_eq_0_iff)
  ultimately show False
    by (simp add: unat_eq_zero)
qed

lemma FiSpace_ge: "512 \<le> FiSpace len namelen"
  by (simp add: FiSpace_def)



end
