(* ===== verification/Pax_Util.thy ===== *)
theory Pax_Util
  imports Prelude
begin

text \<open>
  The numeric helpers of the pax header library (src/lib/pax\_hdr/pax\_util.c): sizes, block
  rounding, printing and parsing of integers and of the fractional part of a time stamp.

  Status codes are the integers of include/pax\_hdr/pax\_err.h: errors are negative, every
  other value is a success. A parser returns \<open>Inl status\<close> for an error and
  \<open>Inr (value, offset)\<close> otherwise, the offset being where the conversion stopped. The
  digit loop of \<open>parse_fpart\<close> can run forever, so it is an \<open>option\<close> partial function:
  \<^const>\<open>None\<close> is a call that does not return.
\<close>

section \<open>Status codes\<close>

type_synonym px_status = int

abbreviation (input) PX_SUCCESS :: px_status where "PX_SUCCESS \<equiv> 0"
abbreviation (input) PX_SUCCESS_NO_MORE_PAIRS :: px_status where "PX_SUCCESS_NO_MORE_PAIRS \<equiv> 1"
abbreviation (input) PX_SUCCESS_STD_HEADER :: px_status where "PX_SUCCESS_STD_HEADER \<equiv> 2"
abbreviation (input) PX_SUCCESS_EXT_HEADER :: px_status where "PX_SUCCESS_EXT_HEADER \<equiv> 3"
abbreviation (input) PX_SUCCESS_GLOBAL_HEADER :: px_status where "PX_SUCCESS_GLOBAL_HEADER \<equiv> 4"
abbreviation (input) PX_ERROR_INVALID :: px_status where "PX_ERROR_INVALID \<equiv> - 101"
abbreviation (input) PX_ERROR_NOT_PARSED :: px_status where "PX_ERROR_NOT_PARSED \<equiv> - 103"
abbreviation (input) PX_ERROR_INTERNAL :: px_status where "PX_ERROR_INTERNAL \<equiv> - 104"
abbreviation (input) PX_ERROR_NOT_PAX_HEADER :: px_status where "PX_ERROR_NOT_PAX_HEADER \<equiv> - 105"
abbreviation (input) PX_ERROR_INVALID_HEADER :: px_status where "PX_ERROR_INVALID_HEADER \<equiv> - 106"
abbreviation (input) PX_ERROR_NOT_SUPPORTED :: px_status where "PX_ERROR_NOT_SUPPORTED \<equiv> - 107"
abbreviation (input) PX_ERROR_REQUIRE_DEFAULTS :: px_status where "PX_ERROR_REQUIRE_DEFAULTS \<equiv> - 108"
abbreviation (input) PX_ERROR_DEFAULTS_XHDR :: px_status where "PX_ERROR_DEFAULTS_XHDR \<equiv> - 109"
abbreviation (input) PX_ERROR_INVALID_BUFFER :: px_status where "PX_ERROR_INVALID_BUFFER \<equiv> - 110"
abbreviation (input) PX_ERROR_NO_KEY :: px_status where "PX_ERROR_NO_KEY \<equiv> - 200"
abbreviation (input) PX_ERROR_MALFORMED :: px_status where "PX_ERROR_MALFORMED \<equiv> - 201"
abbreviation (input) PX_ERROR_DUPLICATE_INSERTION :: px_status where "PX_ERROR_DUPLICATE_INSERTION \<equiv> - 202"
abbreviation (input) PX_ERROR_BAD_TYPE :: px_status where "PX_ERROR_BAD_TYPE \<equiv> - 210"
abbreviation (input) PX_ERROR_I64_TYPE :: px_status where "PX_ERROR_I64_TYPE \<equiv> - 211"
abbreviation (input) PX_ERROR_U64_TYPE :: px_status where "PX_ERROR_U64_TYPE \<equiv> - 212"
abbreviation (input) PX_ERROR_TIME_TYPE :: px_status where "PX_ERROR_TIME_TYPE \<equiv> - 213"
abbreviation (input) PX_ERROR_STRING_TYPE :: px_status where "PX_ERROR_STRING_TYPE \<equiv> - 214"
abbreviation (input) PX_ERROR_RANGE :: px_status where "PX_ERROR_RANGE \<equiv> - 301"
abbreviation (input) PX_ERROR_FPART_TOO_PRECISE :: px_status where "PX_ERROR_FPART_TOO_PRECISE \<equiv> - 303"
abbreviation (input) PX_ERROR_DIV_ZERO :: px_status where "PX_ERROR_DIV_ZERO \<equiv> - 304"
abbreviation (input) PX_ERROR_IMPROPER_FRACTION :: px_status where "PX_ERROR_IMPROPER_FRACTION \<equiv> - 305"
abbreviation (input) PX_ERROR_OVERFLOW :: px_status where "PX_ERROR_OVERFLOW \<equiv> - 400"
abbreviation (input) PX_ERROR_LEADING_CHARS :: px_status where "PX_ERROR_LEADING_CHARS \<equiv> - 401"
abbreviation (input) PX_ERROR_TRAILING_CHARS :: px_status where "PX_ERROR_TRAILING_CHARS \<equiv> - 402"
abbreviation (input) PX_ERROR_END_OF_HEADER :: px_status where "PX_ERROR_END_OF_HEADER \<equiv> - 404"
abbreviation (input) PX_ERROR_WONT_FIT :: px_status where "PX_ERROR_WONT_FIT \<equiv> - 500"

definition PXSUCCESS :: "px_status \<Rightarrow> bool" where
  "PXSUCCESS st \<longleftrightarrow> 0 \<le> st"

section \<open>Sizes\<close>

text \<open>
  \<open>strtosize_t\<close> does not reset errno, so its result depends on the errno the call starts
  with, \<open>en\<close>.
\<close>

definition strtosize_t :: "c_errno option \<Rightarrow> string \<Rightarrow> nat \<Rightarrow> px_status \<times> nat \<times> nat" where
  "strtosize_t en str base =
     (case strtoull base str of (result, off, e) \<Rightarrow>
        let errno = (if e = None then en else e)
        in if result = SIZE_MAX \<and> errno = Some ERANGE then (PX_ERROR_RANGE, result, off)
           else if result = 0 \<and> (off = 0 \<or> errno = Some EINVAL)
             then (PX_ERROR_INVALID, result, off)
           else (PX_SUCCESS, result, off))"

definition round_to_block :: "nat \<Rightarrow> nat \<Rightarrow> nat" where
  "round_to_block value block_size =
     ((value div block_size + (if value mod block_size \<noteq> 0 then 1 else 0)) * block_size)
     mod 2 ^ 64"

section \<open>Printing a fraction\<close>

text \<open>
  The two loops of \<open>format_ppb\<close>. The first multiplies the divisor by ten until it no
  longer divides \<open>ppb\<close>, the second until it exceeds it; the guards on zero only make the
  functions total, the code starts the loops with a positive divisor and \<open>ppb\<close>.
\<close>

function ppb_trailing :: "nat \<Rightarrow> nat \<Rightarrow> nat \<Rightarrow> nat \<times> nat" where
  "ppb_trailing ppb divisor req_len =
     (let divisor' = divisor * 10
      in if 0 < ppb \<and> 0 < divisor \<and> ppb mod divisor' = 0
         then ppb_trailing ppb divisor' (req_len - 1) else (divisor', req_len))"
  by pat_completeness auto
termination
  by (relation "measure (\<lambda>(ppb, divisor, req_len). ppb - divisor)")
    (auto simp: mod_eq_0_iff_dvd dest!: dvd_imp_le)

function ppb_leading :: "nat \<Rightarrow> nat \<Rightarrow> int \<Rightarrow> int" where
  "ppb_leading ppb divisor zeros =
     (let divisor' = divisor * 10
      in if 0 < divisor \<and> ppb div divisor' \<noteq> 0
         then ppb_leading ppb divisor' (zeros - 1) else zeros)"
  by pat_completeness auto
termination
  by (relation "measure (\<lambda>(ppb, divisor, zeros). ppb - divisor)")
    (auto simp: div_eq_0_iff)

declare ppb_trailing.simps [simp del]
declare ppb_leading.simps [simp del]

text \<open>
  The buffer is NULL or the memory from the pointer on, with the length the caller claims;
  the result is the return value and the memory afterwards.
\<close>

definition format_ppb :: "(string \<times> nat) option \<Rightarrow> u32 \<Rightarrow> int \<times> string option" where
  "format_ppb buf ppb32 =
     (let ppb = unat ppb32
      in if 1000000000 \<le> ppb then (- PX_ERROR_IMPROPER_FRACTION, map_option fst buf)
         else if ppb = 0 then (0, map_option fst buf)
         else
           (let (divisor1, req_len) = ppb_trailing ppb 1 10;
                zeros1 = int req_len - 2;
                divisor = divisor1 div 10;
                digits = ppb div divisor;
                zeros = ppb_leading ppb divisor zeros1
            in case buf of
                 None \<Rightarrow> (int req_len, None)
               | Some (m, buf_len) \<Rightarrow>
                   if buf_len < req_len then (int req_len, Some m)
                   else
                     (let nz = nat zeros;
                          m1 = overwrite m 0 (CHR ''.'' # replicate nz (CHR ''0''));
                          s = fmt_d (as_int digits);
                          m2 = take (Suc nz) m1 @ snprintf (drop (Suc nz) m1) (buf_len - nz) s
                      in if buf_len < length s + nz then (- PX_ERROR_INTERNAL, Some m2)
                         else (int req_len, Some m2))))"

section \<open>Parsing integers\<close>

datatype pax_flag = ALLOW_LEADING_WS | ALLOW_TRAILING_CHARS | SKIP_OVERPRECISE_DIGITS

definition past_end :: "nat option \<Rightarrow> nat \<Rightarrow> bool" where
  "past_end end_p off \<longleftrightarrow> (case end_p of None \<Rightarrow> False | Some e \<Rightarrow> e < off)"

definition short_of_end :: "nat option \<Rightarrow> nat \<Rightarrow> bool" where
  "short_of_end end_p off \<longleftrightarrow> (case end_p of None \<Rightarrow> False | Some e \<Rightarrow> off \<noteq> e)"

definition parse_u64 ::
  "string \<Rightarrow> nat option \<Rightarrow> nat \<Rightarrow> pax_flag set \<Rightarrow> px_status + u64 \<times> nat" where
  "parse_u64 parse end_p base flags =
     (let ws = length (takeWhile isspace parse); p = drop ws parse
      in if 0 < ws \<and> ALLOW_LEADING_WS \<notin> flags then Inl PX_ERROR_LEADING_CHARS
         else if fst (strtoll base p) < 0 then Inl PX_ERROR_RANGE
         else (case strtoull base p of (conv, off, errno) \<Rightarrow>
           if conv = 0 \<and> errno = Some EINVAL then Inl PX_ERROR_INVALID
           else if (conv = 0 \<or> conv = ULLONG_MAX) \<and> errno = Some ERANGE then Inl PX_ERROR_RANGE
           else if past_end end_p (ws + off) then Inl PX_ERROR_MALFORMED
           else if ALLOW_TRAILING_CHARS \<notin> flags \<and> short_of_end end_p (ws + off)
             then Inl PX_ERROR_TRAILING_CHARS
           else Inr (word_of_nat conv, ws + off)))"

definition parse_i64 ::
  "string \<Rightarrow> nat option \<Rightarrow> nat \<Rightarrow> pax_flag set \<Rightarrow> px_status + i64 \<times> nat" where
  "parse_i64 parse end_p base flags =
     (let ws = length (takeWhile isspace parse); p = drop ws parse
      in if 0 < ws \<and> ALLOW_LEADING_WS \<notin> flags then Inl PX_ERROR_LEADING_CHARS
         else (case strtoll base p of (conv, off, errno) \<Rightarrow>
           if conv = 0 \<and> errno = Some EINVAL then Inl PX_ERROR_INVALID
           else if (conv = LLONG_MAX \<or> conv = LLONG_MIN) \<and> errno = Some ERANGE
             then Inl PX_ERROR_RANGE
           else if past_end end_p (ws + off) then Inl PX_ERROR_MALFORMED
           else if ALLOW_TRAILING_CHARS \<notin> flags \<and> short_of_end end_p (ws + off)
             then Inl PX_ERROR_TRAILING_CHARS
           else Inr (word_of_int conv, ws + off)))"

section \<open>Parsing a fraction\<close>

record pax_fpart =
  numerator :: nat
  denominator :: nat

definition INT64_MAX :: nat where
  "INT64_MAX = 2 ^ 63 - 1"

text \<open>
  The digit loop. When the fraction is too precise and the digits are to be skipped, the
  \<^verbatim>\<open>continue\<close> of the code skips the increment of the pointer as well, so the loop
  calls itself with the same arguments.
\<close>

partial_function (option) fpart_digits ::
  "string \<Rightarrow> nat \<Rightarrow> pax_flag set \<Rightarrow> nat \<Rightarrow> bool \<Rightarrow> nat \<Rightarrow> nat \<Rightarrow>
   (px_status + nat \<times> nat \<times> nat) option" where
  "fpart_digits s end_p flags parse too_precise num den =
     (if parse \<le> end_p \<and> parse < length s \<and> isdigit (s ! parse) then
        (if too_precise then fpart_digits s end_p flags parse too_precise num den
         else
           (let num' = num * 10 + digit_val (s ! parse); den' = den * 10
            in if INT64_MAX div 10 < den' then
                 (if SKIP_OVERPRECISE_DIGITS \<in> flags
                  then fpart_digits s end_p flags (Suc parse) True num' den'
                  else Some (Inl PX_ERROR_FPART_TOO_PRECISE))
               else fpart_digits s end_p flags (Suc parse) False num' den'))
      else Some (Inr (parse, num, den)))"

definition parse_fpart ::
  "string \<Rightarrow> nat \<Rightarrow> pax_flag set \<Rightarrow> (px_status + pax_fpart \<times> nat) option" where
  "parse_fpart s end_p flags =
     (if ALLOW_LEADING_WS \<in> flags then Some (Inl PX_ERROR_INVALID)
      else Option.bind (fpart_digits s end_p flags 0 False 0 1) (\<lambda>r. Some (case r of
        Inl st \<Rightarrow> Inl st
      | Inr (end_conv, num, den) \<Rightarrow>
          if end_p < end_conv then Inl PX_ERROR_MALFORMED
          else if ALLOW_TRAILING_CHARS \<notin> flags \<and> end_conv \<noteq> end_p
            then Inl PX_ERROR_TRAILING_CHARS
          else Inr (\<lparr>numerator = num, denominator = den\<rparr>, end_conv))))"

definition fpart_to_ppb :: "pax_fpart \<Rightarrow> px_status + u32" where
  "fpart_to_ppb fpart =
     (if denominator fpart = 0 then Inl PX_ERROR_DIV_ZERO
      else if denominator fpart \<le> numerator fpart then Inl PX_ERROR_IMPROPER_FRACTION
      else
        (let result =
           (if denominator fpart < 1000000000
            then (1000000000 div denominator fpart) * numerator fpart
            else numerator fpart div (denominator fpart div 1000000000))
         in if 1000000000 \<le> result then Inl PX_ERROR_INVALID else Inr (word_of_nat result)))"

section \<open>Sizes: lemmas\<close>

lemma strtosize_t_fmt_u:
  assumes "0 < n" "n < SIZE_MAX" "ends_digits 10 t"
  shows "strtosize_t en (fmt_u n @ t) 10 = (PX_SUCCESS, n, length (fmt_u n))"
proof -
  have "strtoull 10 (fmt_u n @ t) = (n, length (fmt_u n), None)"
    using strtoull_digits [where ds = "fmt_u n", OF fmt_u_digits, where t = t] assms
    by (simp add: ULLONG_MAX_def SIZE_MAX_def)
  with assms show ?thesis
    by (simp add: strtosize_t_def)
qed

lemma strtosize_t_fmt_o:
  assumes "0 < n" "n < SIZE_MAX" "ends_digits 8 t"
  shows "strtosize_t en (fmt_o k n @ t) 8 = (PX_SUCCESS, n, length (fmt_o k n))"
proof -
  have "strtoull 8 (fmt_o k n @ t) = (n, length (fmt_o k n), None)"
    using strtoull_digits [where ds = "fmt_o k n", OF fmt_o_digits, where t = t] assms
    by (simp add: ULLONG_MAX_def SIZE_MAX_def)
  with assms show ?thesis
    by (simp add: strtosize_t_def)
qed

lemma round_up_less:
  assumes "0 < (b::nat)"
  shows "n \<le> (n div b + (if n mod b \<noteq> 0 then 1 else 0)) * b"
    and "(n div b + (if n mod b \<noteq> 0 then 1 else 0)) * b < n + b"
proof -
  define up where "up = (n div b + (if n mod b \<noteq> 0 then 1 else 0)) * b"
  have "n = n div b * b + n mod b"
    by simp
  moreover have "n mod b < b"
    using assms by simp
  moreover have "up = n div b * b + (if n mod b \<noteq> 0 then b else 0)"
    by (simp add: up_def algebra_simps)
  ultimately have "n \<le> up \<and> up < n + b"
    by (cases "n mod b = 0") (simp_all only: if_True if_False simp_thms, linarith+)
  then show "n \<le> (n div b + (if n mod b \<noteq> 0 then 1 else 0)) * b"
    and "(n div b + (if n mod b \<noteq> 0 then 1 else 0)) * b < n + b"
    by (simp_all add: up_def)
qed

lemma round_to_block_bounds:
  assumes "0 < b" "n + b \<le> 2 ^ 64"
  shows "n \<le> round_to_block n b" "round_to_block n b < n + b" "b dvd round_to_block n b"
proof -
  have "round_to_block n b = (n div b + (if n mod b \<noteq> 0 then 1 else 0)) * b"
    unfolding round_to_block_def using round_up_less(2) [OF assms(1), of n] assms(2) by simp
  then show "n \<le> round_to_block n b" "round_to_block n b < n + b" "b dvd round_to_block n b"
    using round_up_less [OF assms(1), of n] by simp_all
qed

section \<open>Printing a fraction: lemmas\<close>

lemma ppb_trailing_spec:
  assumes "0 < ppb" "10 ^ j dvd ppb"
  shows "\<exists>t. j \<le> t \<and> ppb_trailing ppb (10 ^ j) req = (10 ^ Suc t, req - (t - j)) \<and>
    10 ^ t dvd ppb \<and> \<not> 10 ^ Suc t dvd ppb"
  using assms
proof (induction "ppb - 10 ^ j" arbitrary: j req rule: less_induct)
  case less
  show ?case
  proof (cases "10 ^ Suc j dvd ppb")
    case True
    then have "10 ^ Suc j \<le> ppb"
      using less.prems by (blast intro: dvd_imp_le)
    moreover have "(10::nat) ^ j < 10 ^ Suc j"
      by simp
    ultimately have "ppb - 10 ^ Suc j < ppb - 10 ^ j"
      by linarith
    from less.hyps [OF this less.prems(1) True, of "req - 1"]
    obtain t where t: "Suc j \<le> t" "ppb_trailing ppb (10 ^ Suc j) (req - 1) =
        (10 ^ Suc t, req - 1 - (t - Suc j))" "10 ^ t dvd ppb" "\<not> 10 ^ Suc t dvd ppb"
      by blast
    have "ppb_trailing ppb (10 ^ j) req = ppb_trailing ppb (10 ^ Suc j) (req - 1)"
      using True less.prems by (simp add: ppb_trailing.simps [of ppb "10 ^ j"] mult.commute)
    with t show ?thesis
      by (intro exI [of _ t]) auto
  next
    case False
    have "ppb_trailing ppb (10 ^ j) req = (10 ^ Suc j, req)"
      using False less.prems
      by (simp add: ppb_trailing.simps [of ppb "10 ^ j"] mod_eq_0_iff_dvd mult.commute)
    with False less.prems show ?thesis
      by (intro exI [of _ j]) auto
  qed
qed

lemma ppb_leading_spec:
  "0 < divisor \<Longrightarrow>
   ppb_leading ppb divisor zeros = zeros - int (length (fmt_u (ppb div divisor))) + 1"
proof (induction ppb divisor zeros rule: ppb_leading.induct)
  case (1 ppb divisor zeros)
  show ?case
  proof (cases "ppb div (divisor * 10) = 0")
    case True
    then have "ppb div divisor < 10"
      by (simp add: div_mult2_eq)
    then have "length (fmt_u (ppb div divisor)) = 1"
      by (simp add: to_base.simps)
    with True "1.prems" show ?thesis
      by (simp add: ppb_leading.simps [of ppb divisor])
  next
    case False
    then have big: "\<not> ppb div divisor < 10"
      by (simp add: div_mult2_eq)
    then have "length (fmt_u (ppb div divisor)) = Suc (length (fmt_u (ppb div (divisor * 10))))"
      by (subst to_base.simps) (simp add: div_mult2_eq)
    moreover have "ppb_leading ppb (divisor * 10) (zeros - 1) =
        zeros - 1 - int (length (fmt_u (ppb div (divisor * 10)))) + 1"
      using "1.IH" [OF refl] False "1.prems" by simp
    moreover have "ppb_leading ppb divisor zeros = ppb_leading ppb (divisor * 10) (zeros - 1)"
      using False "1.prems" by (subst ppb_leading.simps) (simp add: Let_def)
    ultimately show ?thesis
      by simp
  qed
qed

text \<open>
  The documented form of a fraction: a decimal point and nine digits, without the trailing
  zeros.
\<close>

definition ppb_text :: "nat \<Rightarrow> string" where
  "ppb_text ppb =
     CHR ''.'' # rev (dropWhile (\<lambda>c. c = CHR ''0'')
       (rev (replicate (9 - length (fmt_u ppb)) (CHR ''0'') @ fmt_u ppb)))"

lemma fmt_u_mult_pow: "0 < q \<Longrightarrow> fmt_u (q * 10 ^ t) = fmt_u q @ replicate t (CHR ''0'')"
proof (induction t)
  case 0
  then show ?case by simp
next
  case (Suc t)
  have "fmt_u (q * 10 ^ Suc t) = fmt_u (q * 10 ^ t) @ [digit_char 0]"
    using Suc.prems by (subst to_base.simps) simp
  with Suc show ?case
    by (simp add: replicate_append_same)
qed

lemma fmt_u_last: "\<not> 10 dvd q \<Longrightarrow> last (fmt_u q) \<noteq> CHR ''0''"
proof
  assume q: "\<not> 10 dvd q" and "last (fmt_u q) = CHR ''0''"
  moreover have "last (fmt_u q) = digit_char (q mod 10)"
    by (subst to_base.simps) simp
  ultimately have "digit_val (digit_char (q mod 10)) = digit_val (CHR ''0'')"
    by simp
  then have "q mod 10 = 0"
    by (simp add: digit_val_def [of "CHR ''0''"])
  with q show False
    by (simp add: mod_eq_0_iff_dvd)
qed

lemma ppb_text_decomp:
  assumes "0 < q" "\<not> 10 dvd q" "q * 10 ^ t < 10 ^ 9"
  shows "ppb_text (q * 10 ^ t) =
      CHR ''.'' # replicate (9 - t - length (fmt_u q)) (CHR ''0'') @ fmt_u q"
    and "t + length (fmt_u q) \<le> 9"
proof -
  have len: "length (fmt_u (q * 10 ^ t)) = length (fmt_u q) + t"
    using assms(1) by (simp add: fmt_u_mult_pow)
  have "length (fmt_u (q * 10 ^ t)) \<le> 9"
    using assms(3) by (simp add: length_to_base_le)
  with len show "t + length (fmt_u q) \<le> 9"
    by simp
  have drop: "dropWhile (\<lambda>c. c = CHR ''0'') (replicate t (CHR ''0'') @ rev (fmt_u q) @ r) =
      rev (fmt_u q) @ r" for r
    using fmt_u_last [OF assms(2)] by (cases "fmt_u q" rule: rev_cases) auto
  show "ppb_text (q * 10 ^ t) =
      CHR ''.'' # replicate (9 - t - length (fmt_u q)) (CHR ''0'') @ fmt_u q"
    using assms(1) by (simp add: ppb_text_def fmt_u_mult_pow drop diff_diff_add add.commute)
qed

lemma pow10_decomp:
  assumes "0 < (n::nat)" "10 ^ t dvd n" "\<not> 10 ^ Suc t dvd n"
  obtains q where "n = q * 10 ^ t" "0 < q" "\<not> 10 dvd q"
proof -
  from assms(2) obtain q where "n = 10 ^ t * q" ..
  with assms show thesis
    by (intro that [of q]) auto
qed

text \<open>What both loops of \<open>format_ppb\<close> compute, for a fraction \<open>q * 10 ^ t\<close>.\<close>

lemma ppb_loops:
  assumes "0 < q" "\<not> 10 dvd q" "q * 10 ^ t < 10 ^ 9"
  shows "ppb_trailing (q * 10 ^ t) 1 10 = (10 ^ Suc t, 10 - t)"
    and "ppb_leading (q * 10 ^ t) (10 ^ t) (int (10 - t) - 2) =
      int (9 - t - length (fmt_u q))"
proof -
  have "0 < q * 10 ^ t"
    using assms(1) by simp
  from ppb_trailing_spec [OF this, of 0 10] obtain u where
    u: "ppb_trailing (q * 10 ^ t) 1 10 = (10 ^ Suc u, 10 - u)"
      "10 ^ u dvd q * 10 ^ t" "\<not> 10 ^ Suc u dvd q * 10 ^ t"
    by auto
  have "u \<ge> t"
    using u(3) by (metis dvd_triv_right dvd_trans le_imp_power_dvd not_less_eq_eq)
  moreover have "u \<le> t"
  proof (rule ccontr)
    assume "\<not> u \<le> t"
    then have "10 ^ Suc t dvd q * 10 ^ t"
      using u(2) by (metis dvd_trans le_imp_power_dvd not_less_eq_eq)
    with assms(2) show False
      by simp
  qed
  ultimately show "ppb_trailing (q * 10 ^ t) 1 10 = (10 ^ Suc t, 10 - t)"
    using u(1) by simp
  show "ppb_leading (q * 10 ^ t) (10 ^ t) (int (10 - t) - 2) =
      int (9 - t - length (fmt_u q))"
    using ppb_text_decomp(2) [OF assms] by (simp add: ppb_leading_spec of_nat_diff)
qed

lemma ppb_cases:
  assumes "0 < unat ppb" "unat ppb < 1000000000"
  obtains q t where "unat ppb = q * 10 ^ t" "0 < q" "\<not> 10 dvd q" "q * 10 ^ t < 10 ^ 9"
proof -
  obtain t where t: "10 ^ t dvd unat ppb" "\<not> 10 ^ Suc t dvd unat ppb"
    using ppb_trailing_spec [OF assms(1), of 0 0] by auto
  from pow10_decomp [OF assms(1) this] obtain q where
    "unat ppb = q * 10 ^ t" "0 < q" "\<not> 10 dvd q"
    by blast
  with assms(2) show thesis
    by (intro that [of q t]) simp_all
qed

lemma format_ppb_length:
  assumes "0 < unat ppb" "unat ppb < 1000000000"
  shows "format_ppb None ppb = (int (length (ppb_text (unat ppb))), None)"
proof -
  from ppb_cases [OF assms] obtain q t where
    ppb: "unat ppb = q * 10 ^ t" and qt: "0 < q" "\<not> 10 dvd q" "q * 10 ^ t < 10 ^ 9"
    by blast
  have "length (ppb_text (unat ppb)) = 10 - t"
    using ppb_text_decomp [OF qt] by (simp add: ppb)
  then show ?thesis
    using assms ppb_loops(1) [OF qt] by (simp add: format_ppb_def ppb Let_def)
qed

lemma snprintf_fits:
  "length s < n \<Longrightarrow> snprintf m n s = s @ NUL # drop (Suc (length s)) m"
  by (simp add: snprintf_def Let_def)

lemma format_ppb_buffer:
  assumes "0 < unat ppb" "unat ppb < 1000000000" "length (ppb_text (unat ppb)) \<le> n"
  shows "format_ppb (Some (m, n)) ppb =
    (int (length (ppb_text (unat ppb))), Some (overwrite m 0 (ppb_text (unat ppb) @ [NUL])))"
proof -
  from ppb_cases [OF assms(1,2)] obtain q t where
    ppb: "unat ppb = q * 10 ^ t" and qt: "0 < q" "\<not> 10 dvd q" "q * 10 ^ t < 10 ^ 9"
    by blast
  define nz where "nz = 9 - t - length (fmt_u q)"
  have tx: "ppb_text (unat ppb) = CHR ''.'' # replicate nz (CHR ''0'') @ fmt_u q"
    and len: "length (ppb_text (unat ppb)) = 10 - t" "t + length (fmt_u q) \<le> 9"
    using ppb_text_decomp [OF qt] by (simp_all add: ppb nz_def)
  have "q \<le> q * 10 ^ t"
    by simp
  then have "q < 10 ^ 9"
    using qt(3) by (rule le_less_trans)
  then have "q < 2 ^ 31"
    by simp
  then have s: "fmt_d (as_int q) = fmt_u q"
    by (simp add: as_int_small fmt_d_def)
  have fits: "length (fmt_u q) < n - nz" "nz + length (fmt_u q) \<le> n"
    using assms(3) len by (simp_all add: nz_def)
  have "10 - t = Suc (nz + length (fmt_u q))"
    using len(2) by (simp add: nz_def)
  moreover have "ppb_leading (q * 10 ^ t) (10 ^ t) (int (10 - t) - 2) = int nz"
    using ppb_loops(2) [OF qt] by (simp add: nz_def)
  ultimately show ?thesis
    using assms(3) ppb_loops(1) [OF qt] fits qt(1,3) tx
    by (simp add: format_ppb_def s snprintf_fits overwrite_def Let_def ppb add.commute)
qed

section \<open>Parsing a fraction: lemmas\<close>

text \<open>The digits the loop can read before the end pointer.\<close>

definition fpart_run :: "string \<Rightarrow> nat \<Rightarrow> string" where
  "fpart_run s e = takeWhile isdigit (take (Suc e) s)"

lemma fpart_run_nth:
  assumes "i < length (fpart_run s e)"
  shows "i \<le> e" "i < length s" "isdigit (s ! i)" "fpart_run s e ! i = s ! i"
proof -
  have "i < length (take (Suc e) s)"
    using assms length_takeWhile_le less_le_trans unfolding fpart_run_def by blast
  then show "i \<le> e" "i < length s"
    by simp_all
  have "fpart_run s e ! i = s ! i"
    using assms \<open>i \<le> e\<close> by (simp add: fpart_run_def takeWhile_nth)
  moreover have "fpart_run s e ! i \<in> set (fpart_run s e)"
    using assms by simp
  ultimately show "isdigit (s ! i)" "fpart_run s e ! i = s ! i"
    unfolding fpart_run_def by (auto dest: set_takeWhileD)
qed

lemma fpart_run_end:
  assumes "length (fpart_run s e) \<le> e" "length (fpart_run s e) < length s"
  shows "\<not> isdigit (s ! length (fpart_run s e))"
  using assms nth_length_takeWhile [of isdigit "take (Suc e) s"] by (simp add: fpart_run_def)

lemma pow10_precise:
  assumes "k \<le> 18" shows "INT64_MAX div 10 < 10 ^ k \<longleftrightarrow> k = 18"
proof (cases "k = 18")
  case False
  with assms have "(10::nat) ^ k \<le> 10 ^ 17"
    by (intro power_increasing) auto
  with False show ?thesis
    by (simp add: INT64_MAX_def)
qed (simp add: INT64_MAX_def)

text \<open>After \<open>k\<close> digits, at most 18 of them.\<close>

lemma fpart_digits_step:
  assumes "SKIP_OVERPRECISE_DIGITS \<in> flags" "k \<le> length (fpart_run s e)" "k \<le> 18"
  shows "fpart_digits s e flags 0 False 0 1 =
    fpart_digits s e flags k (k = 18) (digits_value 10 (take k (fpart_run s e))) (10 ^ k)"
  using assms(2,3)
proof (induction k)
  case 0
  then show ?case by (simp add: digits_value_def)
next
  case (Suc k)
  then have k: "k < length (fpart_run s e)" "k < 18"
    by simp_all
  have dv: "digits_value 10 (take (Suc k) (fpart_run s e)) =
      digits_value 10 (take k (fpart_run s e)) * 10 + digit_val (s ! k)"
    using fpart_run_nth(4) [OF k(1)] by (simp add: take_Suc_conv_app_nth k digits_value_snoc)
  have "INT64_MAX div 10 < 10 ^ Suc k \<longleftrightarrow> Suc k = 18"
    using k by (intro pow10_precise) simp
  then have "fpart_digits s e flags k False
      (digits_value 10 (take k (fpart_run s e))) (10 ^ k) =
    fpart_digits s e flags (Suc k) (Suc k = 18)
      (digits_value 10 (take (Suc k) (fpart_run s e))) (10 ^ Suc k)"
    using fpart_run_nth [OF k(1)] assms(1)
    by (subst fpart_digits.simps) (simp add: Let_def dv mult.commute)
  with Suc k show ?case
    by simp
qed

lemma fpart_digits_hangs:
  assumes "parse \<le> e" "parse < length s" "isdigit (s ! parse)"
  shows "fpart_digits s e flags parse True num den = None"
proof (rule ccontr)
  assume "fpart_digits s e flags parse True num den \<noteq> None"
  then obtain r where r: "fpart_digits s e flags parse True num den = Some r"
    by blast
  have "\<not> (parse \<le> e \<and> parse < length s \<and> isdigit (s ! parse) \<and> True)"
    by (rule fpart_digits.raw_induct [where
          P = "\<lambda>s e flags parse tp num den r.
            \<not> (parse \<le> e \<and> parse < length s \<and> isdigit (s ! parse) \<and> tp)", OF _ r])
      (auto split: if_splits, blast)
  with assms show False
    by simp
qed

text \<open>
  The fraction parser returns exactly when at most 18 digits precede the end pointer; it then
  returns their value.
\<close>

lemma fpart_digits_result:
  assumes "SKIP_OVERPRECISE_DIGITS \<in> flags"
  shows "fpart_digits s e flags 0 False 0 1 =
    (if length (fpart_run s e) \<le> 18
     then Some (Inr (length (fpart_run s e), digits_value 10 (fpart_run s e),
       10 ^ length (fpart_run s e)))
     else None)"
proof (cases "length (fpart_run s e) \<le> 18")
  case True
  let ?n = "length (fpart_run s e)"
  have "\<not> (?n \<le> e \<and> ?n < length s \<and> isdigit (s ! ?n))"
    using fpart_run_end [of s e] by blast
  then have "fpart_digits s e flags ?n (?n = 18) v d = Some (Inr (?n, v, d))" for v d
    by (subst fpart_digits.simps) auto
  with fpart_digits_step [OF assms _ True] True show ?thesis
    by simp
next
  case False
  then have n: "18 < length (fpart_run s e)"
    by simp
  have "fpart_digits s e flags 18 True v d = None" for v d
    using fpart_run_nth [OF n] by (intro fpart_digits_hangs)
  with fpart_digits_step [OF assms, of 18 s e] False show ?thesis
    by simp
qed

lemmas fpart_digits_start = fpart_digits_result [unfolded One_nat_def]

lemma parse_fpart_digits:
  assumes "\<And>c. c \<in> set ds \<Longrightarrow> isdigit c" "length ds \<le> 18" "ends_digits 10 t" "e = length ds"
  shows "parse_fpart (ds @ t) e {SKIP_OVERPRECISE_DIGITS} =
    Some (Inr (\<lparr>numerator = digits_value 10 ds, denominator = 10 ^ length ds\<rparr>, length ds))"
proof -
  have "fpart_run (ds @ t) e = ds"
    using takeWhile_digits [OF assms(1), where t = "take 1 t"] assms(3,4)
    by (cases t) (auto simp: fpart_run_def ends_digits_def)
  then show ?thesis
    using assms by (simp add: parse_fpart_def fpart_digits_start)
qed

lemma fpart_to_ppb_exact:
  assumes "n < 10 ^ k" "k \<le> 9"
  shows "fpart_to_ppb \<lparr>numerator = n, denominator = 10 ^ k\<rparr> = Inr (word_of_nat (n * 10 ^ (9 - k)))"
proof -
  have pow: "(10::nat) ^ 9 = 10 ^ (9 - k) * 10 ^ k"
    using assms(2) by (simp flip: power_add)
  have "n * 10 ^ (9 - k) < 10 ^ k * 10 ^ (9 - k)"
    using assms(1) by simp
  also have "\<dots> = 1000000000"
    using pow by (simp add: mult.commute)
  finally have less: "n * 10 ^ (9 - k) < 1000000000" .
  have "(10::nat) ^ 9 div 10 ^ k = 10 ^ (9 - k)"
    by (subst pow) simp
  then have div: "(1000000000::nat) div 10 ^ k = 10 ^ (9 - k)"
    by simp
  show ?thesis
  proof (cases "k = 9")
    case True
    then show ?thesis
      using assms less by (simp add: fpart_to_ppb_def)
  next
    case False
    then have "(10::nat) ^ k \<le> 10 ^ 8"
      using assms(2) by (intro power_increasing) auto
    then show ?thesis
      using assms less div by (simp add: fpart_to_ppb_def mult.commute)
  qed
qed

lemma ppb_text_parse:
  assumes "0 < unat ppb" "unat ppb < 1000000000" "ends_digits 10 t"
  shows "\<exists>fp. parse_fpart (tl (ppb_text (unat ppb)) @ t) (length (tl (ppb_text (unat ppb))))
      {SKIP_OVERPRECISE_DIGITS} = Some (Inr (fp, length (tl (ppb_text (unat ppb))))) \<and>
    fpart_to_ppb fp = Inr ppb"
proof -
  from ppb_cases [OF assms(1,2)] obtain q t' where
    ppb: "unat ppb = q * 10 ^ t'" and qt: "0 < q" "\<not> 10 dvd q" "q * 10 ^ t' < 10 ^ 9"
    by blast
  define ds where "ds = replicate (9 - t' - length (fmt_u q)) (CHR ''0'') @ fmt_u q"
  have tl: "tl (ppb_text (unat ppb)) = ds" and len: "length ds = 9 - t'" "t' \<le> 9"
    using ppb_text_decomp [OF qt] by (simp_all add: ppb ds_def)
  have digits: "isdigit c" if "c \<in> set ds" for c
    using that by (auto simp: ds_def isbdigit_def dest: fmt_u_digits split: if_splits)
  have val: "digits_value 10 ds = q"
    by (simp add: ds_def)
  have "parse_fpart (ds @ t) (length ds) {SKIP_OVERPRECISE_DIGITS} =
      Some (Inr (\<lparr>numerator = q, denominator = 10 ^ length ds\<rparr>, length ds))"
    using parse_fpart_digits [where ds = ds, OF digits _ assms(3) refl] len(1) val by simp
  moreover have "q < 10 ^ length ds"
  proof -
    have "q * 10 ^ t' < 10 ^ (9 - t') * 10 ^ t'"
      using qt(3) len(2) by (simp flip: power_add)
    then show ?thesis
      by (simp add: len)
  qed
  then have "fpart_to_ppb \<lparr>numerator = q, denominator = 10 ^ length ds\<rparr> = Inr ppb"
    using fpart_to_ppb_exact [of q "length ds"] len ppb [symmetric] by simp
  ultimately show ?thesis
    by (auto simp: tl)
qed

section \<open>Parsing integers: lemmas\<close>

lemma takeWhile_isspace_digit:
  "ds \<noteq> [] \<Longrightarrow> b \<le> 10 \<Longrightarrow> (\<And>c. c \<in> set ds \<Longrightarrow> isbdigit b c) \<Longrightarrow>
   takeWhile isspace (ds @ t) = []"
  using isbdigit_not_space by (cases ds) auto

lemma parse_u64_digits:
  assumes ds: "\<And>c. c \<in> set ds \<Longrightarrow> isbdigit b c" "ds \<noteq> []" "ends_digits b t" "b \<le> 10"
    and small: "digits_value b ds < 2 ^ 64"
    and fin: "\<not> past_end e (length ds)"
      "ALLOW_TRAILING_CHARS \<in> flags \<or> \<not> short_of_end e (length ds)"
  shows "parse_u64 (ds @ t) e b flags = Inr (word_of_nat (digits_value b ds), length ds)"
  using takeWhile_isspace_digit [OF ds(2,4,1), of t] strtoll_digits [OF ds]
    strtoull_digits [OF ds] small fin
  by (auto simp: parse_u64_def Let_def LLONG_MAX_def ULLONG_MAX_def)

lemma parse_i64_digits:
  assumes ds: "\<And>c. c \<in> set ds \<Longrightarrow> isbdigit b c" "ds \<noteq> []" "ends_digits b t" "b \<le> 10"
    and small: "digits_value b ds < 2 ^ 63"
    and fin: "\<not> past_end e (length ds)"
      "ALLOW_TRAILING_CHARS \<in> flags \<or> \<not> short_of_end e (length ds)"
  shows "parse_i64 (ds @ t) e b flags = Inr (word_of_nat (digits_value b ds), length ds)"
  using takeWhile_isspace_digit [OF ds(2,4,1), of t] strtoll_digits [OF ds] small fin
  by (auto simp: parse_i64_def Let_def LLONG_MAX_def)

lemma sint_i64_bounds: "LLONG_MIN \<le> sint (w :: i64)" "sint (w :: i64) \<le> LLONG_MAX"
  using sint_greater_eq [of w] sint_less [of w] by (simp_all add: LLONG_MIN_def LLONG_MAX_def)

lemma fmt_d_not_space: "takeWhile isspace (fmt_d i @ t) = []"
proof (cases "i < 0")
  case True
  then show ?thesis
    by (simp add: fmt_d_def isspace_def)
next
  case False
  then show ?thesis
    using takeWhile_isspace_digit [of "fmt_u (nat i)" 10 t] fmt_u_digits by (simp add: fmt_d_def)
qed

lemma parse_i64_fmt_d:
  assumes "ends_digits 10 t" "\<not> past_end e (length (fmt_d (sint w)))"
    "ALLOW_TRAILING_CHARS \<in> flags \<or> \<not> short_of_end e (length (fmt_d (sint w)))"
  shows "parse_i64 (fmt_d (sint w) @ t) e 10 flags = Inr (w, length (fmt_d (sint w)))"
  using assms strtoll_fmt_d [OF sint_i64_bounds assms(1)]
  by (auto simp: parse_i64_def Let_def fmt_d_not_space)

lemma format_ppb_improper:
  "1000000000 \<le> unat ppb \<Longrightarrow> format_ppb buf ppb = (305, map_option fst buf)"
  by (simp add: format_ppb_def)

section \<open>Properties\<close>

text \<open>
  C30. Printing a fraction. For every count of nanoseconds between 1 and 999999999 and a
  buffer with room for the text and its NUL, \<open>format_ppb\<close> returns the length of the
  text it documents (a point and the nine digits without trailing zeros) and leaves exactly
  that text and a NUL at the start of the buffer, every later byte unchanged; without a
  buffer it returns the same length.
\<close>

theorem format_ppb_writes_text:
  assumes "0 < unat ppb" "unat ppb < 1000000000" "length (ppb_text (unat ppb)) < n"
  shows "format_ppb (Some (m, n)) ppb =
      (int (length (ppb_text (unat ppb))),
       Some (ppb_text (unat ppb) @ NUL # drop (Suc (length (ppb_text (unat ppb)))) m)) \<and>
    format_ppb None ppb = (int (length (ppb_text (unat ppb))), None)"
  using format_ppb_buffer [of ppb n m] format_ppb_length [of ppb] assms
  by (simp add: overwrite_def)

theorem format_ppb_writes_text_witness:
  "format_ppb (Some (replicate 12 (CHR ''x''), 12)) 120000000 =
     (3, Some (''.12'' @ NUL # replicate 8 (CHR ''x'')))"
proof -
  have "unat (120000000 :: u32) = 120000000"
    by simp
  moreover have "ppb_text 120000000 = ''.12''"
    by (simp add: ppb_text_def clib)
  ultimately show ?thesis
    using format_ppb_writes_text [of 120000000 12 "replicate 12 (CHR ''x'')"] by simp
qed

text \<open>
  C31. A buffer of exactly the returned length is overrun: \<open>format_ppb\<close> accepts it and writes
  the terminating NUL into the byte behind it.
\<close>

theorem format_ppb_exact_buffer_overrun:
  assumes "0 < unat ppb" "unat ppb < 1000000000"
    and "buf_len = length (ppb_text (unat ppb))" "buf_len < length m" "m ! buf_len \<noteq> NUL"
  shows "\<exists>m'. format_ppb (Some (m, buf_len)) ppb = (int buf_len, Some m') \<and>
    m' ! buf_len = NUL \<and> m' ! buf_len \<noteq> m ! buf_len"
proof -
  have "overwrite m 0 (ppb_text (unat ppb) @ [NUL]) ! buf_len = NUL"
    using assms(3) by (simp add: overwrite_def nth_append)
  then show ?thesis
    using format_ppb_buffer [OF assms(1,2), of buf_len m] assms(3,5) by simp
qed

theorem format_ppb_exact_buffer_overrun_witness:
  "\<exists>m'. format_ppb (Some (''abcdef'', 2)) 500000000 = (2, Some m') \<and>
    m' ! 2 = NUL \<and> m' ! 2 \<noteq> ''abcdef'' ! 2"
proof -
  have "2 = length (ppb_text (unat (500000000 :: u32)))"
    by (simp add: ppb_text_def clib)
  then show ?thesis
    using format_ppb_exact_buffer_overrun [of 500000000 2 "''abcdef''", OF _ _ _ _]
    by (simp only: of_nat_numeral) simp
qed

text \<open>
  C32. Round trip of a fraction. The text \<open>format_ppb\<close> prints for a count of nanoseconds,
  read behind its point, is converted by \<open>parse_fpart\<close> and \<open>fpart_to_ppb\<close> to the same
  count, and the read ends at the end of the text.
\<close>

theorem ppb_print_parse_roundtrip:
  assumes "0 < unat ppb" "unat ppb < 1000000000" "length (ppb_text (unat ppb)) < n"
    and "format_ppb (Some (m, n)) ppb = (len, Some m')"
  shows "\<exists>fp. parse_fpart (drop 1 m') (nat len - 1) {SKIP_OVERPRECISE_DIGITS} =
      Some (Inr (fp, nat len - 1)) \<and> fpart_to_ppb fp = Inr ppb"
proof -
  let ?t = "ppb_text (unat ppb)"
  have "nat len = length ?t" "m' = ?t @ NUL # drop (Suc (length ?t)) m"
    using format_ppb_buffer [OF assms(1,2), of n m] assms(3,4) by (auto simp: overwrite_def)
  moreover have "?t \<noteq> []"
    by (simp add: ppb_text_def)
  ultimately show ?thesis
    using ppb_text_parse [OF assms(1,2), of "NUL # drop (Suc (length ?t)) m"]
    by (cases ?t) (auto simp: ends_digits_def isbdigit_def)
qed

theorem ppb_print_parse_roundtrip_witness:
  "\<exists>fp. parse_fpart (''05'' @ NUL # replicate 7 NUL) 2 {SKIP_OVERPRECISE_DIGITS} =
      Some (Inr (fp, 2)) \<and> fpart_to_ppb fp = Inr 50000000"
proof -
  have "ppb_text 50000000 = ''.05''"
    by (simp add: ppb_text_def clib)
  moreover from this have "format_ppb (Some (replicate 11 NUL, 11)) 50000000 =
      (3, Some (''.05'' @ NUL # replicate 7 NUL))"
    using format_ppb_buffer [of 50000000 11 "replicate 11 NUL"] by (simp add: overwrite_def)
  ultimately show ?thesis
    using ppb_print_parse_roundtrip [of 50000000 11 "replicate 11 NUL" 3
      "''.05'' @ NUL # replicate 7 NUL"] by simp
qed

text \<open>
  C33. Reading a fraction returns exactly when it has at most 18 digits. With more digits and
  \<open>SKIP_OVERPRECISE_DIGITS\<close>, the flag meant to skip the digits beyond the precision, the loop
  of \<open>parse_fpart\<close> never ends.
\<close>

theorem parse_fpart_returns_iff:
  "(\<exists>r. parse_fpart s e {SKIP_OVERPRECISE_DIGITS} = Some r) \<longleftrightarrow>
     length (takeWhile isdigit (take (Suc e) s)) \<le> 18"
  by (auto simp: parse_fpart_def fpart_digits_start fpart_run_def)

text \<open>
  C34. Printed integers are read back: the decimal text of every 64-bit signed integer, and
  the decimal or octal text (with any number of leading zeros) of every 64-bit unsigned one,
  ended by a NUL, is converted to the same integer, for every set of flags, and the
  conversion ends at the end of the text.
\<close>

theorem parse_printed_integers:
  "parse_i64 (fmt_d (sint w) @ NUL # r) (Some (length (fmt_d (sint w)))) 10 flags =
     Inr (w, length (fmt_d (sint w))) \<and>
   parse_u64 (fmt_u (unat u) @ NUL # r) (Some (length (fmt_u (unat u)))) 10 flags =
     Inr (u, length (fmt_u (unat u))) \<and>
   parse_u64 (fmt_o p (unat u) @ NUL # r) (Some (length (fmt_o p (unat u)))) 8 flags =
     Inr (u, length (fmt_o p (unat u)))"
proof -
  have u: "unat u < 2 ^ 64"
    using unsigned_less [of u, where ?'a = nat] by simp
  have e: "ends_digits 10 (NUL # r)" "ends_digits 8 (NUL # r)"
    by (simp_all add: ends_digits_def isbdigit_def)
  show ?thesis
    using parse_i64_fmt_d [of "NUL # r" "Some (length (fmt_d (sint w)))" w flags]
      parse_u64_digits [of "fmt_u (unat u)" 10 "NUL # r" "Some (length (fmt_u (unat u)))" flags]
      parse_u64_digits [of "fmt_o p (unat u)" 8 "NUL # r" "Some (length (fmt_o p (unat u)))" flags]
      u e
    by (auto simp: past_end_def short_of_end_def fmt_u_digits dest: fmt_o_digits)
qed

end
