(* ===== verification/Pax_Pair.thy ===== *)
theory Pax_Pair
  imports Pax_Util
begin

text \<open>
  Keyword/value pairs of a pax extended header (src/lib/pax\_hdr/pax\_pair.c): creation, the
  text line of a pair, and parsing a line back into a pair.

  A created pair has one of the four value types and gets its header line on demand. A
  parsed pair keeps its line and converts the value when a getter asks for a type. The
  union of the C struct is the datatype \<open>pax_value\<close>, whose constructor says which member
  was written last. A header line is the allocated area, \<open>line_len\<close> bytes and the NUL
  behind them; \<open>to_string\<close> is an offset into it. Bytes of a fresh allocation that the code
  never writes are modelled as NUL. Lines are taken to be shorter than 2 GB, where snprintf
  would fail.
\<close>

section \<open>The data\<close>

datatype pax_val_type =
    PXP_P_STRING_TYPE | PXP_P_U64_TYPE | PXP_P_I64_TYPE | PXP_P_TIME_TYPE | PXP_LINE_TYPE
  | PXP_I64_TYPE | PXP_U64_TYPE | PXP_TIME_TYPE | PXP_STRING_TYPE

definition IS_PXP_PARSED_TYPE :: "pax_val_type \<Rightarrow> bool" where
  "IS_PXP_PARSED_TYPE t \<longleftrightarrow>
     t \<in> {PXP_P_STRING_TYPE, PXP_P_U64_TYPE, PXP_P_I64_TYPE, PXP_P_TIME_TYPE, PXP_LINE_TYPE}"

record pax_time =
  sec :: i64
  nsec :: u32

datatype pax_value =
    V_none | V_i64 i64 | V_u64 u64 | V_time pax_time | V_string "string option"

record pax_pair =
  keyword :: string
  line_len :: nat
  header_line :: "string option"
  to_string :: "nat option"
  val_type :: pax_val_type
  pvalue :: pax_value

fun i64_val :: "pax_value \<Rightarrow> i64" where
  "i64_val (V_i64 v) = v"
| "i64_val _ = 0"

fun u64_val :: "pax_value \<Rightarrow> u64" where
  "u64_val (V_u64 v) = v"
| "u64_val _ = 0"

fun time_val :: "pax_value \<Rightarrow> pax_time" where
  "time_val (V_time v) = v"
| "time_val _ = \<lparr>sec = 0, nsec = 0\<rparr>"

fun string_val :: "pax_value \<Rightarrow> string option" where
  "string_val (V_string v) = v"
| "string_val _ = None"

section \<open>Creating pairs\<close>

definition pxp_mkpair :: "string \<Rightarrow> pax_val_type \<Rightarrow> pax_pair" where
  "pxp_mkpair kw vt =
     \<lparr>keyword = kw, line_len = 0, header_line = None, to_string = None, val_type = vt,
      pvalue = V_none\<rparr>"

definition pxp_mkpair_i64 :: "string \<Rightarrow> i64 \<Rightarrow> pax_pair" where
  "pxp_mkpair_i64 kw v = (pxp_mkpair kw PXP_I64_TYPE)\<lparr>pvalue := V_i64 v\<rparr>"

definition pxp_mkpair_u64 :: "string \<Rightarrow> u64 \<Rightarrow> pax_pair" where
  "pxp_mkpair_u64 kw v = (pxp_mkpair kw PXP_U64_TYPE)\<lparr>pvalue := V_u64 v\<rparr>"

definition pxp_mkpair_time :: "string \<Rightarrow> pax_time \<Rightarrow> pax_pair" where
  "pxp_mkpair_time kw v = (pxp_mkpair kw PXP_TIME_TYPE)\<lparr>pvalue := V_time v\<rparr>"

definition pxp_mkpair_string :: "string \<Rightarrow> string option \<Rightarrow> pax_pair" where
  "pxp_mkpair_string kw v = (pxp_mkpair kw PXP_STRING_TYPE)\<lparr>pvalue := V_string v\<rparr>"

section \<open>Parsing a line\<close>

definition get_line_len :: "c_errno option \<Rightarrow> string \<Rightarrow> px_status \<times> nat" where
  "get_line_len en line =
     (if line = [] \<or> hd line = NUL then (PX_SUCCESS_NO_MORE_PAIRS, 0)
      else (case strtosize_t en line 10 of (st, len, _) \<Rightarrow> (st, len)))"

text \<open>
  \<open>buffer\<close> is the memory from the buffer pointer on. For a length of 0 the code reads the
  byte before its copy of the line; whatever it finds there, the copy is the empty string
  and the line is rejected.
\<close>

definition pxp_mkpair_line ::
  "c_errno option \<Rightarrow> string \<Rightarrow> nat \<Rightarrow> px_status \<times> pax_pair option \<times> string \<times> nat" where
  "pxp_mkpair_line en buffer buffer_len =
     (case get_line_len en buffer of (st, len) \<Rightarrow>
        if \<not> PXSUCCESS st \<or> st = PX_SUCCESS_NO_MORE_PAIRS then (st, None, buffer, buffer_len)
        else if buffer_len < len then (PX_ERROR_END_OF_HEADER, None, buffer, buffer_len)
        else
          (let line = take len buffer @ [NUL]
           in if len = 0 \<or> line ! (len - 1) \<noteq> CHR 0x0A
              then (PX_ERROR_MALFORMED, None, buffer, buffer_len)
              else (case strchr line (CHR '' '') of
                None \<Rightarrow> (PX_ERROR_MALFORMED, None, buffer, buffer_len)
              | Some sp \<Rightarrow>
                  (let parse = Suc sp
                   in case strchr (drop parse line) (CHR ''='') of
                     None \<Rightarrow> (PX_ERROR_MALFORMED, None, buffer, buffer_len)
                   | Some key_len \<Rightarrow>
                       if key_len = 0 then (PX_ERROR_NO_KEY, None, buffer, buffer_len)
                       else
                         (PX_SUCCESS,
                          Some \<lparr>keyword = take key_len (drop parse line), line_len = len,
                            header_line = Some line, to_string = Some (parse + key_len + 1),
                            val_type = PXP_LINE_TYPE, pvalue = V_none\<rparr>,
                          drop len buffer, buffer_len - len)))))"

section \<open>Converting the value of a parsed pair\<close>

text \<open>The text from \<open>to_string\<close> on, and the offset of the line's last byte from there.\<close>

definition value_area :: "pax_pair \<Rightarrow> string" where
  "value_area pair =
     drop (case to_string pair of None \<Rightarrow> 0 | Some i \<Rightarrow> i)
       (case header_line pair of None \<Rightarrow> [] | Some l \<Rightarrow> l)"

definition value_end :: "pax_pair \<Rightarrow> nat" where
  "value_end pair = line_len pair - 1 - (case to_string pair of None \<Rightarrow> 0 | Some i \<Rightarrow> i)"

definition pxp_parse_val_i64 :: "pax_pair \<Rightarrow> px_status \<times> i64 option \<times> pax_pair" where
  "pxp_parse_val_i64 pair =
     (if \<not> IS_PXP_PARSED_TYPE (val_type pair) then (PX_ERROR_NOT_PARSED, None, pair)
      else if val_type pair = PXP_P_I64_TYPE then (PX_SUCCESS, Some (i64_val (pvalue pair)), pair)
      else (case parse_i64 (value_area pair) (Some (value_end pair)) 10 {} of
        Inl st \<Rightarrow> (st, None, pair)
      | Inr (conv, _) \<Rightarrow>
          (PX_SUCCESS, Some conv, pair\<lparr>pvalue := V_i64 conv, val_type := PXP_P_I64_TYPE\<rparr>)))"

definition pxp_parse_val_u64 :: "pax_pair \<Rightarrow> px_status \<times> u64 option \<times> pax_pair" where
  "pxp_parse_val_u64 pair =
     (if \<not> IS_PXP_PARSED_TYPE (val_type pair) then (PX_ERROR_NOT_PARSED, None, pair)
      else if val_type pair = PXP_P_U64_TYPE then (PX_SUCCESS, Some (u64_val (pvalue pair)), pair)
      else (case parse_u64 (value_area pair) (Some (value_end pair)) 10 {} of
        Inl st \<Rightarrow> (st, None, pair)
      | Inr (conv, _) \<Rightarrow>
          (PX_SUCCESS, Some conv, pair\<lparr>pvalue := V_u64 conv, val_type := PXP_P_U64_TYPE\<rparr>)))"

text \<open>
  A pair whose time was already converted has its value delivered first and is then parsed
  again, as in the code. \<^const>\<open>None\<close> is a call that does not return.
\<close>

definition pxp_parse_val_time ::
  "pax_pair \<Rightarrow> (px_status \<times> pax_time option \<times> pax_pair) option" where
  "pxp_parse_val_time pair =
     (if \<not> IS_PXP_PARSED_TYPE (val_type pair) then Some (PX_ERROR_NOT_PARSED, None, pair)
      else
        (let cached = (if val_type pair = PXP_P_TIME_TYPE then Some (time_val (pvalue pair)) else None);
             area = value_area pair;
             fin = (\<lambda>s n. (PX_SUCCESS, Some \<lparr>sec = s, nsec = n\<rparr>,
               pair\<lparr>pvalue := V_time \<lparr>sec = s, nsec = n\<rparr>, val_type := PXP_P_TIME_TYPE\<rparr>))
         in case parse_i64 area None 10 {ALLOW_TRAILING_CHARS} of
              Inl st \<Rightarrow> Some (st, cached, pair)
            | Inr (conv_sec, next_parse) \<Rightarrow>
                if next_parse = value_end pair then Some (fin conv_sec 0)
                else if \<not> (next_parse < length area \<and> area ! next_parse = CHR ''.'')
                  then Some (PX_ERROR_TRAILING_CHARS, cached, pair)
                else
                  Option.bind
                    (parse_fpart (drop (Suc next_parse) area) (value_end pair - Suc next_parse)
                      {SKIP_OVERPRECISE_DIGITS})
                    (\<lambda>r. Some (case r of
                       Inl st \<Rightarrow> (st, cached, pair)
                     | Inr (fpart, _) \<Rightarrow> (case fpart_to_ppb fpart of
                         Inl st \<Rightarrow> (st, cached, pair)
                       | Inr conv_nsec \<Rightarrow> fin conv_sec conv_nsec)))))"

text \<open>
  On the error path the code frees \<open>value.string_val\<close> and clears it, whatever the pair's
  type is.
\<close>

definition pxp_parse_val_string :: "pax_pair \<Rightarrow> px_status \<times> string option \<times> pax_pair" where
  "pxp_parse_val_string pair =
     (if \<not> IS_PXP_PARSED_TYPE (val_type pair)
      then (PX_ERROR_NOT_PARSED, None, pair\<lparr>pvalue := V_string None\<rparr>)
      else if val_type pair = PXP_P_STRING_TYPE
        then (PX_SUCCESS, string_val (pvalue pair), pair)
      else
        (let v = take (value_end pair) (value_area pair)
         in (PX_SUCCESS, Some v, pair\<lparr>pvalue := V_string (Some v), val_type := PXP_P_STRING_TYPE\<rparr>)))"

section \<open>The line of a pair\<close>

text \<open>The printf format of a line, and the offset its \<open>%n\<close> delivers.\<close>

definition value_text :: "pax_pair \<Rightarrow> string" where
  "value_text pair =
     (case val_type pair of
        PXP_I64_TYPE \<Rightarrow> fmt_d (sint (i64_val (pvalue pair)))
      | PXP_U64_TYPE \<Rightarrow> fmt_u (unat (u64_val (pvalue pair)))
      | PXP_TIME_TYPE \<Rightarrow> fmt_d (sint (sec (time_val (pvalue pair))))
      | _ \<Rightarrow> (case string_val (pvalue pair) of None \<Rightarrow> ''(null)'' | Some s \<Rightarrow> s))"

definition line_head :: "pax_pair \<Rightarrow> string" where
  "line_head pair = fmt_d0 (as_int (line_len pair)) @ '' '' @ keyword pair @ ''=''"

definition format_line :: "pax_pair \<Rightarrow> bool \<Rightarrow> px_status \<times> nat \<times> pax_pair" where
  "format_line pair change_pair =
     (let line = line_head pair @ value_text pair @ [CHR 0x0A];
          offset = length (line_head pair);
          buf = (if change_pair then header_line pair else None);
          buf_len = (if change_pair then line_len pair + 1 else 0);
          req0 = length line;
          buf1 = map_option (\<lambda>m. snprintf m buf_len line) buf;
          fin = (\<lambda>req_len b.
            (if change_pair \<and> buf_len < req_len then PX_ERROR_OVERFLOW else PX_SUCCESS, req_len,
             if change_pair then pair\<lparr>header_line := b, to_string := Some offset\<rparr> else pair))
      in if IS_PXP_PARSED_TYPE (val_type pair) then (PX_ERROR_BAD_TYPE, 0, pair)
         else if val_type pair = PXP_TIME_TYPE \<and> nsec (time_val (pvalue pair)) \<noteq> 0 then
           (let rest = (buf_len + 2 ^ 64 - req0) mod 2 ^ 64;
                (ppb_len, tail) = format_ppb (map_option (\<lambda>m. (drop (req0 - 1) m, rest)) buf1)
                  (nsec (time_val (pvalue pair)))
            in if ppb_len < 0 then (- ppb_len, req0, pair)
               else
                 (let req_len = req0 + nat ppb_len;
                      buf2 = (case (buf1, tail) of (Some m, Some t) \<Rightarrow> Some (take (req0 - 1) m @ t)
                        | _ \<Rightarrow> None);
                      buf3 = map_option (\<lambda>m. if req_len \<le> buf_len
                        then m[req_len - 1 := CHR 0x0A, req_len := NUL] else m) buf2
                  in fin req_len buf3))
         else fin req0 buf1)"

text \<open>
  The digit count loop. The guard on zero only makes it total; the loop starts at ten. The
  multiplication cannot wrap, since it is done below a tenth of the largest size.
\<close>

function count_digits :: "nat \<Rightarrow> nat \<Rightarrow> nat \<Rightarrow> nat \<times> nat" where
  "count_digits len exp ten_exp =
     (if ten_exp < len \<and> ten_exp \<le> SIZE_MAX div 10 \<and> 0 < ten_exp
      then count_digits len (exp + 1) (ten_exp * 10) else (exp, ten_exp))"
  by pat_completeness auto
termination
  by (relation "measure (\<lambda>(len, exp, ten_exp). len - ten_exp)") auto

declare count_digits.simps [simp del]

definition adjust_line_length :: "nat \<Rightarrow> px_status + nat" where
  "adjust_line_length len =
     (let (exp, ten_exp) = count_digits len 1 10;
          adjustment = exp + (if ten_exp - exp \<le> len then 1 else 0)
      in if SIZE_MAX - adjustment < len then Inl PX_ERROR_RANGE else Inr (len + adjustment))"

definition pxp_get_line_len :: "pax_pair \<Rightarrow> px_status + nat" where
  "pxp_get_line_len pair =
     (if IS_PXP_PARSED_TYPE (val_type pair) \<or> header_line pair \<noteq> None
      then Inr (line_len pair)
      else (case format_line pair False of (st, fmt_len, _) \<Rightarrow>
        if \<not> PXSUCCESS st then Inl st else adjust_line_length fmt_len))"

text \<open>The line and its length are delivered only with \<open>PX_SUCCESS\<close>.\<close>

definition pxp_get_line ::
  "pax_pair \<Rightarrow> bool \<Rightarrow> px_status \<times> (string \<times> nat) option \<times> pax_pair" where
  "pxp_get_line pair force =
     (let done = (\<lambda>st p. (st, if st = PX_SUCCESS then map_option (\<lambda>l. (l, line_len p)) (header_line p)
        else None, p))
      in if (IS_PXP_PARSED_TYPE (val_type pair) \<or> \<not> force) \<and> header_line pair \<noteq> None
         then done PX_SUCCESS pair
         else
           (let pair1 = pair\<lparr>header_line := None, to_string := None, line_len := 0\<rparr>
            in case format_line pair1 False of (st, fmt_len, _) \<Rightarrow>
                 if \<not> PXSUCCESS st then done st pair1
                 else (case adjust_line_length fmt_len of
                     Inl st \<Rightarrow> done st pair1
                   | Inr adj_len \<Rightarrow>
                       (case format_line (pair1\<lparr>header_line := Some (replicate (adj_len + 1) NUL),
                            line_len := adj_len\<rparr>) True
                        of (st, _, pair2) \<Rightarrow> done st pair2))))"

section \<open>Getters\<close>

fun type_error_mapping :: "pax_val_type \<Rightarrow> px_status" where
  "type_error_mapping PXP_I64_TYPE = PX_ERROR_I64_TYPE"
| "type_error_mapping PXP_U64_TYPE = PX_ERROR_U64_TYPE"
| "type_error_mapping PXP_TIME_TYPE = PX_ERROR_TIME_TYPE"
| "type_error_mapping _ = PX_ERROR_STRING_TYPE"

definition pxp_get_i64 :: "pax_pair \<Rightarrow> px_status \<times> i64 option \<times> pax_pair" where
  "pxp_get_i64 pair =
     (if IS_PXP_PARSED_TYPE (val_type pair) then pxp_parse_val_i64 pair
      else if val_type pair = PXP_I64_TYPE then (PX_SUCCESS, Some (i64_val (pvalue pair)), pair)
      else (type_error_mapping (val_type pair), None, pair))"

definition pxp_get_u64 :: "pax_pair \<Rightarrow> px_status \<times> u64 option \<times> pax_pair" where
  "pxp_get_u64 pair =
     (if IS_PXP_PARSED_TYPE (val_type pair) then pxp_parse_val_u64 pair
      else if val_type pair = PXP_U64_TYPE then (PX_SUCCESS, Some (u64_val (pvalue pair)), pair)
      else (type_error_mapping (val_type pair), None, pair))"

definition pxp_get_time :: "pax_pair \<Rightarrow> (px_status \<times> pax_time option \<times> pax_pair) option" where
  "pxp_get_time pair =
     (if IS_PXP_PARSED_TYPE (val_type pair) then pxp_parse_val_time pair
      else if val_type pair = PXP_TIME_TYPE
        then Some (PX_SUCCESS, Some (time_val (pvalue pair)), pair)
      else Some (type_error_mapping (val_type pair), None, pair))"

definition pxp_get_string :: "pax_pair \<Rightarrow> px_status \<times> string option \<times> pax_pair" where
  "pxp_get_string pair =
     (if IS_PXP_PARSED_TYPE (val_type pair) then pxp_parse_val_string pair
      else if val_type pair = PXP_STRING_TYPE then (PX_SUCCESS, string_val (pvalue pair), pair)
      else (type_error_mapping (val_type pair), None, pair))"

section \<open>The length field: lemmas\<close>

lemma count_digits_spec:
  assumes "0 < e" "e \<le> 19" "e = 1 \<or> 10 ^ (e - 1) < len"
  shows "\<exists>e'. count_digits len e (10 ^ e) = (e', 10 ^ e') \<and> 0 < e' \<and> e' \<le> 19 \<and>
    (e' = 1 \<or> 10 ^ (e' - 1) < len) \<and> (len \<le> 10 ^ e' \<or> e' = 19)"
  using assms
proof (induction "19 - e" arbitrary: e)
  case 0
  then have "e = 19" by simp
  moreover from this have "count_digits len e (10 ^ e) = (e, 10 ^ e)"
    by (subst count_digits.simps) (simp add: SIZE_MAX_def)
  ultimately show ?case
    using "0.prems" by auto
next
  case (Suc k)
  then have "(10::nat) ^ e \<le> 10 ^ 18"
    by (intro power_increasing) auto
  then have small: "10 ^ e \<le> SIZE_MAX div 10"
    by (simp add: SIZE_MAX_def)
  show ?case
  proof (cases "10 ^ e < len")
    case True
    then have "count_digits len e (10 ^ e) = count_digits len (Suc e) (10 ^ Suc e)"
      using small by (subst count_digits.simps) (simp add: mult.commute)
    moreover have "k = 19 - Suc e" "Suc e \<le> 19"
      using Suc.hyps(2) by simp_all
    ultimately show ?thesis
      using Suc.hyps(1) [of "Suc e"] True by simp
  next
    case False
    then have "count_digits len e (10 ^ e) = (e, 10 ^ e)"
      by (subst count_digits.simps) simp
    with False Suc.prems show ?thesis
      by auto
  qed
qed

lemma length_fmt_u_bounds: "length (fmt_u n) = Suc k \<Longrightarrow> n < 10 ^ Suc k \<and> (k = 0 \<or> 10 ^ k \<le> n)"
  using length_to_base_le [of 10 "Suc k" n] length_to_base_le [of 10 k n] by force

lemma pow10_gt: "(n::nat) < 10 ^ n"
  by (induction n) auto

text \<open>The adjusted length counts its own digits, and is the least length that does.\<close>

lemma adjust_line_length_cases:
  assumes "adjust_line_length len = Inr n"
  obtains e where "0 < e" "e \<le> 19" "e = 1 \<or> 10 ^ (e - 1) < len" "len \<le> 10 ^ e \<or> e = 19"
    "n = len + e \<and> len + e < 10 ^ e \<or> n = len + Suc e \<and> 10 ^ e \<le> len + e" "n \<le> SIZE_MAX"
proof -
  obtain e where e: "count_digits len 1 10 = (e, 10 ^ e)" "0 < e" "e \<le> 19"
    "e = 1 \<or> 10 ^ (e - 1) < len" "len \<le> 10 ^ e \<or> e = 19"
    using count_digits_spec [of 1 len] by auto
  have "e < 10 ^ e"
    by (rule pow10_gt)
  with assms e(1,3) have "n = len + e \<and> len + e < 10 ^ e \<or> n = len + Suc e \<and> 10 ^ e \<le> len + e"
    "n \<le> SIZE_MAX"
    by (auto simp: adjust_line_length_def Let_def SIZE_MAX_def split: if_splits)
  with e show thesis
    by (intro that [of e])
qed

lemma adjust_line_length_fixpoint:
  assumes "adjust_line_length len = Inr n"
  shows "n = len + length (fmt_u n)"
proof -
  from assms obtain e where e: "0 < e" "e \<le> 19" "e = 1 \<or> 10 ^ (e - 1) < len"
    "len \<le> 10 ^ e \<or> e = 19"
    "n = len + e \<and> len + e < 10 ^ e \<or> n = len + Suc e \<and> 10 ^ e \<le> len + e" "n \<le> SIZE_MAX"
    by (rule adjust_line_length_cases)
  from e(5) show ?thesis
  proof (elim disjE conjE)
    assume n: "n = len + e" "len + e < 10 ^ e"
    have "length (fmt_u n) = e"
      using e(1,3) n by (intro length_to_base_eq) auto
    with n show ?thesis by simp
  next
    assume n: "n = len + Suc e" "10 ^ e \<le> len + e"
    have "n < 10 ^ Suc e"
    proof (cases "e = 19")
      case True
      with e(6) show ?thesis
        by (simp add: SIZE_MAX_def)
    next
      case False
      with e(4) n(1) pow10_gt [of e] show ?thesis
        by auto
    qed
    then have "length (fmt_u n) = Suc e"
      using n by (intro length_to_base_eq) auto
    with n show ?thesis by simp
  qed
qed

lemma adjust_line_length_least:
  assumes "adjust_line_length len = Inr n" "m = len + length (fmt_u m)"
  shows "n \<le> m"
proof (rule ccontr)
  assume "\<not> n \<le> m"
  from assms(1) obtain e where e: "0 < e" "e \<le> 19" "e = 1 \<or> 10 ^ (e - 1) < len"
    "len \<le> 10 ^ e \<or> e = 19"
    "n = len + e \<and> len + e < 10 ^ e \<or> n = len + Suc e \<and> 10 ^ e \<le> len + e" "n \<le> SIZE_MAX"
    by (rule adjust_line_length_cases)
  have below: "length (fmt_u m) \<ge> e"
  proof (cases "e = 1")
    case False
    have "\<not> length (fmt_u m) \<le> e - 1"
      using e(1,3) False assms(2) length_to_base_le [of 10 "e - 1" m] by simp
    then show ?thesis by simp
  qed (simp add: Suc_le_eq)
  from e(5) show False
  proof (elim disjE conjE)
    assume "n = len + e"
    with below assms(2) \<open>\<not> n \<le> m\<close> show False by simp
  next
    assume n: "n = len + Suc e" "10 ^ e \<le> len + e"
    with below assms(2) \<open>\<not> n \<le> m\<close> have "length (fmt_u m) = e"
      by simp
    then have "m < 10 ^ e"
      using length_to_base_le [of 10 e m] e(1) by simp
    with n assms(2) \<open>length (fmt_u m) = e\<close> show False by simp
  qed
qed

lemma adjust_line_length_total: "len + 20 \<le> SIZE_MAX \<Longrightarrow> \<exists>n. adjust_line_length len = Inr n"
proof -
  assume len: "len + 20 \<le> SIZE_MAX"
  obtain e where "count_digits len 1 10 = (e, 10 ^ e)" "e \<le> 19"
    using count_digits_spec [of 1 len] by auto
  with len show ?thesis
    by (auto simp: adjust_line_length_def Let_def)
qed

section \<open>Records: the line of a keyword and a value\<close>

text \<open>
  The abstract content of a pair is its keyword and the text of its value. \<open>rec_line\<close> is
  the line pax prescribes for it: the length of the line, a blank, the keyword, an equals
  sign, the text and a newline.
\<close>

definition rec_body :: "string \<Rightarrow> string \<Rightarrow> string" where
  "rec_body kw v = '' '' @ kw @ ''='' @ v @ [CHR 0x0A]"

definition rec_len :: "string \<Rightarrow> string \<Rightarrow> nat" where
  "rec_len kw v = (case adjust_line_length (length (rec_body kw v)) of Inl _ \<Rightarrow> 0 | Inr n \<Rightarrow> n)"

definition rec_line :: "string \<Rightarrow> string \<Rightarrow> string" where
  "rec_line kw v = fmt_u (rec_len kw v) @ rec_body kw v"

definition wf_rec :: "string \<Rightarrow> string \<Rightarrow> bool" where
  "wf_rec kw v \<longleftrightarrow>
     nul_free kw \<and> kw \<noteq> [] \<and> CHR ''='' \<notin> set kw \<and> length kw + length v < 2 ^ 30"

lemma wf_recD:
  assumes "wf_rec kw v"
  shows "nul_free kw" "kw \<noteq> []" "CHR ''='' \<notin> set kw" "length (rec_body kw v) < 2 ^ 30 + 3"
  using assms by (auto simp: wf_rec_def rec_body_def)

lemma rec_len_adjust:
  assumes "wf_rec kw v"
  shows "adjust_line_length (length (rec_body kw v)) = Inr (rec_len kw v)"
    and "rec_len kw v = length (rec_line kw v)"
    and "rec_len kw v < 2 ^ 31" and "0 < rec_len kw v"
proof -
  have "length (rec_body kw v) + 20 \<le> SIZE_MAX"
    using wf_recD(4) [OF assms] by (simp add: SIZE_MAX_def)
  then show adj: "adjust_line_length (length (rec_body kw v)) = Inr (rec_len kw v)"
    using adjust_line_length_total [of "length (rec_body kw v)"] by (auto simp: rec_len_def)
  from adjust_line_length_fixpoint [OF this] show "rec_len kw v = length (rec_line kw v)"
    by (simp add: rec_line_def)
  from adjust_line_length_cases [OF adj] obtain e where
    "e \<le> 19" "rec_len kw v = length (rec_body kw v) + e \<or>
      rec_len kw v = length (rec_body kw v) + Suc e"
    by metis
  then show "rec_len kw v < 2 ^ 31" "0 < rec_len kw v"
    using wf_recD(4) [OF assms] by (auto simp: rec_body_def)
qed

lemma ends_digits_blank [simp]: "b \<le> 10 \<Longrightarrow> ends_digits b ('' '' @ t)"
  by (simp add: ends_digits_def isbdigit_def)

lemma ends_digits_chars [simp]:
  "b \<le> 10 \<Longrightarrow> ends_digits b (CHR 0x0A # t)" "b \<le> 10 \<Longrightarrow> ends_digits b (CHR '' '' # t)"
  "b \<le> 10 \<Longrightarrow> ends_digits b (NUL # t)" "b \<le> 10 \<Longrightarrow> ends_digits b (CHR ''.'' # t)"
  "ends_digits b []"
  by (simp_all add: ends_digits_def isbdigit_def)

lemma fmt_u_no_blank [simp]: "CHR '' '' \<notin> set (fmt_u n)"
  using fmt_u_digits [of "CHR '' ''" n] by (auto simp: isbdigit_def)

subsection \<open>Parsing a record\<close>

definition line_pair :: "string \<Rightarrow> string \<Rightarrow> pax_pair" where
  "line_pair kw v =
     \<lparr>keyword = kw, line_len = rec_len kw v, header_line = Some (rec_line kw v @ [NUL]),
      to_string = Some (length (fmt_u (rec_len kw v)) + length kw + 2),
      val_type = PXP_LINE_TYPE, pvalue = V_none\<rparr>"

lemma get_line_len_rec:
  assumes "wf_rec kw v"
  shows "get_line_len en (rec_line kw v @ rest) = (PX_SUCCESS, rec_len kw v)"
proof -
  let ?n = "rec_len kw v"
  have "rec_line kw v @ rest = fmt_u ?n @ (rec_body kw v @ rest)"
    by (simp add: rec_line_def)
  moreover have "hd (fmt_u ?n @ t) \<noteq> NUL" for t
    using fmt_u_digits [of "hd (fmt_u ?n)" ?n] by (cases "fmt_u ?n") (auto simp: isbdigit_def)
  moreover have "strtosize_t en (fmt_u ?n @ (rec_body kw v @ rest)) 10 =
      (PX_SUCCESS, ?n, length (fmt_u ?n))"
    using rec_len_adjust [OF assms]
    by (intro strtosize_t_fmt_u) (simp_all add: SIZE_MAX_def rec_body_def)
  ultimately show ?thesis
    by (simp add: get_line_len_def)
qed

lemma pxp_mkpair_line_rec:
  assumes wf: "wf_rec kw v" and n: "rec_len kw v \<le> n"
  shows "pxp_mkpair_line en (rec_line kw v @ rest) n =
    (PX_SUCCESS, Some (line_pair kw v), rest, n - rec_len kw v)"
proof -
  let ?d = "fmt_u (rec_len kw v)" and ?l = "rec_line kw v"
  have len: "length ?l = rec_len kw v" "0 < rec_len kw v"
    using rec_len_adjust [OF wf] by simp_all
  have "last ?l = CHR 0x0A" "?l \<noteq> []"
    by (simp_all add: rec_line_def rec_body_def)
  then have nl: "(?l @ [NUL]) ! (rec_len kw v - 1) = CHR 0x0A"
    using len by (simp add: nth_append last_conv_nth)
  have sp: "strchr (?l @ [NUL]) (CHR '' '') = Some (length ?d)"
    using strchr_append [of ?d "CHR '' ''" "kw @ ''='' @ v @ [CHR 0x0A, NUL]"]
    by (simp add: rec_line_def rec_body_def)
  have dr: "drop (Suc (length ?d)) (?l @ [NUL]) = kw @ CHR ''='' # v @ [CHR 0x0A, NUL]"
    by (simp add: rec_line_def rec_body_def)
  have eq: "strchr (kw @ CHR ''='' # v @ [CHR 0x0A, NUL]) (CHR ''='') = Some (length kw)"
    using wf_recD [OF wf] by (intro strchr_append) auto
  have rest: "drop (rec_len kw v) (?l @ rest) = rest"
    by (simp flip: len(1))
  show ?thesis
    using get_line_len_rec [OF wf, of en rest] len n rest wf_recD(2) [OF wf]
    by (simp add: pxp_mkpair_line_def PXSUCCESS_def nl [unfolded One_nat_def] sp dr eq Let_def
        line_pair_def del: drop_append)
qed

subsection \<open>Reading the value of a parsed record\<close>

lemma value_area_rec: "value_area (line_pair kw v) = v @ [CHR 0x0A, NUL]"
  by (simp add: value_area_def line_pair_def rec_line_def rec_body_def)

lemma value_end_rec: "wf_rec kw v \<Longrightarrow> value_end (line_pair kw v) = length v"
  using rec_len_adjust(2) [of kw v]
  by (simp add: value_end_def line_pair_def rec_line_def rec_body_def)

lemma parsed_type_simps [simp]:
  "IS_PXP_PARSED_TYPE PXP_P_STRING_TYPE" "IS_PXP_PARSED_TYPE PXP_P_U64_TYPE"
  "IS_PXP_PARSED_TYPE PXP_P_I64_TYPE" "IS_PXP_PARSED_TYPE PXP_P_TIME_TYPE"
  "IS_PXP_PARSED_TYPE PXP_LINE_TYPE" "\<not> IS_PXP_PARSED_TYPE PXP_I64_TYPE"
  "\<not> IS_PXP_PARSED_TYPE PXP_U64_TYPE" "\<not> IS_PXP_PARSED_TYPE PXP_TIME_TYPE"
  "\<not> IS_PXP_PARSED_TYPE PXP_STRING_TYPE"
  by (simp_all add: IS_PXP_PARSED_TYPE_def)

lemma line_pair_simps [simp]:
  "val_type (line_pair kw v) = PXP_LINE_TYPE" "keyword (line_pair kw v) = kw"
  by (simp_all add: line_pair_def)

lemma pxp_get_i64_rec:
  assumes "wf_rec kw (fmt_d (sint w))"
  shows "pxp_get_i64 (line_pair kw (fmt_d (sint w))) =
    (PX_SUCCESS, Some w,
     (line_pair kw (fmt_d (sint w)))\<lparr>pvalue := V_i64 w, val_type := PXP_P_I64_TYPE\<rparr>)"
  using parse_i64_fmt_d [of "[CHR 0x0A, NUL]" "Some (length (fmt_d (sint w)))" w "{}"]
  by (simp add: pxp_get_i64_def pxp_parse_val_i64_def value_area_rec value_end_rec [OF assms]
      past_end_def short_of_end_def)

lemma pxp_get_u64_rec:
  assumes "wf_rec kw (fmt_u (unat w))"
  shows "pxp_get_u64 (line_pair kw (fmt_u (unat w))) =
    (PX_SUCCESS, Some w,
     (line_pair kw (fmt_u (unat w)))\<lparr>pvalue := V_u64 w, val_type := PXP_P_U64_TYPE\<rparr>)"
  using parse_u64_digits [of "fmt_u (unat w)" 10 "[CHR 0x0A, NUL]" "Some (length (fmt_u (unat w)))" "{}"]
    unsigned_less [of w, where ?'a = nat]
  by (simp add: pxp_get_u64_def pxp_parse_val_u64_def value_area_rec value_end_rec [OF assms]
      past_end_def short_of_end_def fmt_u_digits)

lemma pxp_get_string_rec:
  assumes "wf_rec kw v"
  shows "pxp_get_string (line_pair kw v) =
    (PX_SUCCESS, Some v,
     (line_pair kw v)\<lparr>pvalue := V_string (Some v), val_type := PXP_P_STRING_TYPE\<rparr>)"
  by (simp add: pxp_get_string_def pxp_parse_val_string_def value_area_rec
      value_end_rec [OF assms] Let_def)

text \<open>The text of a time: its seconds, and the fraction when there is one.\<close>

definition time_text :: "pax_time \<Rightarrow> string" where
  "time_text t =
     fmt_d (sint (sec t)) @ (if nsec t = 0 then [] else ppb_text (unat (nsec t)))"

lemma ppb_text_Cons: "ppb_text n = CHR ''.'' # tl (ppb_text n)"
  by (simp add: ppb_text_def)

lemma pxp_get_time_rec:
  assumes wf: "wf_rec kw (time_text t)" and ns: "unat (nsec t) < 1000000000"
  shows "pxp_get_time (line_pair kw (time_text t)) =
    Some (PX_SUCCESS, Some t,
      (line_pair kw (time_text t))\<lparr>pvalue := V_time t, val_type := PXP_P_TIME_TYPE\<rparr>)"
proof -
  let ?s = "fmt_d (sint (sec t))" and ?f = "tl (ppb_text (unat (nsec t)))"
  note defs = pxp_get_time_def pxp_parse_val_time_def value_area_rec Let_def past_end_def
  show ?thesis
  proof (cases "nsec t = 0")
    case True
    then show ?thesis
      using parse_i64_fmt_d [of "[CHR 0x0A, NUL]" None "sec t" "{ALLOW_TRAILING_CHARS}"]
        value_end_rec [OF wf]
      by (simp add: defs time_text_def)
  next
    case False
    then have "0 < unat (nsec t)"
      by (simp add: unat_gt_0)
    from ppb_text_parse [OF this ns, of "[CHR 0x0A, NUL]"] obtain fp where
      fp: "parse_fpart (?f @ [CHR 0x0A, NUL]) (length ?f) {SKIP_OVERPRECISE_DIGITS} =
          Some (Inr (fp, length ?f))" "fpart_to_ppb fp = Inr (nsec t)"
      by auto
    have tx: "time_text t = ?s @ CHR ''.'' # ?f"
      using False ppb_text_Cons [of "unat (nsec t)"] by (simp add: time_text_def)
    have "value_end (line_pair kw (?s @ CHR ''.'' # ?f)) = length ?s + Suc (length ?f)"
      using value_end_rec [OF wf] by (simp add: tx)
    moreover have "value_area (line_pair kw (?s @ CHR ''.'' # ?f)) =
        ?s @ CHR ''.'' # ?f @ [CHR 0x0A, NUL]"
      by (simp add: value_area_rec)
    ultimately show ?thesis
      using parse_i64_fmt_d [of "CHR ''.'' # ?f @ [CHR 0x0A, NUL]" None "sec t"
        "{ALLOW_TRAILING_CHARS}"] fp
      by (simp add: pxp_get_time_def pxp_parse_val_time_def Let_def past_end_def tx nth_append
          del: length_tl)
  qed
qed

subsection \<open>Writing a record\<close>

text \<open>
  The text a pair stands for: the value bytes of its line when it has one, otherwise what
  the value prints as. A pair is well formed when it is a created pair that has no line
  yet, or holds the line of its record.
\<close>

definition pair_text :: "pax_pair \<Rightarrow> string" where
  "pair_text pair =
     (if header_line pair \<noteq> None then take (value_end pair) (value_area pair)
      else if val_type pair = PXP_TIME_TYPE then time_text (time_val (pvalue pair))
      else value_text pair)"

definition with_line :: "pax_pair \<Rightarrow> string \<Rightarrow> pax_pair" where
  "with_line pair v =
     pair\<lparr>line_len := rec_len (keyword pair) v,
       header_line := Some (rec_line (keyword pair) v @ [NUL]),
       to_string := Some (length (fmt_u (rec_len (keyword pair) v)) + length (keyword pair) + 2)\<rparr>"

definition wf_pair :: "pax_pair \<Rightarrow> bool" where
  "wf_pair pair \<longleftrightarrow>
     wf_rec (keyword pair) (pair_text pair) \<and>
     (if header_line pair = None
      then \<not> IS_PXP_PARSED_TYPE (val_type pair) \<and> line_len pair = 0 \<and> to_string pair = None \<and>
        (val_type pair = PXP_TIME_TYPE \<longrightarrow> unat (nsec (time_val (pvalue pair))) < 1000000000)
      else pair = with_line pair (pair_text pair))"

lemma with_line_simps [simp]:
  "keyword (with_line p v) = keyword p" "val_type (with_line p v) = val_type p"
  "pvalue (with_line p v) = pvalue p" "line_len (with_line p v) = rec_len (keyword p) v"
  "header_line (with_line p v) = Some (rec_line (keyword p) v @ [NUL])"
  "with_line (with_line p v) w = with_line p w"
  by (simp_all add: with_line_def)

lemma pair_text_with_line [simp]: "wf_rec (keyword p) v \<Longrightarrow> pair_text (with_line p v) = v"
  using rec_len_adjust(2) [of "keyword p" v]
  by (simp add: pair_text_def with_line_def value_area_def value_end_def rec_line_def rec_body_def)

lemma wf_pair_with_line: "wf_rec (keyword p) v \<Longrightarrow> wf_pair (with_line p v)"
  by (simp add: wf_pair_def)

lemma line_pair_with_line: "line_pair kw v = with_line (pxp_mkpair kw PXP_LINE_TYPE) v"
  by (simp add: line_pair_def with_line_def pxp_mkpair_def)

lemma line_pair_wf:
  assumes "wf_rec kw v"
  shows "wf_pair (line_pair kw v)" "pair_text (line_pair kw v) = v"
  using wf_pair_with_line [of "pxp_mkpair kw PXP_LINE_TYPE" v] assms
  by (simp_all add: line_pair_with_line pxp_mkpair_def)

lemma line_head_0: "line_len p = 0 \<Longrightarrow> line_head p = '' '' @ keyword p @ ''=''"
  by (simp add: line_head_def fmt_d0_def as_int_small [of 0, simplified])

lemma line_head_len: "0 < line_len p \<Longrightarrow> line_len p < 2 ^ 31 \<Longrightarrow>
  line_head p = fmt_u (line_len p) @ '' '' @ keyword p @ ''=''"
  by (simp add: line_head_def fmt_d0_def as_int_small fmt_d_def)

lemma value_text_line [simp]:
  "value_text (p\<lparr>header_line := h\<rparr>) = value_text p"
  "value_text (p\<lparr>to_string := o'\<rparr>) = value_text p"
  "value_text (p\<lparr>line_len := n\<rparr>) = value_text p"
  by (simp_all add: value_text_def cong: pax_val_type.case_cong)

text \<open>The buffer of a time line: the fraction goes over the newline, which moves behind it.\<close>

lemma time_line_buffer:
  fixes a f :: string
  defines "n \<equiv> length a + length f + 1"
  defines "m \<equiv> snprintf (replicate (n + 1) NUL) (n + 1) (a @ [CHR 0x0A])"
  assumes "f \<noteq> []"
  shows "(take (length a) m @ overwrite (drop (length a) m) 0 (f @ [NUL]))
      [n - 1 := CHR 0x0A, n := NUL] = a @ f @ [CHR 0x0A, NUL]"
proof -
  have m: "m = a @ CHR 0x0A # replicate (length f + 1) NUL"
    using assms(3) by (simp add: m_def n_def snprintf_fits)
  have "drop (length f) (replicate (length f + 1) NUL) = [NUL]"
    by (simp only: drop_replicate) simp
  then have "overwrite (CHR 0x0A # replicate (length f + 1) NUL) 0 (f @ [NUL]) = f @ [NUL, NUL]"
    by (simp add: overwrite_def)
  then show ?thesis
    by (simp add: m n_def list_update_append)
qed

lemma format_line_measure:
  assumes "wf_pair p" "header_line p = None"
  shows "format_line (p\<lparr>header_line := None, to_string := None, line_len := 0\<rparr>) False =
    (PX_SUCCESS, length (rec_body (keyword p) (pair_text p)),
     p\<lparr>header_line := None, to_string := None, line_len := 0\<rparr>)"
proof (cases "val_type p = PXP_TIME_TYPE \<and> nsec (time_val (pvalue p)) \<noteq> 0")
  case True
  then have "format_ppb None (nsec (time_val (pvalue p))) =
      (int (length (ppb_text (unat (nsec (time_val (pvalue p)))))), None)"
    using assms by (intro format_ppb_length) (auto simp: wf_pair_def unat_gt_0)
  with True assms(2) show ?thesis
    by (simp add: format_line_def Let_def line_head_0 rec_body_def pair_text_def time_text_def)
      (simp add: value_text_def)
next
  case False
  then have "value_text p = pair_text p"
    using assms(2) by (auto simp: pair_text_def time_text_def value_text_def)
  with False assms show ?thesis
    by (auto simp: format_line_def Let_def line_head_0 rec_body_def wf_pair_def)
qed

lemma format_line_write:
  assumes wf: "wf_pair p" and none: "header_line p = None"
  defines "n \<equiv> rec_len (keyword p) (pair_text p)"
  assumes b: "b = replicate (n + 1) NUL"
  shows "format_line (p\<lparr>header_line := Some b, to_string := None, line_len := n\<rparr>) True =
    (PX_SUCCESS, n, with_line p (pair_text p))"
proof -
  have rec: "wf_rec (keyword p) (pair_text p)"
    using wf by (simp add: wf_pair_def)
  note len = rec_len_adjust [OF rec, folded n_def]
  let ?p = "p\<lparr>header_line := Some b, to_string := None, line_len := n\<rparr>"
  define h where "h = line_head ?p"
  have head: "h = fmt_u n @ '' '' @ keyword p @ ''=''"
    using line_head_len [of ?p] len by (simp add: h_def)
  define l where "l = rec_line (keyword p) (pair_text p)"
  have line: "l = h @ pair_text p @ [CHR 0x0A]" and n: "n = length h + length (pair_text p) + 1"
    using len(2) by (simp_all add: l_def rec_line_def rec_body_def head flip: n_def)
  have "format_line ?p True =
    (PX_SUCCESS, n, ?p\<lparr>header_line := Some (l @ [NUL]), to_string := Some (length h)\<rparr>)"
  proof (cases "val_type p = PXP_TIME_TYPE \<and> nsec (time_val (pvalue p)) \<noteq> 0")
    case False
    then have tx: "value_text p = pair_text p"
      using none by (auto simp: pair_text_def time_text_def value_text_def)
    have "snprintf b (n + 1) (h @ pair_text p @ [CHR 0x0A]) = l @ [NUL]"
      by (simp add: b n snprintf_fits line)
    then show ?thesis
      using False wf none
      by (auto simp: format_line_def Let_def wf_pair_def tx n [simplified, symmetric] simp flip: h_def)
  next
    case True
    define f where "f = ppb_text (unat (nsec (time_val (pvalue p))))"
    define m where "m = snprintf b (Suc n) (h @ value_text p @ [CHR 0x0A])"
    have tx: "pair_text p = value_text p @ f" and "f \<noteq> []"
      using True none
      by (auto simp: pair_text_def time_text_def value_text_def f_def ppb_text_def)
    have n': "n = length h + length (value_text p) + length f + 1"
      by (simp add: n tx)
    have "format_ppb (Some (drop (length h + length (value_text p)) m, length f + 1))
        (nsec (time_val (pvalue p))) =
        (int (length f), Some (overwrite (drop (length h + length (value_text p)) m) 0 (f @ [NUL])))"
      unfolding f_def
      using True wf none by (intro format_ppb_buffer) (auto simp: wf_pair_def unat_gt_0)
    moreover have "(n + 1 + 2 ^ 64 - (length h + (length (value_text p) + 1))) mod 2 ^ 64 =
        (length f + 1 + 2 ^ 64) mod 2 ^ 64"
      by (simp add: n')
    moreover have "(length f + 1 + 2 ^ 64) mod 2 ^ 64 = length f + 1"
      using len(3) n' by (subst mod_add_self2) simp
    moreover have "(take (length h + length (value_text p)) m @
        overwrite (drop (length h + length (value_text p)) m) 0 (f @ [NUL]))
        [n - 1 := CHR 0x0A, n := NUL] = l @ [NUL]"
      using time_line_buffer [OF \<open>f \<noteq> []\<close>, of "h @ value_text p"]
      by (simp add: b n' m_def line tx)
    ultimately show ?thesis
      using True wf none
      by (simp add: format_line_def Let_def wf_pair_def n' [simplified, symmetric] flip: h_def m_def)
  qed
  then show ?thesis
    by (simp add: with_line_def l_def head flip: n_def)
qed

lemma pxp_get_line_wf:
  assumes "wf_pair p"
  shows "pxp_get_line p False =
    (PX_SUCCESS, Some (rec_line (keyword p) (pair_text p) @ [NUL], rec_len (keyword p) (pair_text p)),
     with_line p (pair_text p))"
proof (cases "header_line p = None")
  case True
  have rec: "wf_rec (keyword p) (pair_text p)"
    using assms by (simp add: wf_pair_def)
  have "p\<lparr>header_line := Some b, to_string := None, line_len := n\<rparr> =
      (p\<lparr>header_line := None, to_string := None, line_len := 0\<rparr>)\<lparr>header_line := Some b, line_len := n\<rparr>"
    for b n by simp
  with format_line_write [OF assms True refl] format_line_measure [OF assms True]
    rec_len_adjust(1) [OF rec]
  show ?thesis
    by (simp add: pxp_get_line_def True PXSUCCESS_def Let_def del: replicate_Suc)
next
  case False
  then have "p = with_line p (pair_text p)"
    using assms by (simp add: wf_pair_def)
  moreover have "pxp_get_line p False = (PX_SUCCESS, map_option (\<lambda>l. (l, line_len p)) (header_line p), p)"
    using False by (simp add: pxp_get_line_def Let_def)
  ultimately show ?thesis
    by (metis option.map(2) with_line_simps(4,5))
qed

lemma pxp_get_line_len_wf:
  assumes "wf_pair p"
  shows "pxp_get_line_len p = Inr (rec_len (keyword p) (pair_text p))"
proof (cases "header_line p = None")
  case True
  have rec: "wf_rec (keyword p) (pair_text p)"
    using assms by (simp add: wf_pair_def)
  have "p\<lparr>header_line := None, to_string := None, line_len := 0\<rparr> = p"
    using assms True by (simp add: wf_pair_def)
  then have "format_line p False = (PX_SUCCESS, length (rec_body (keyword p) (pair_text p)), p)"
    using format_line_measure [OF assms True] by simp
  then show ?thesis
    using assms True rec_len_adjust(1) [OF rec]
    by (simp add: pxp_get_line_len_def PXSUCCESS_def wf_pair_def)
next
  case False
  then have "p = with_line p (pair_text p)"
    using assms by (simp add: wf_pair_def)
  with False show ?thesis
    by (metis pxp_get_line_len_def with_line_simps(4))
qed

lemma wf_mkpair:
  "wf_rec kw (fmt_d (sint w)) \<Longrightarrow> wf_pair (pxp_mkpair_i64 kw w)"
  "pair_text (pxp_mkpair_i64 kw w) = fmt_d (sint w)"
  "wf_rec kw (fmt_u (unat u)) \<Longrightarrow> wf_pair (pxp_mkpair_u64 kw u)"
  "pair_text (pxp_mkpair_u64 kw u) = fmt_u (unat u)"
  "wf_rec kw (time_text t) \<Longrightarrow> unat (nsec t) < 1000000000 \<Longrightarrow> wf_pair (pxp_mkpair_time kw t)"
  "pair_text (pxp_mkpair_time kw t) = time_text t"
  "wf_rec kw v \<Longrightarrow> wf_pair (pxp_mkpair_string kw (Some v))"
  "pair_text (pxp_mkpair_string kw (Some v)) = v"
  by (simp_all add: wf_pair_def pair_text_def value_text_def pxp_mkpair_i64_def pxp_mkpair_u64_def
      pxp_mkpair_time_def pxp_mkpair_string_def pxp_mkpair_def)

section \<open>Properties\<close>

text \<open>
  C28. The length field counts itself. When \<open>_adjust_line_length\<close> succeeds, its result is the
  length of the rest of the line plus the number of its own decimal digits, and it is the
  smallest such number; it succeeds for every length up to 20 below the largest size.
\<close>

theorem adjust_line_length_least_fixpoint:
  assumes "len + 20 \<le> SIZE_MAX"
  shows "\<exists>n. adjust_line_length len = Inr n \<and> n = len + length (fmt_u n) \<and>
    (\<nexists>m. m < n \<and> m = len + length (fmt_u m))"
proof -
  obtain n where n: "adjust_line_length len = Inr n"
    using adjust_line_length_total [OF assms] by blast
  have "\<nexists>m. m < n \<and> m = len + length (fmt_u m)"
    using adjust_line_length_least [OF n] by (metis not_le)
  with n show ?thesis
    using adjust_line_length_fixpoint [OF n] by blast
qed

theorem adjust_line_length_least_fixpoint_witness:
  "\<exists>n. adjust_line_length 97 = Inr n \<and> n = 97 + length (fmt_u n) \<and>
    (\<nexists>m. m < n \<and> m = 97 + length (fmt_u m))"
  by (rule adjust_line_length_least_fixpoint) (simp add: SIZE_MAX_def)

text \<open>
  C27. The line of a pair. For every well-formed pair \<open>pxp_get_line\<close> delivers the line pax
  prescribes (its length, a blank, the keyword, an equals sign, the text of the value, a
  newline), whose length field is the length of the line; \<open>pxp_get_line_len\<close> announces that
  length; the pair keeps its keyword and its text, and stays well formed.
\<close>

theorem pxp_get_line_correct:
  assumes "wf_pair p"
  shows "\<exists>n p'. pxp_get_line p False =
      (PX_SUCCESS,
       Some (fmt_u n @ '' '' @ keyword p @ ''='' @ pair_text p @ [CHR 0x0A, NUL], n), p') \<and>
    n = length (fmt_u n @ '' '' @ keyword p @ ''='' @ pair_text p @ [CHR 0x0A]) \<and>
    pxp_get_line_len p = Inr n \<and>
    wf_pair p' \<and> keyword p' = keyword p \<and> pair_text p' = pair_text p \<and> pvalue p' = pvalue p"
proof -
  have rec: "wf_rec (keyword p) (pair_text p)"
    using assms by (simp add: wf_pair_def)
  define n where "n = rec_len (keyword p) (pair_text p)"
  have line: "rec_line (keyword p) (pair_text p) =
      fmt_u n @ '' '' @ keyword p @ ''='' @ pair_text p @ [CHR 0x0A]"
    by (simp add: rec_line_def rec_body_def n_def)
  have "pxp_get_line p False =
      (PX_SUCCESS, Some (fmt_u n @ '' '' @ keyword p @ ''='' @ pair_text p @ [CHR 0x0A, NUL], n),
       with_line p (pair_text p))"
    using pxp_get_line_wf [OF assms, folded n_def, unfolded line] by simp
  moreover have "n = length (fmt_u n @ '' '' @ keyword p @ ''='' @ pair_text p @ [CHR 0x0A])"
    using rec_len_adjust(2) [OF rec, folded n_def, unfolded line] .
  ultimately show ?thesis
    using pxp_get_line_len_wf [OF assms, folded n_def] wf_pair_with_line [OF rec]
      pair_text_with_line [OF rec] with_line_simps(1,3) by blast
qed

lemma wf_rec_sample: "wf_rec ''size'' (fmt_u 1234)" "wf_rec ''mtime'' (time_text \<lparr>sec = 7, nsec = 0\<rparr>)"
  "wf_rec ''path'' ''a=b''" "fmt_u 1234 = ''1234''"
  by (simp_all add: wf_rec_def time_text_def fmt_d_def clib)

theorem pxp_get_line_correct_witness:
  "\<exists>n p'. pxp_get_line (pxp_mkpair_string ''path'' (Some ''a=b'')) False =
      (PX_SUCCESS, Some (fmt_u n @ '' path=a=b'' @ [CHR 0x0A, NUL], n), p')"
  using pxp_get_line_correct [OF wf_mkpair(7) [OF wf_rec_sample(3)]]
  by (auto simp: wf_mkpair(8)) (auto simp: pxp_mkpair_string_def pxp_mkpair_def)

lemma length_fmt_u_u64: "length (fmt_u (unat (u :: u64))) \<le> 20"
  using unsigned_less [of u, where ?'a = nat] by (subst length_to_base_le) simp_all

lemma length_fmt_d_i64: "length (fmt_d (sint (w :: i64))) \<le> 20"
proof -
  have "nat (- sint w) < 10 ^ 19" "nat (sint w) < 10 ^ 19"
    using sint_i64_bounds [of w] by (auto simp: LLONG_MIN_def LLONG_MAX_def)
  then have "length (fmt_u (nat (- sint w))) \<le> 19" "length (fmt_u (nat (sint w))) \<le> 19"
    by (simp_all add: length_to_base_le)
  then show ?thesis
    by (simp add: fmt_d_def)
qed

lemma length_time_text:
  assumes "unat (nsec t) < 1000000000"
  shows "length (time_text t) \<le> 30"
proof (cases "nsec t = 0")
  case False
  then have "0 < unat (nsec t)"
    by (simp add: unat_gt_0)
  from ppb_cases [OF this assms] obtain q k where
    "unat (nsec t) = q * 10 ^ k" "0 < q" "\<not> 10 dvd q" "q * 10 ^ k < 10 ^ 9"
    by blast
  then have "length (ppb_text (unat (nsec t))) \<le> 10"
    using ppb_text_decomp [of q k] by simp
  then show ?thesis
    using length_fmt_d_i64 [of "sec t"] by (simp add: time_text_def)
qed (use length_fmt_d_i64 [of "sec t"] in \<open>simp add: time_text_def\<close>)

lemma keyword_mkpair [simp]:
  "keyword (pxp_mkpair_i64 kw w) = kw" "keyword (pxp_mkpair_u64 kw w) = kw"
  "keyword (pxp_mkpair_time kw t) = kw" "keyword (pxp_mkpair_string kw v) = kw"
  by (simp_all add: pxp_mkpair_i64_def pxp_mkpair_u64_def pxp_mkpair_time_def
      pxp_mkpair_string_def pxp_mkpair_def)

text \<open>
  \<open>line_carries p p'\<close>: the line formatted for \<open>p\<close> is parsed into \<open>p'\<close>, whatever bytes
  follow it and whatever errno was, and exactly the line is consumed.
\<close>

definition line_carries :: "pax_pair \<Rightarrow> pax_pair \<Rightarrow> bool" where
  "line_carries p p' \<longleftrightarrow>
     (\<exists>l n q. pxp_get_line p False = (PX_SUCCESS, Some (l @ [NUL], n), q) \<and> length l = n \<and>
        (\<forall>en rest m. pxp_mkpair_line en (l @ rest) (n + m) = (PX_SUCCESS, Some p', rest, m)))"

lemma line_carries_wf:
  assumes "wf_pair p"
  shows "line_carries p (line_pair (keyword p) (pair_text p))"
proof -
  let ?l = "rec_line (keyword p) (pair_text p)"
  have rec: "wf_rec (keyword p) (pair_text p)"
    using assms by (simp add: wf_pair_def)
  show ?thesis
    unfolding line_carries_def
    using pxp_get_line_wf [OF assms] rec_len_adjust(2) [OF rec, symmetric]
      pxp_mkpair_line_rec [OF rec] by auto
qed

text \<open>
  C25. Round trip of integer pairs. The line \<open>pxp_get_line\<close> formats for a pair with a 64-bit
  signed or unsigned value is parsed by \<open>pxp_mkpair_line\<close>, whatever bytes follow it, into a
  pair with the same keyword whose getter returns the same value.
\<close>

theorem integer_pair_roundtrip:
  assumes "nul_free kw" "kw \<noteq> []" "CHR ''='' \<notin> set kw" "length kw < 2 ^ 29"
  shows "(\<exists>p. line_carries (pxp_mkpair_i64 kw w) p \<and> keyword p = kw \<and>
      fst (snd (pxp_get_i64 p)) = Some w) \<and>
    (\<exists>p. line_carries (pxp_mkpair_u64 kw u) p \<and> keyword p = kw \<and>
      fst (snd (pxp_get_u64 p)) = Some u)"
proof -
  have i: "wf_rec kw (fmt_d (sint w))" and u: "wf_rec kw (fmt_u (unat u))"
    using assms length_fmt_d_i64 [of w] length_fmt_u_u64 [of u] by (simp_all add: wf_rec_def)
  show ?thesis
    using line_carries_wf [OF wf_mkpair(1) [OF i]] pxp_get_i64_rec [OF i]
      line_carries_wf [OF wf_mkpair(3) [OF u]] pxp_get_u64_rec [OF u]
    by (auto simp: wf_mkpair(2,4) intro!: exI)
qed

theorem integer_pair_roundtrip_witness:
  "(\<exists>p. line_carries (pxp_mkpair_i64 ''SUN.dev'' (- 5)) p \<and> keyword p = ''SUN.dev'' \<and>
      fst (snd (pxp_get_i64 p)) = Some (- 5)) \<and>
    (\<exists>p. line_carries (pxp_mkpair_u64 ''SUN.dev'' 99) p \<and> keyword p = ''SUN.dev'' \<and>
      fst (snd (pxp_get_u64 p)) = Some 99)"
  by (rule integer_pair_roundtrip) simp_all

text \<open>
  C18. Round trip of a time. Every pair of a 64-bit count of seconds, negative ones included,
  and a count of nanoseconds below a billion survives formatting and parsing exactly.
\<close>

theorem time_pair_roundtrip:
  assumes "nul_free kw" "kw \<noteq> []" "CHR ''='' \<notin> set kw" "length kw < 2 ^ 29"
    and "unat (nsec t) < 1000000000"
  shows "\<exists>p p'. line_carries (pxp_mkpair_time kw t) p \<and> keyword p = kw \<and>
    pxp_get_time p = Some (PX_SUCCESS, Some t, p')"
proof -
  have "length (time_text t) \<le> 30"
    using length_time_text [OF assms(5)] .
  then have "wf_rec kw (time_text t)"
    using assms by (simp add: wf_rec_def)
  then show ?thesis
    using line_carries_wf [OF wf_mkpair(5)] pxp_get_time_rec assms(5) wf_mkpair(6)
    by (metis keyword_mkpair(3) line_pair_simps(2))
qed

theorem time_pair_roundtrip_witness:
  "\<exists>p p'. line_carries (pxp_mkpair_time ''mtime'' \<lparr>sec = - 1, nsec = 120000000\<rparr>) p \<and>
    keyword p = ''mtime'' \<and>
    pxp_get_time p = Some (PX_SUCCESS, Some \<lparr>sec = - 1, nsec = 120000000\<rparr>, p')"
  by (rule time_pair_roundtrip) simp_all

text \<open>
  C26. Round trip of a string. The line of a string pair is parsed into a pair with the same
  keyword and the same string, which may hold every character of a C string, newlines and equals signs
  included.
\<close>

theorem string_pair_roundtrip:
  assumes "nul_free kw" "kw \<noteq> []" "CHR ''='' \<notin> set kw" "length kw + length v < 2 ^ 30"
  shows "\<exists>p p'. line_carries (pxp_mkpair_string kw (Some v)) p \<and> keyword p = kw \<and>
    pxp_get_string p = (PX_SUCCESS, Some v, p')"
proof -
  have "wf_rec kw v"
    using assms by (simp add: wf_rec_def)
  then show ?thesis
    using line_carries_wf [OF wf_mkpair(7)] pxp_get_string_rec wf_mkpair(8)
    by (metis keyword_mkpair(4) line_pair_simps(2))
qed

theorem string_pair_roundtrip_witness:
  "\<exists>p p'. line_carries (pxp_mkpair_string ''path'' (Some ''a=b'')) p \<and> keyword p = ''path'' \<and>
    pxp_get_string p = (PX_SUCCESS, Some ''a=b'', p')"
  by (rule string_pair_roundtrip) simp_all

lemma format_line_improper:
  assumes "val_type p = PXP_TIME_TYPE" "1000000000 \<le> unat (nsec (time_val (pvalue p)))"
    and "req = length (line_head p @ value_text p @ [CHR 0x0A]) + 305"
  shows "format_line p False = (PX_SUCCESS, req, p)"
    and "header_line p = Some m \<Longrightarrow> req \<le> line_len p + 1 \<Longrightarrow>
      \<exists>m'. format_line p True =
        (PX_SUCCESS, req, p\<lparr>header_line := Some m', to_string := Some (length (line_head p))\<rparr>)"
proof -
  have "nsec (time_val (pvalue p)) \<noteq> 0"
    using assms(2) by (auto simp: unat_eq_0)
  then show "format_line p False = (PX_SUCCESS, req, p)"
    and "header_line p = Some m \<Longrightarrow> req \<le> line_len p + 1 \<Longrightarrow>
      \<exists>m'. format_line p True =
        (PX_SUCCESS, req, p\<lparr>header_line := Some m', to_string := Some (length (line_head p))\<rparr>)"
    using assms by (simp_all add: format_line_def Let_def format_ppb_improper) blast
qed

text \<open>
  C29. A time with a billion nanoseconds or more. \<open>format_ppb\<close> reports it with the negated
  status code 305, which \<open>_format_line\<close> takes for the length of a fraction: \<open>pxp_get_line\<close>
  succeeds and delivers a line 305 bytes longer than its text.
\<close>

theorem improper_time_line:
  assumes "length kw < 2 ^ 29" "1000000000 \<le> unat (nsec t)"
  shows "\<exists>l n q. pxp_get_line (pxp_mkpair_time kw t) False = (PX_SUCCESS, Some (l, n), q) \<and>
    n = length (fmt_u n @ '' '' @ kw @ ''='' @ fmt_d (sint (sec t)) @ [CHR 0x0A]) + 305"
proof -
  let ?s = "fmt_d (sint (sec t))" and ?p = "pxp_mkpair_time kw t"
  define k where "k = length ('' '' @ kw @ ''='' @ ?s @ [CHR 0x0A]) + 305"
  have k: "k < 2 ^ 30"
    using assms(1) length_fmt_d_i64 [of "sec t"] by (simp add: k_def)
  then obtain n where adj: "adjust_line_length k = Inr n"
    using adjust_line_length_total [of k] by (auto simp: SIZE_MAX_def)
  from adjust_line_length_cases [OF this] obtain e where "e \<le> 19" "n = k + e \<or> n = k + Suc e"
    by metis
  with k have n: "n = k + length (fmt_u n)" "0 < n" "n < 2 ^ 31"
    using adjust_line_length_fixpoint [OF adj] by (auto simp: k_def)
  define q where "q = ?p\<lparr>header_line := Some (replicate (n + 1) NUL), line_len := n\<rparr>"
  have p: "?p\<lparr>header_line := None, to_string := None, line_len := 0\<rparr> = ?p"
    "val_type ?p = PXP_TIME_TYPE" "time_val (pvalue ?p) = t" "header_line ?p = None" "line_len ?p = 0"
    "value_text ?p = ?s"
    by (simp_all add: pxp_mkpair_time_def pxp_mkpair_def value_text_def)
  have measure: "format_line ?p False = (PX_SUCCESS, k, ?p)"
    using p assms(2) by (intro format_line_improper(1)) (simp_all add: k_def line_head_0)
  have len: "n = length (fmt_u n @ '' '' @ kw @ ''='' @ ?s @ [CHR 0x0A]) + 305"
    using n(1) by (simp only: k_def length_append add.assoc add.commute add.left_commute)
  have "line_head q = fmt_u n @ '' '' @ kw @ ''=''" "value_text q = ?s"
    using line_head_len [of q] n(2,3) p by (simp_all add: q_def)
  then have req: "n = length (line_head q @ value_text q @ [CHR 0x0A]) + 305"
    using len by (simp only: append_assoc)
  have "val_type q = PXP_TIME_TYPE" "1000000000 \<le> unat (nsec (time_val (pvalue q)))"
    "header_line q = Some (replicate (n + 1) NUL)" "n \<le> line_len q + 1"
    using p assms(2) by (simp_all add: q_def)
  from format_line_improper(2) [OF this(1,2) req this(3,4)] obtain m' where
    "format_line q True =
      (PX_SUCCESS, n, q\<lparr>header_line := Some m', to_string := Some (length (line_head q))\<rparr>)"
    by blast
  with measure have "pxp_get_line ?p False = (PX_SUCCESS, Some (m', n),
      q\<lparr>header_line := Some m', to_string := Some (length (line_head q))\<rparr>)"
    using adj p by (simp add: pxp_get_line_def PXSUCCESS_def q_def Let_def)
  with len show ?thesis
    by blast
qed

theorem improper_time_line_witness:
  "\<exists>l n q. pxp_get_line (pxp_mkpair_time ''mtime'' \<lparr>sec = 1, nsec = 1000000000\<rparr>) False =
      (PX_SUCCESS, Some (l, n), q) \<and>
    n = length (fmt_u n @ '' '' @ ''mtime'' @ ''='' @ fmt_d (sint (1 :: i64)) @ [CHR 0x0A]) + 305"
  using improper_time_line [of "''mtime''" "\<lparr>sec = 1, nsec = 1000000000\<rparr>"]
  by (simp only: pax_time.select_convs) simp

end
