(* ===== verification/Pax_Xhdr.thy ===== *)
theory Pax_Xhdr
  imports Pax_Pair
begin

text \<open>
  The extended header of pax (src/lib/pax\_hdr/pax\_xhdr.c): the list of pairs, writing it as
  a sequence of lines and reading it back.

  The operations that relink the list are modelled on a heap of nodes, with the pointer
  updates of the code. The refinement lemmas show what they do to the list a header pointer
  leads to, and the operations on lists that follow are what the other components use. The
  head of the list is the pair put last. Dereferencing a pointer that leads nowhere and a
  loop that does not end are \<^const>\<open>None\<close>.
\<close>

section \<open>The list on the heap\<close>

record pair_node =
  node_pair :: pax_pair
  nxt :: "nat option"

type_synonym pair_heap = "nat \<Rightarrow> pair_node option"

definition set_next :: "pair_heap \<Rightarrow> nat \<Rightarrow> nat option \<Rightarrow> pair_heap" where
  "set_next h a q = (case h a of None \<Rightarrow> h | Some n \<Rightarrow> h(a := Some (n\<lparr>nxt := q\<rparr>)))"

definition get_next :: "pair_heap \<Rightarrow> nat \<Rightarrow> nat option" where
  "get_next h a = (case h a of None \<Rightarrow> None | Some n \<Rightarrow> nxt n)"

partial_function (option) member_loop :: "pair_heap \<Rightarrow> nat option \<Rightarrow> nat \<Rightarrow> bool option" where
  "member_loop h ip pair =
     (case ip of
        None \<Rightarrow> Some False
      | Some a \<Rightarrow>
          if a = pair then Some True
          else (case h a of None \<Rightarrow> None | Some n \<Rightarrow> member_loop h (nxt n) pair))"

partial_function (option) count_loop ::
  "pair_heap \<Rightarrow> nat option \<Rightarrow> string option \<Rightarrow> nat \<Rightarrow> nat option" where
  "count_loop h hdr_list kw cnt =
     (case hdr_list of
        None \<Rightarrow> Some cnt
      | Some a \<Rightarrow> (case h a of
          None \<Rightarrow> None
        | Some n \<Rightarrow>
            count_loop h (nxt n) kw
              (if kw = None \<or> kw = Some (keyword (node_pair n)) then cnt + 1 else cnt)))"

definition h_count_matches :: "pair_heap \<Rightarrow> nat option \<Rightarrow> string option \<Rightarrow> nat option" where
  "h_count_matches h hdr_list kw = count_loop h hdr_list kw 0"

definition h_put_pair ::
  "pair_heap \<Rightarrow> nat option \<Rightarrow> nat option \<Rightarrow> bool \<Rightarrow> (int \<times> pair_heap \<times> nat option) option" where
  "h_put_pair h hdr_list pair count_match =
     (case pair of
        None \<Rightarrow> Some (- PX_ERROR_INVALID, h, hdr_list)
      | Some a \<Rightarrow>
          Option.bind (member_loop h hdr_list a) (\<lambda>dup.
            if dup then Some (- PX_ERROR_DUPLICATE_INSERTION, h, hdr_list)
            else (case h a of
                None \<Rightarrow> None
              | Some n \<Rightarrow>
                  (let h' = set_next h a hdr_list
                   in if count_match
                      then map_option (\<lambda>c. (int c, h', Some a))
                        (h_count_matches h' hdr_list (Some (keyword (node_pair n))))
                      else Some (0, h', Some a)))))"

text \<open>
  The removal loop. \<open>tail\<close> is the node whose \<open>next\<close> field \<^verbatim>\<open>matches_tail\<close> points to.
\<close>

partial_function (option) remove_loop ::
  "string \<Rightarrow> bool \<Rightarrow> pair_heap \<Rightarrow> nat option \<Rightarrow> nat option \<Rightarrow> nat option \<Rightarrow> nat option \<Rightarrow>
   nat option \<Rightarrow> nat \<Rightarrow> (pair_heap \<times> nat option \<times> nat option \<times> nat option \<times> nat) option" where
  "remove_loop kw all_match h hdr_list pair prev matches tail cnt =
     (case pair of
        None \<Rightarrow> Some (h, hdr_list, matches, tail, cnt)
      | Some a \<Rightarrow> (case h a of
          None \<Rightarrow> None
        | Some n \<Rightarrow>
            if kw = keyword (node_pair n) then
              (let h1 = (case tail of None \<Rightarrow> h
                  | Some m \<Rightarrow> if matches = None then h else set_next h m (Some a));
                   matches' = (if matches = None then Some a else matches);
                   h2 = (case prev of None \<Rightarrow> h1 | Some p \<Rightarrow> set_next h1 p (get_next h1 a));
                   hdr' = (if prev = None then get_next h1 a else hdr_list)
               in if \<not> all_match then Some (h2, hdr', matches', Some a, cnt + 1)
                  else remove_loop kw all_match h2 hdr' (get_next h2 a) prev matches' (Some a)
                    (cnt + 1))
            else remove_loop kw all_match h hdr_list (nxt n) (Some a) matches tail cnt))"

definition h_remove_pair ::
  "pair_heap \<Rightarrow> nat option \<Rightarrow> string \<Rightarrow> bool \<Rightarrow> (pair_heap \<times> nat option \<times> nat option \<times> nat) option" where
  "h_remove_pair h hdr_list kw all_match =
     map_option (\<lambda>(h', hdr', matches, tail, cnt).
         ((case tail of None \<Rightarrow> h'
           | Some m \<Rightarrow> if get_next h' m \<noteq> None then set_next h' m None else h'),
          hdr', matches, cnt))
       (remove_loop kw all_match h hdr_list hdr_list None None None 0)"

section \<open>The list of a header\<close>

text \<open>\<open>seg h p xs q\<close>: following the next pointers from \<open>p\<close> visits \<open>xs\<close> and arrives at \<open>q\<close>.\<close>

fun seg :: "pair_heap \<Rightarrow> nat option \<Rightarrow> nat list \<Rightarrow> nat option \<Rightarrow> bool" where
  "seg h p [] q \<longleftrightarrow> p = q"
| "seg h p (a # xs) q \<longleftrightarrow>
     p = Some a \<and> (case h a of None \<Rightarrow> False | Some n \<Rightarrow> seg h (nxt n) xs q)"

abbreviation chain :: "pair_heap \<Rightarrow> nat option \<Rightarrow> nat list \<Rightarrow> bool" where
  "chain h p xs \<equiv> seg h p xs None"

definition kw_at :: "pair_heap \<Rightarrow> nat \<Rightarrow> string" where
  "kw_at h a = (case h a of None \<Rightarrow> [] | Some n \<Rightarrow> keyword (node_pair n))"

definition pairs_at :: "pair_heap \<Rightarrow> nat list \<Rightarrow> pax_pair list" where
  "pairs_at h xs = map (\<lambda>a. node_pair (the (h a))) xs"

text \<open>
  What the removal takes from a list: all elements that match, or the first one. The result
  is the elements taken and the elements left, both in their order.
\<close>

fun take_match :: "bool \<Rightarrow> ('a \<Rightarrow> bool) \<Rightarrow> 'a list \<Rightarrow> 'a list \<times> 'a list" where
  "take_match all m [] = ([], [])"
| "take_match all m (a # xs) =
     (if m a then (if all then (a # fst (take_match all m xs), snd (take_match all m xs)) else ([a], xs))
      else (fst (take_match all m xs), a # snd (take_match all m xs)))"

lemma take_match_all: "take_match True m xs = (filter m xs, filter (\<lambda>x. \<not> m x) xs)"
  by (induction xs) auto

lemma take_match_map:
  "take_match all m (map f xs) = map_prod (map f) (map f) (take_match all (m \<circ> f) xs)"
  by (induction xs) auto

lemma take_match_cong: "(\<And>x. x \<in> set xs \<Longrightarrow> m x = m' x) \<Longrightarrow> take_match all m xs = take_match all m' xs"
  by (induction xs) auto

subsection \<open>Segments\<close>

lemma seg_append: "seg h p (xs @ ys) q \<longleftrightarrow> (\<exists>r. seg h p xs r \<and> seg h r ys q)"
  by (induction xs arbitrary: p) (auto split: option.splits)

lemma seg_cong: "(\<And>a. a \<in> set xs \<Longrightarrow> h' a = h a) \<Longrightarrow> seg h' p xs q = seg h p xs q"
  by (induction xs arbitrary: p) (auto split: option.splits)

lemma set_next_other [simp]: "a \<noteq> b \<Longrightarrow> set_next h a r b = h b"
  by (auto simp: set_next_def split: option.splits)

lemma seg_set_next_other [simp]: "a \<notin> set xs \<Longrightarrow> seg (set_next h a r) p xs q = seg h p xs q"
  by (rule seg_cong) (metis set_next_other)

lemma seg_Cons: "seg h p (a # xs) q \<longleftrightarrow> p = Some a \<and> h a \<noteq> None \<and> seg h (get_next h a) xs q"
  by (auto simp: get_next_def split: option.splits)

declare seg.simps(2) [simp del] seg_Cons [simp]

lemma get_next_set_next [simp]: "a \<noteq> b \<Longrightarrow> get_next (set_next h a r) b = get_next h b"
  by (simp add: get_next_def)

lemma get_next_set_same [simp]: "h a \<noteq> None \<Longrightarrow> get_next (set_next h a q) a = q"
  by (auto simp: get_next_def set_next_def)

lemma set_next_same [simp]: "h a = Some n \<Longrightarrow> set_next h a q a = Some (n\<lparr>nxt := q\<rparr>)"
  by (simp add: set_next_def)

lemma set_next_dom [simp]: "set_next h a q b = None \<longleftrightarrow> h b = None"
  by (auto simp: set_next_def split: option.splits)

lemma seg_set_next_last:
  "seg h p (xs @ [x]) q \<Longrightarrow> x \<notin> set xs \<Longrightarrow> seg (set_next h x r) p (xs @ [x]) r"
  by (auto simp: seg_append)

text \<open>The updates change next pointers only: the pair of every node stays.\<close>

definition same_pairs :: "pair_heap \<Rightarrow> pair_heap \<Rightarrow> bool" where
  "same_pairs h h' \<longleftrightarrow> (\<forall>a. map_option node_pair (h' a) = map_option node_pair (h a))"

lemma same_pairs_refl [simp]: "same_pairs h h"
  by (simp add: same_pairs_def)

lemma same_pairs_trans [trans]: "same_pairs h h' \<Longrightarrow> same_pairs h' h'' \<Longrightarrow> same_pairs h h''"
  by (simp add: same_pairs_def)

lemma same_pairs_set_next [simp]: "same_pairs h (set_next h a q)"
  by (auto simp: same_pairs_def set_next_def split: option.splits)

lemma same_pairs_kw: "same_pairs h h' \<Longrightarrow> kw_at h' a = kw_at h a"
  unfolding same_pairs_def kw_at_def by (drule spec [of _ a]) (auto split: option.splits)

lemma same_pairs_at: "same_pairs h h' \<Longrightarrow> \<forall>a \<in> set xs. h a \<noteq> None \<Longrightarrow> pairs_at h' xs = pairs_at h xs"
  unfolding same_pairs_def pairs_at_def
  by (intro map_cong refl) (metis option.exhaust_sel option.map_disc_iff option.map_sel)

lemma same_pairs_dom: "same_pairs h h' \<Longrightarrow> h' a = None \<longleftrightarrow> h a = None"
  unfolding same_pairs_def by (metis option.map_disc_iff)

lemma seg_dom: "seg h p xs q \<Longrightarrow> a \<in> set xs \<Longrightarrow> h a \<noteq> None"
  by (induction xs arbitrary: p) (auto split: option.splits)

definition last_opt :: "'a list \<Rightarrow> 'a option" where
  "last_opt xs = (if xs = [] then None else Some (last xs))"

lemma last_opt_snoc [simp]: "last_opt (xs @ [x]) = Some x"
  by (simp add: last_opt_def)

lemma last_opt_Nil [simp]: "last_opt [] = None"
  by (simp add: last_opt_def)

text \<open>Redirecting the end of a segment, which may be empty.\<close>

lemma seg_redirect:
  assumes "seg h p xs q" "distinct xs"
  shows "seg (case last_opt xs of None \<Rightarrow> h | Some x \<Rightarrow> set_next h x r)
    (if xs = [] then r else p) xs r"
  using assms seg_set_next_last [of h p "butlast xs" "last xs" q r]
  by (cases xs rule: rev_cases) (auto simp: last_opt_def)

subsection \<open>The removal loop\<close>

lemma remove_loop_correct:
  assumes "seg h hdr kept pair" "chain h pair xs" "seg h mt ms q" "mt = None \<longleftrightarrow> ms = []"
    "distinct (kept @ ms @ xs)"
    "T = take_match al (\<lambda>a. kw = kw_at h a) xs"
  shows "\<exists>h' hdr' mt' q'. remove_loop kw al h hdr pair (last_opt kept) mt (last_opt ms) c =
      Some (h', hdr', mt', last_opt (ms @ fst T), c + length (fst T)) \<and>
    same_pairs h h' \<and> chain h' hdr' (kept @ snd T) \<and> seg h' mt' (ms @ fst T) q' \<and>
    (mt' = None \<longleftrightarrow> ms @ fst T = []) \<and> (\<forall>b. b \<notin> set (kept @ ms @ xs) \<longrightarrow> h' b = h b)"
  using assms
proof (induction xs arbitrary: h hdr kept pair mt ms q c T)
  case Nil
  then show ?case
    by (subst remove_loop.simps) auto
next
  case (Cons a xs)
  then obtain n where a: "pair = Some a" "h a = Some n" "chain h (nxt n) xs"
    by (auto simp: get_next_def)
  show ?case
  proof (cases "kw = kw_at h a")
    case False
    then have "kw \<noteq> keyword (node_pair n)"
      by (simp add: kw_at_def a)
    moreover have "seg h hdr (kept @ [a]) (nxt n)"
      using Cons.prems(1) a by (auto simp: seg_append get_next_def)
    ultimately show ?thesis
      using Cons.IH [of h hdr "kept @ [a]" "nxt n" mt ms q _ c, OF _ _ _ _ _ refl] Cons.prems a False
      by (subst remove_loop.simps) auto
  next
    case True
    define h1 where "h1 = (case last_opt ms of None \<Rightarrow> h | Some m \<Rightarrow> set_next h m (Some a))"
    define h2 where "h2 = (case last_opt kept of None \<Rightarrow> h1 | Some p \<Rightarrow> set_next h1 p (nxt n))"
    let ?hdr = "if kept = [] then nxt n else hdr" and ?mt = "if ms = [] then Some a else mt"
    have dist: "distinct kept" "distinct ms" "set kept \<inter> set ms = {}" "a \<notin> set kept" "a \<notin> set ms"
      "a \<notin> set xs" "set kept \<inter> set xs = {}" "set ms \<inter> set xs = {}" "distinct xs"
      using Cons.prems(5) by auto
    have h1: "h1 b = h b" if "b \<notin> set ms" for b
      using that last_in_set [of ms] by (auto simp: h1_def last_opt_def intro: set_next_other)
    have h2: "h2 b = h1 b" if "b \<notin> set kept" for b
      using that last_in_set [of kept] by (auto simp: h2_def last_opt_def intro: set_next_other)
    have h12: "h2 b = h b" if "b \<notin> set kept" "b \<notin> set ms" for b
      using that by (simp add: h1 h2)
    have "seg h1 hdr kept (Some a)"
      using Cons.prems(1) a(1) dist(3) by (subst seg_cong [where h = h]) (auto intro!: h1)
    from seg_redirect [OF this dist(1)] have kept: "seg h2 ?hdr kept (nxt n)"
      by (simp add: h2_def)
    have "seg h1 ?mt ms (Some a)"
      using seg_redirect [OF Cons.prems(3) dist(2)] by (simp add: h1_def)
    then have "seg h2 ?mt ms (Some a)"
      using dist(3) by (subst seg_cong [where h = h1]) (auto intro!: h2)
    then have mt: "seg h2 ?mt (ms @ [a]) (nxt n)"
      using a(2) dist(4,5) by (simp add: seg_append get_next_def h1 h2)
    have xs: "chain h2 (nxt n) xs"
      using a(3) dist(7,8) by (subst seg_cong [where h = h]) (auto intro!: h12)
    have "same_pairs h h1" "same_pairs h1 h2"
      by (auto simp: h2_def h1_def split: option.splits)
    then have same: "same_pairs h h2"
      by (rule same_pairs_trans)
    have "get_next h1 a = nxt n" "get_next h2 a = nxt n"
      using dist(4,5) a(2) by (simp_all add: get_next_def h1 h2)
    then have step: "remove_loop kw al h hdr pair (last_opt kept) mt (last_opt ms) c =
        (if \<not> al then Some (h2, ?hdr, ?mt, Some a, c + 1)
         else remove_loop kw al h2 ?hdr (nxt n) (last_opt kept) ?mt (last_opt (ms @ [a])) (c + 1))"
      using a True Cons.prems(4)
      by (subst remove_loop.simps)
        (auto simp: Let_def kw_at_def h1_def h2_def last_opt_def split: option.splits)
    show ?thesis
    proof (cases al)
      case False
      then show ?thesis
        using True step kept mt xs same h12 Cons.prems(4,6) by (auto simp: seg_append)
    next
      case al: True
      have mm: "?mt = None \<longleftrightarrow> ms @ [a] = []"
        using Cons.prems(4) by auto
      have dd: "distinct (kept @ (ms @ [a]) @ xs)"
        using Cons.prems(5) by auto
      define U where "U = take_match al (\<lambda>a. kw = kw_at h a) xs"
      have T: "fst T = a # fst U" "snd T = snd U"
        using Cons.prems(6) True al by (simp_all add: U_def)
      have "U = take_match al (\<lambda>a. kw = kw_at h2 a) xs"
        by (simp add: U_def same_pairs_kw [OF same])
      from Cons.IH [OF kept xs mt mm dd this, of "c + 1"] obtain h' hdr' mt' q' where res:
        "remove_loop kw al h2 ?hdr (nxt n) (last_opt kept) ?mt (last_opt (ms @ [a])) (c + 1) =
          Some (h', hdr', mt', last_opt (ms @ fst T), c + length (fst T))"
        "same_pairs h2 h'" "chain h' hdr' (kept @ snd T)" "seg h' mt' (ms @ fst T) q'"
        "mt' = None \<longleftrightarrow> ms @ fst T = []" "\<And>b. b \<notin> set (kept @ ms @ a # xs) \<Longrightarrow> h' b = h2 b"
        unfolding T by auto
      have "h' b = h b" if "b \<notin> set (kept @ ms @ a # xs)" for b
        using res(6) [OF that] that h12 by simp
      then show ?thesis
        using same_pairs_trans [OF same res(2)] res(1,3,4,5) step al by auto
    qed
  qed
qed

lemma take_match_subset: "a \<in> set (fst (take_match al m xs)) \<Longrightarrow> a \<in> set xs"
  "a \<in> set (snd (take_match al m xs)) \<Longrightarrow> a \<in> set xs"
  by (induction xs) (auto split: if_splits)

lemma take_match_distinct:
  "distinct xs \<Longrightarrow> distinct (fst (take_match al m xs) @ snd (take_match al m xs))"
  by (induction xs) (auto dest: take_match_subset)

lemma pairs_at_take_match:
  assumes "\<forall>a \<in> set xs. h a \<noteq> None"
  shows "take_match al (\<lambda>p. keyword p = kw) (pairs_at h xs) =
    map_prod (pairs_at h) (pairs_at h) (take_match al (\<lambda>a. kw = kw_at h a) xs)"
proof -
  have "take_match al ((\<lambda>p. keyword p = kw) \<circ> (\<lambda>a. node_pair (the (h a)))) xs =
      take_match al (\<lambda>a. kw = kw_at h a) xs"
    using assms by (intro take_match_cong) (auto simp: kw_at_def)
  then show ?thesis
    by (simp add: pairs_at_def take_match_map [where f = "\<lambda>a. node_pair (the (h a))"] map_prod_def
        case_prod_unfold)
qed

lemma h_remove_pair_correct:
  assumes ch: "chain h hdr xs" and "distinct xs"
    and T: "T = take_match al (\<lambda>a. kw = kw_at h a) xs"
  shows "\<exists>h' hdr' mt. h_remove_pair h hdr kw al = Some (h', hdr', mt, length (fst T)) \<and>
    same_pairs h h' \<and> chain h' hdr' (snd T) \<and> chain h' mt (fst T) \<and>
    (\<forall>b. b \<notin> set xs \<longrightarrow> h' b = h b)"
proof -
  obtain h' hdr' mt q where res:
    "remove_loop kw al h hdr hdr None None None 0 =
      Some (h', hdr', mt, last_opt (fst T), length (fst T))"
    "same_pairs h h'" "chain h' hdr' (snd T)" "seg h' mt (fst T) q"
    "mt = None \<longleftrightarrow> fst T = []" "\<forall>b. b \<notin> set xs \<longrightarrow> h' b = h b"
    using remove_loop_correct [of h hdr "[]" hdr xs None "[]" None T al kw 0] assms by auto
  define h'' where "h'' = (case last_opt (fst T) of None \<Rightarrow> h'
    | Some m \<Rightarrow> if get_next h' m \<noteq> None then set_next h' m None else h')"
  have call: "h_remove_pair h hdr kw al = Some (h'', hdr', mt, length (fst T))"
    by (simp add: h_remove_pair_def res(1) h''_def)
  have dist: "distinct (fst T @ snd T)"
    unfolding T using take_match_distinct [OF \<open>distinct xs\<close>] .
  have sub: "set (fst T) \<subseteq> set xs"
    unfolding T using take_match_subset(1) by fast
  show ?thesis
  proof (cases "fst T" rule: rev_cases)
    case Nil
    then show ?thesis
      using call res by (auto simp: h''_def)
  next
    case (snoc ms m)
    have "seg h' mt (ms @ [m]) (get_next h' m)" "h' m \<noteq> None"
      using res(4) by (auto simp: snoc seg_append)
    then have "chain h'' mt (fst T)"
      using seg_set_next_last [of h' mt ms m _ None] dist
      by (auto simp: h''_def snoc)
    moreover have "chain h'' hdr' (snd T)"
      using res(3) dist by (auto simp: h''_def snoc)
    moreover have "same_pairs h h''"
      using same_pairs_trans [OF res(2) same_pairs_set_next] res(2) by (auto simp: h''_def snoc)
    moreover have "\<forall>b. b \<notin> set xs \<longrightarrow> h'' b = h b"
      using res(6) sub by (auto simp: h''_def snoc) (metis set_next_other)
    ultimately show ?thesis
      using call by blast
  qed
qed

subsection \<open>Counting and inserting\<close>

fun pxh_count_matches :: "pax_pair list \<Rightarrow> string option \<Rightarrow> nat" where
  "pxh_count_matches [] kw = 0"
| "pxh_count_matches (p # ps) kw =
     (case kw of Some k \<Rightarrow> if k = keyword p then 1 else 0 | None \<Rightarrow> 1) + pxh_count_matches ps kw"

lemma count_matches_filter:
  "pxh_count_matches ps kw = length (filter (\<lambda>p. kw = None \<or> kw = Some (keyword p)) ps)"
  by (induction ps) (auto split: option.splits)

lemma count_loop_chain:
  "chain h p xs \<Longrightarrow> count_loop h p kw c = Some (c + pxh_count_matches (pairs_at h xs) kw)"
proof (induction xs arbitrary: p c)
  case Nil
  then show ?case
    by (subst count_loop.simps) (simp add: pairs_at_def)
next
  case (Cons a xs)
  then show ?case
    by (subst count_loop.simps) (auto simp: pairs_at_def get_next_def split: option.splits)
qed

lemma member_loop_chain: "chain h p xs \<Longrightarrow> member_loop h p a = Some (a \<in> set xs)"
proof (induction xs arbitrary: p)
  case Nil
  then show ?case
    by (subst member_loop.simps) simp
next
  case (Cons b xs)
  then show ?case
    by (subst member_loop.simps) (auto simp: get_next_def split: option.splits)
qed

lemma h_put_pair_correct:
  assumes ch: "chain h hdr xs" and a: "h a \<noteq> None" "a \<notin> set xs"
  shows "\<exists>h'. h_put_pair h hdr (Some a) cm =
      Some (if cm then int (pxh_count_matches (pairs_at h xs) (Some (kw_at h a))) else 0, h', Some a) \<and>
    chain h' (Some a) (a # xs) \<and> same_pairs h h' \<and> (\<forall>b. b \<noteq> a \<longrightarrow> h' b = h b)"
proof -
  have h': "chain (set_next h a hdr) hdr xs"
    using ch a(2) by simp
  have dom: "\<forall>b \<in> set xs. h b \<noteq> None"
    using seg_dom [OF ch] by blast
  show ?thesis
    using count_loop_chain [OF h', of "Some (kw_at h a)" 0] member_loop_chain [OF ch, of a] a h'
      same_pairs_at [OF same_pairs_set_next dom]
    by (auto simp: h_put_pair_def h_count_matches_def Let_def kw_at_def)
qed

lemma h_put_pair_duplicate:
  assumes "chain h hdr xs" "a \<in> set xs"
  shows "h_put_pair h hdr (Some a) cm = Some (202, h, hdr)"
  using member_loop_chain [OF assms(1), of a] assms(2) by (simp add: h_put_pair_def)

section \<open>Operations on the list\<close>

text \<open>
  The operations as the rest of the library uses them, on the list of the pairs. Their
  pointer versions above refine them: a pair that is put is a node of its own, and a missing
  keyword is \<^const>\<open>None\<close>.
\<close>

definition pxh_put_pair :: "pax_pair list \<Rightarrow> pax_pair \<Rightarrow> bool \<Rightarrow> int \<times> pax_pair list" where
  "pxh_put_pair hdr_list pair count_match =
     (if count_match then int (pxh_count_matches hdr_list (Some (keyword pair))) else 0,
      pair # hdr_list)"

definition pxh_remove_pair ::
  "pax_pair list \<Rightarrow> string option \<Rightarrow> bool \<Rightarrow> pax_pair list \<times> pax_pair list" where
  "pxh_remove_pair hdr_list kw all_match =
     (case kw of None \<Rightarrow> ([], hdr_list)
      | Some k \<Rightarrow> take_match all_match (\<lambda>p. keyword p = k) hdr_list)"

text \<open>The array of matches and its announced length.\<close>

fun get_pair_loop ::
  "pax_pair list \<Rightarrow> string \<Rightarrow> bool \<Rightarrow> pax_pair list \<Rightarrow> nat \<Rightarrow> pax_pair list \<times> nat" where
  "get_pair_loop [] kw al result cnt = (result, cnt)"
| "get_pair_loop (p # ps) kw al result cnt =
     (if kw = keyword p then
        (let cnt' = (if result = [] then
             (if al then pxh_count_matches (p # ps) (Some kw) else 1) else cnt)
         in if \<not> al then (result @ [p], cnt') else get_pair_loop ps kw al (result @ [p]) cnt')
      else get_pair_loop ps kw al result cnt)"

definition pxh_get_pair :: "pax_pair list \<Rightarrow> string option \<Rightarrow> bool \<Rightarrow> pax_pair list \<times> nat" where
  "pxh_get_pair hdr_list kw al =
     (case kw of None \<Rightarrow> ([], 0) | Some k \<Rightarrow> get_pair_loop hdr_list k al [] 0)"

abbreviation (input) PAX_XHDR_BLK_SIZE :: nat where "PAX_XHDR_BLK_SIZE \<equiv> 512"

text \<open>The sizes stored up to an error stay: the exact size so far, and 0.\<close>

fun xheader_size_loop :: "pax_pair list \<Rightarrow> nat \<Rightarrow> px_status \<times> nat \<times> nat" where
  "xheader_size_loop [] exact = (PX_SUCCESS, exact, round_to_block exact PAX_XHDR_BLK_SIZE)"
| "xheader_size_loop (p # ps) exact =
     (case pxp_get_line_len p of
        Inl st \<Rightarrow> (st, exact, 0)
      | Inr n \<Rightarrow> xheader_size_loop ps ((exact + n) mod 2 ^ 64))"

definition pxh_get_xheader_size :: "pax_pair list \<Rightarrow> px_status \<times> nat \<times> nat" where
  "pxh_get_xheader_size hdr_list = xheader_size_loop hdr_list 0"

fun count_pairs :: "'a list \<Rightarrow> nat" where
  "count_pairs [] = 0"
| "count_pairs (p # ps) = Suc (count_pairs ps)"

text \<open>The array of \<open>_reverse_list\<close>, filled from its end; fresh entries are \<^const>\<open>None\<close>.\<close>

fun reverse_fill :: "'a list \<Rightarrow> nat \<Rightarrow> 'a option list \<Rightarrow> 'a option list option" where
  "reverse_fill [] i arr = (if i = 0 then Some arr else None)"
| "reverse_fill (p # ps) i arr =
     (if i = 0 then None else reverse_fill ps (i - 1) (arr[i - 1 := Some p]))"

definition reverse_list :: "'a list \<Rightarrow> 'a option list option" where
  "reverse_list ps = reverse_fill ps (count_pairs ps) (replicate (count_pairs ps) None)"

text \<open>
  The write loop. \<open>out\<close> is what was written so far, \<open>m\<close> the memory from the buffer pointer
  on. The line of a failed \<open>pxp_get_line\<close> is the one of the iteration before (\<open>line\<close> and
  \<open>len\<close> are not initialised), and the status of the last pair is the one returned. The pairs
  come back with the lines they now hold.
\<close>

fun write_loop ::
  "pax_pair list \<Rightarrow> px_status \<Rightarrow> string \<times> nat \<Rightarrow> string \<Rightarrow> string \<Rightarrow> nat \<Rightarrow>
   px_status \<times> string \<times> pax_pair list" where
  "write_loop [] st ln out m buffer_len = (st, out @ replicate buffer_len NUL @ drop buffer_len m, [])"
| "write_loop (p # ps) st ln out m buffer_len =
     (case pxp_get_line p False of (st', res, p') \<Rightarrow>
        (let (line, len) = (case res of None \<Rightarrow> ln | Some r \<Rightarrow> r)
         in if buffer_len < len then (PX_ERROR_OVERFLOW, out @ m, p' # ps)
            else (case write_loop ps st' (line, len) (out @ take len line) (drop len m)
                (buffer_len - len) of (st'', mem, ps') \<Rightarrow> (st'', mem, p' # ps'))))"

definition pxh_write_xheader ::
  "string \<times> nat \<Rightarrow> pax_pair list \<Rightarrow> string \<Rightarrow> nat \<Rightarrow> px_status \<times> string \<times> pax_pair list" where
  "pxh_write_xheader junk hdr_list buffer buffer_len =
     (let rev_pairs = (case reverse_list hdr_list of None \<Rightarrow> [] | Some arr \<Rightarrow> map the arr)
      in case write_loop rev_pairs PX_SUCCESS junk [] buffer buffer_len of
           (st, mem, ps) \<Rightarrow> (st, mem, rev ps))"

text \<open>
  Reading the pairs of a header. A pair just parsed is a node of its own, so putting it
  succeeds. Each round consumes at least a byte.
\<close>

lemma pxp_mkpair_line_progress:
  "pxp_mkpair_line en buf n = (st, Some p, buf', n') \<Longrightarrow> n' < n"
  by (auto simp: pxp_mkpair_line_def Let_def split: prod.splits if_splits option.splits)

function pxh_mkpairs ::
  "c_errno option \<Rightarrow> pax_pair list \<Rightarrow> string \<Rightarrow> nat \<Rightarrow> px_status \<times> pax_pair list" where
  "pxh_mkpairs en result_pairs buffer buffer_len =
     (if buffer_len = 0 then (PX_SUCCESS, result_pairs)
      else (case pxp_mkpair_line en buffer buffer_len of
          (st, None, _) \<Rightarrow>
            (if st = PX_SUCCESS_NO_MORE_PAIRS then PX_SUCCESS else st, result_pairs)
        | (st, Some pair, buffer', buffer_len') \<Rightarrow>
            pxh_mkpairs en (snd (pxh_put_pair result_pairs pair False)) buffer' buffer_len'))"
  by pat_completeness auto
termination
  by (relation "measure (\<lambda>(_, _, _, n). n)") (auto dest: pxp_mkpair_line_progress [OF sym])

declare pxh_mkpairs.simps [simp del]

section \<open>The list operations and the pointers\<close>

lemma reverse_fill_correct:
  "length ps \<le> length arr \<Longrightarrow> reverse_fill ps (length ps) arr =
     Some (map Some (rev ps) @ drop (length ps) arr)"
proof (induction ps arbitrary: arr)
  case (Cons p ps)
  then show ?case
    by (simp add: list_update_append drop_update_cancel Cons_nth_drop_Suc [symmetric]
        drop_update_swap)
qed simp

lemma count_pairs_length [simp]: "count_pairs ps = length ps"
  by (induction ps) auto

lemma reverse_list_correct: "reverse_list ps = Some (map Some (rev ps))"
  by (simp add: reverse_list_def reverse_fill_correct)

lemma get_pair_loop_all:
  "get_pair_loop ps kw True result cnt =
     (result @ filter (\<lambda>p. kw = keyword p) ps,
      if result = [] \<and> (\<exists>p \<in> set ps. kw = keyword p) then length (filter (\<lambda>p. kw = keyword p) ps)
      else cnt)"
  by (induction ps arbitrary: result cnt) (auto simp: Let_def count_matches_filter)

lemma get_pair_loop_first:
  "get_pair_loop ps kw False [] 0 =
     (case filter (\<lambda>p. kw = keyword p) ps of [] \<Rightarrow> ([], 0) | p # _ \<Rightarrow> ([p], 1))"
  by (induction ps) (auto simp: Let_def)

section \<open>Sequences of lines\<close>

text \<open>
  What the extended header needs of a line format: a line is not empty, is read back with
  exactly its bytes consumed, and the padding ends the sequence.
\<close>

fun parses ::
  "(string \<Rightarrow> bool) \<Rightarrow> (string \<Rightarrow> nat \<Rightarrow> ('b \<times> string \<times> nat) option) \<Rightarrow> 'b list \<Rightarrow> string \<Rightarrow> nat \<Rightarrow> bool"
  where
  "parses stop step [] s n \<longleftrightarrow> n = 0 \<or> stop s"
| "parses stop step (x # xs) s n \<longleftrightarrow>
     0 < n \<and> (case step s n of None \<Rightarrow> False | Some (y, s', n') \<Rightarrow> y = x \<and> parses stop step xs s' n')"

locale line_codec =
  fixes enc :: "'a \<Rightarrow> string"
    and dec :: "string \<Rightarrow> nat \<Rightarrow> ('b \<times> string \<times> nat) option"
    and stop :: "string \<Rightarrow> bool"
    and ok :: "'a \<Rightarrow> bool"
    and img :: "'a \<Rightarrow> 'b"
  assumes enc_nonempty: "ok x \<Longrightarrow> enc x \<noteq> []"
    and dec_enc: "ok x \<Longrightarrow> length (enc x) \<le> n \<Longrightarrow>
      dec (enc x @ rest) n = Some (img x, rest, n - length (enc x))"
    and stop_pad: "stop (NUL # rest)"
begin

lemma parses_lines:
  assumes "\<forall>x \<in> set xs. ok x" "n = length (concat (map enc xs)) + k"
  shows "parses stop dec (map img xs) (concat (map enc xs) @ replicate k NUL @ r) n"
  using assms
proof (induction xs arbitrary: n)
  case Nil
  then show ?case
    by (cases k) (simp_all add: stop_pad)
next
  case (Cons x xs)
  then show ?case
    using enc_nonempty [of x] dec_enc [of x n "concat (map enc xs) @ replicate k NUL @ r"] by simp
qed

end

definition line_step ::
  "c_errno option \<Rightarrow> string \<Rightarrow> nat \<Rightarrow> (pax_pair \<times> string \<times> nat) option" where
  "line_step en s n =
     (case pxp_mkpair_line en s n of (_, None, _) \<Rightarrow> None | (_, Some p, s', n') \<Rightarrow> Some (p, s', n'))"

definition ends_pairs :: "string \<Rightarrow> bool" where
  "ends_pairs s \<longleftrightarrow> s = [] \<or> hd s = NUL"

definition line_of :: "pax_pair \<Rightarrow> string" where
  "line_of p = rec_line (keyword p) (pair_text p)"

definition reread :: "pax_pair \<Rightarrow> pax_pair" where
  "reread p = line_pair (keyword p) (pair_text p)"

lemma wf_pair_rec: "wf_pair p \<Longrightarrow> wf_rec (keyword p) (pair_text p)"
  by (simp add: wf_pair_def)

lemma length_line_of: "wf_pair p \<Longrightarrow> length (line_of p) = rec_len (keyword p) (pair_text p)"
  using rec_len_adjust(2) [OF wf_pair_rec] by (simp add: line_of_def)

interpretation pair_lines: line_codec line_of "line_step en" ends_pairs wf_pair reread for en
proof
  fix p rest n
  assume "wf_pair p"
  note rec = wf_pair_rec [OF this]
  show "line_of p \<noteq> []"
    by (simp add: line_of_def rec_line_def)
  assume "length (line_of p) \<le> n"
  then show "line_step en (line_of p @ rest) n = Some (reread p, rest, n - length (line_of p))"
    using pxp_mkpair_line_rec [OF rec, of n en rest] rec_len_adjust(2) [OF rec]
    by (simp add: line_step_def line_of_def reread_def)
qed (simp add: ends_pairs_def)

section \<open>Writing and reading a header\<close>

lemma pxp_mkpair_line_stop:
  "ends_pairs s \<Longrightarrow> pxp_mkpair_line en s n = (PX_SUCCESS_NO_MORE_PAIRS, None, s, n)"
  by (simp add: pxp_mkpair_line_def get_line_len_def ends_pairs_def)

lemma line_step_Some:
  "line_step en s n = Some (p, s', n') \<longleftrightarrow> (\<exists>st. pxp_mkpair_line en s n = (st, Some p, s', n'))"
  by (auto simp: line_step_def split: option.splits prod.splits)

lemma pxh_mkpairs_parses:
  "parses ends_pairs (line_step en) ps s n \<Longrightarrow> pxh_mkpairs en acc s n = (PX_SUCCESS, rev ps @ acc)"
proof (induction ps arbitrary: s n acc)
  case Nil
  then show ?case
    by (subst pxh_mkpairs.simps) (auto simp: pxp_mkpair_line_stop)
next
  case (Cons p ps)
  then obtain st s' n' where "pxp_mkpair_line en s n = (st, Some p, s', n')" "0 < n"
    "parses ends_pairs (line_step en) ps s' n'"
    by (auto simp: line_step_Some split: option.splits prod.splits)
  then show ?case
    using Cons.IH by (subst pxh_mkpairs.simps) (simp add: pxh_put_pair_def)
qed

definition lines_size :: "pax_pair list \<Rightarrow> nat" where
  "lines_size ps = length (concat (map line_of ps))"

lemma lines_size_simps [simp]:
  "lines_size [] = 0" "lines_size (p # ps) = length (line_of p) + lines_size ps"
  "lines_size (rev ps) = lines_size ps"
  by (simp_all add: lines_size_def length_concat sum_list_rev flip: rev_map)

lemma xheader_size_loop_wf:
  assumes "\<forall>p \<in> set ps. wf_pair p" "e + lines_size ps < 2 ^ 64"
  shows "xheader_size_loop ps e =
    (PX_SUCCESS, e + lines_size ps, round_to_block (e + lines_size ps) 512)"
  using assms
proof (induction ps arbitrary: e)
  case (Cons p ps)
  then show ?case
    using length_line_of [of p] pxp_get_line_len_wf [of p]
    by (simp add: add.assoc)
qed simp

lemma write_loop_wf:
  assumes "\<forall>p \<in> set ps. wf_pair p" "lines_size ps \<le> n"
  shows "write_loop ps st ln out m n =
    (if ps = [] then st else PX_SUCCESS,
     out @ concat (map line_of ps) @ replicate (n - lines_size ps) NUL @ drop n m,
     map (\<lambda>p. with_line p (pair_text p)) ps)"
  using assms
proof (induction ps arbitrary: st ln out m n)
  case (Cons p ps)
  then show ?case
    using length_line_of [of p] pxp_get_line_wf [of p]
    by (simp add: line_of_def)
qed simp

lemma pxh_write_xheader_wf:
  assumes "\<forall>p \<in> set hs. wf_pair p" "lines_size hs \<le> n"
  shows "pxh_write_xheader junk hs m n =
    (PX_SUCCESS,
     concat (map line_of (rev hs)) @ replicate (n - lines_size hs) NUL @ drop n m,
     map (\<lambda>p. with_line p (pair_text p)) hs)"
  using write_loop_wf [of "rev hs" n PX_SUCCESS junk "[]" m] assms
  by (simp add: pxh_write_xheader_def reverse_list_correct Let_def comp_def rev_map)

lemma pxh_mkpairs_lines:
  assumes "\<forall>p \<in> set hs. wf_pair p" "n = lines_size hs + k"
  shows "pxh_mkpairs en [] (concat (map line_of (rev hs)) @ replicate k NUL @ r) n =
    (PX_SUCCESS, map reread hs)"
proof -
  have "n = length (concat (map line_of (rev hs))) + k"
    using lines_size_simps(3) [of hs] assms(2) unfolding lines_size_def by simp
  with assms(1) show ?thesis
    using pxh_mkpairs_parses [OF pair_lines.parses_lines [of "rev hs" n k en r]]
    by (simp add: rev_map)
qed

lemma reread_simps:
  assumes "wf_pair p"
  shows "keyword (reread p) = keyword p" "pair_text (reread p) = pair_text p" "wf_pair (reread p)"
  using line_pair_wf [OF wf_pair_rec [OF assms]] by (simp_all add: reread_def)

section \<open>Properties\<close>

text \<open>
  C6. Writing and reading an extended header. For a list of well-formed pairs,
  \<open>pxh_get_xheader_size\<close> succeeds, and in a buffer of the padded size \<open>pxh_write_xheader\<close>
  followed by \<open>pxh_mkpairs\<close> gives a list of the same keywords with the same texts in the
  same order. The bytes behind the buffer are not touched, and the size is a multiple of
  512 that exceeds the exact size by less than 512.
\<close>

theorem xheader_roundtrip:
  assumes wf: "\<forall>p \<in> set hs. wf_pair p" and small: "lines_size hs + 512 \<le> 2 ^ 64"
    and size: "pxh_get_xheader_size hs = (st, exact, pad)" and mem: "pad \<le> length m"
  shows "st = PX_SUCCESS \<and> exact \<le> pad \<and> pad < exact + 512 \<and> 512 dvd pad \<and>
    (\<exists>m' hs' ps. pxh_write_xheader junk hs m pad = (PX_SUCCESS, m', hs') \<and>
      length m' = length m \<and> drop pad m' = drop pad m \<and>
      pxh_mkpairs en [] m' pad = (PX_SUCCESS, ps) \<and>
      map keyword ps = map keyword hs \<and> map pair_text ps = map pair_text hs)"
proof -
  have sz: "st = PX_SUCCESS" "exact = lines_size hs" "pad = round_to_block exact 512"
    using xheader_size_loop_wf [OF wf, of 0] small size by (auto simp: pxh_get_xheader_size_def)
  have pad: "exact \<le> pad" "pad < exact + 512" "512 dvd pad"
    using round_to_block_bounds [of 512 exact] small sz by simp_all
  let ?m = "concat (map line_of (rev hs)) @ replicate (pad - exact) NUL @ drop pad m"
  have w: "pxh_write_xheader junk hs m pad =
      (PX_SUCCESS, ?m, map (\<lambda>p. with_line p (pair_text p)) hs)"
    using pxh_write_xheader_wf [OF wf, of pad] pad sz(2) by simp
  have len: "length (concat (map line_of (rev hs))) = exact"
    using lines_size_simps(3) [of hs] sz(2) unfolding lines_size_def by simp
  have "pxh_mkpairs en [] ?m pad = (PX_SUCCESS, map reread hs)"
    using pxh_mkpairs_lines [OF wf, of pad "pad - exact"] pad sz(2) by simp
  moreover have "map keyword (map reread hs) = map keyword hs"
    "map pair_text (map reread hs) = map pair_text hs"
    using wf by (auto simp: reread_simps)
  moreover have "length ?m = length m" "drop pad ?m = drop pad m"
    using len pad mem by simp_all
  ultimately show ?thesis
    using w sz(1) pad by blast
qed

lemma wf_sample: "wf_pair (pxp_mkpair_string ''path'' (Some ''a=b''))"
  using wf_mkpair(7) [OF wf_rec_sample(3)] .

lemma lines_size_sample: "lines_size [pxp_mkpair_string ''path'' (Some ''a=b'')] < 512"
proof -
  have "adjust_line_length 10 = Inr 12"
    by (simp add: adjust_line_length_def SIZE_MAX_def count_digits.simps)
  moreover have "length (rec_body ''path'' ''a=b'') = 10"
    by (simp add: rec_body_def)
  ultimately show ?thesis
    by (simp add: length_line_of [OF wf_sample] wf_mkpair(8) rec_len_def)
qed

theorem xheader_roundtrip_witness:
  "\<exists>m' hs' ps. pxh_write_xheader ([], 0) [pxp_mkpair_string ''path'' (Some ''a=b'')]
      (replicate 512 NUL) 512 = (PX_SUCCESS, m', hs') \<and>
    pxh_mkpairs None [] m' 512 = (PX_SUCCESS, ps) \<and> map keyword ps = [''path''] \<and>
    map pair_text ps = [''a=b'']"
proof -
  let ?hs = "[pxp_mkpair_string ''path'' (Some ''a=b'')]"
  have n: "0 < lines_size ?hs" "lines_size ?hs < 512"
    using lines_size_sample pair_lines.enc_nonempty [OF wf_sample] by simp_all
  have "round_to_block (lines_size ?hs) 512 = 512"
    using n by (simp add: round_to_block_def)
  then have "pxh_get_xheader_size ?hs = (PX_SUCCESS, lines_size ?hs, 512)"
    using xheader_size_loop_wf [of ?hs 0] wf_sample n by (simp add: pxh_get_xheader_size_def)
  from xheader_roundtrip [OF _ _ this, of "replicate 512 NUL" "([], 0)" None] wf_sample n
  obtain m' hs' ps where
    "pxh_write_xheader ([], 0) ?hs (replicate 512 NUL) 512 = (PX_SUCCESS, m', hs')"
    "pxh_mkpairs None [] m' 512 = (PX_SUCCESS, ps)" "map keyword ps = [''path'']"
    "map pair_text ps = [''a=b'']"
    by (auto simp: wf_mkpair(8))
  then show ?thesis
    by - (intro exI conjI)
qed

text \<open>
  C22. Removing pairs. On a heap where the header pointer leads through distinct nodes, the
  pointer updates of \<open>pxh_remove_pair\<close> end and split the list as its description says: the
  result leads through the nodes with the keyword (all of them, or the first), the header
  through the other ones, both in the old order; no pair and no node outside the list
  changes.
\<close>

theorem remove_pair_refines_list:
  assumes "chain h hdr xs" "distinct xs"
    and "pxh_remove_pair (pairs_at h xs) (Some kw) al = (out, left)"
  shows "\<exists>h' hdr' mt ys zs. h_remove_pair h hdr kw al = Some (h', hdr', mt, length out) \<and>
    chain h' mt ys \<and> pairs_at h' ys = out \<and> chain h' hdr' zs \<and> pairs_at h' zs = left \<and>
    (\<forall>b. b \<notin> set xs \<longrightarrow> h' b = h b) \<and> set ys \<union> set zs \<subseteq> set xs"
proof -
  define T where "T = take_match al (\<lambda>a. kw = kw_at h a) xs"
  have dom: "\<forall>a \<in> set xs. h a \<noteq> None"
    using seg_dom [OF assms(1)] by blast
  have sub: "set (fst T) \<subseteq> set xs" "set (snd T) \<subseteq> set xs"
    using take_match_subset by (fastforce simp: T_def)+
  have out: "out = pairs_at h (fst T)" "left = pairs_at h (snd T)"
    using assms(3) pairs_at_take_match [OF dom]
    by (simp_all add: pxh_remove_pair_def T_def map_prod_def case_prod_unfold)
  from h_remove_pair_correct [OF assms(1,2) T_def] obtain h' hdr' mt where res:
    "h_remove_pair h hdr kw al = Some (h', hdr', mt, length (fst T))" "same_pairs h h'"
    "chain h' hdr' (snd T)" "chain h' mt (fst T)" "\<forall>b. b \<notin> set xs \<longrightarrow> h' b = h b"
    by blast
  moreover have "pairs_at h' (fst T) = out" "pairs_at h' (snd T) = left" "length out = length (fst T)"
    using same_pairs_at [OF res(2)] dom sub unfolding out by (auto simp: pairs_at_def)
  ultimately show ?thesis
    using sub by (metis Un_least)
qed

text \<open>A heap of three nodes, linked 11, 12, 13, with the keywords a, b, a.\<close>

definition sample_heap :: pair_heap where
  "sample_heap = [11 \<mapsto> \<lparr>node_pair = pxp_mkpair_u64 ''a'' 7, nxt = Some 12\<rparr>,
     12 \<mapsto> \<lparr>node_pair = pxp_mkpair_u64 ''b'' 8, nxt = Some 13\<rparr>,
     13 \<mapsto> \<lparr>node_pair = pxp_mkpair_u64 ''a'' 9, nxt = None\<rparr>,
     14 \<mapsto> \<lparr>node_pair = pxp_mkpair_u64 ''a'' 5, nxt = None\<rparr>]"

lemma sample_chain: "chain sample_heap (Some 11) [11, 12, 13]"
  by (simp add: sample_heap_def get_next_def)

lemma sample_pairs: "pairs_at sample_heap [11, 12, 13] =
  [pxp_mkpair_u64 ''a'' 7, pxp_mkpair_u64 ''b'' 8, pxp_mkpair_u64 ''a'' 9]"
  by (simp add: sample_heap_def pairs_at_def)

lemma sample_nodes:
  "sample_heap 13 = Some \<lparr>node_pair = pxp_mkpair_u64 ''a'' 9, nxt = None\<rparr>"
  "sample_heap 14 = Some \<lparr>node_pair = pxp_mkpair_u64 ''a'' 5, nxt = None\<rparr>"
  by (simp_all add: sample_heap_def)

theorem remove_pair_refines_list_witness:
  "\<exists>h' hdr' mt ys zs. h_remove_pair sample_heap (Some 11) ''a'' True = Some (h', hdr', mt, 2) \<and>
    chain h' mt ys \<and> pairs_at h' ys = [pxp_mkpair_u64 ''a'' 7, pxp_mkpair_u64 ''a'' 9] \<and>
    chain h' hdr' zs \<and> pairs_at h' zs = [pxp_mkpair_u64 ''b'' 8]"
proof -
  have "pxh_remove_pair (pairs_at sample_heap [11, 12, 13]) (Some ''a'') True =
      ([pxp_mkpair_u64 ''a'' 7, pxp_mkpair_u64 ''a'' 9], [pxp_mkpair_u64 ''b'' 8])"
    by (simp add: sample_pairs pxh_remove_pair_def)
  from remove_pair_refines_list [OF sample_chain _ this] show ?thesis
    by (simp add: numeral_2_eq_2) blast
qed

text \<open>
  C23. Inserting a pair. A node that is not in the list becomes its head, and the result is
  the number of pairs with its keyword before the insertion, or 0; a node that is in the
  list already is refused, with 202 for a result and nothing changed.
\<close>

theorem put_pair_refines_list:
  assumes "chain h hdr xs" "h a = Some n"
  shows "if a \<in> set xs then h_put_pair h hdr (Some a) cm = Some (202, h, hdr)
    else (\<exists>h'. h_put_pair h hdr (Some a) cm =
        Some (fst (pxh_put_pair (pairs_at h xs) (node_pair n) cm), h', Some a) \<and>
      chain h' (Some a) (a # xs) \<and>
      pairs_at h' (a # xs) = snd (pxh_put_pair (pairs_at h xs) (node_pair n) cm) \<and>
      (\<forall>b. b \<noteq> a \<longrightarrow> h' b = h b))"
proof (cases "a \<in> set xs")
  case True
  then show ?thesis
    using h_put_pair_duplicate [OF assms(1)] by simp
next
  case False
  have dom: "\<forall>b \<in> set (a # xs). h b \<noteq> None"
    using seg_dom [OF assms(1)] assms(2) by auto
  have "h a \<noteq> None"
    using assms(2) by simp
  from h_put_pair_correct [OF assms(1) this False, of cm] obtain h' where res:
    "h_put_pair h hdr (Some a) cm =
      Some (if cm then int (pxh_count_matches (pairs_at h xs) (Some (kw_at h a))) else 0, h', Some a)"
    "chain h' (Some a) (a # xs)" "same_pairs h h'" "\<forall>b. b \<noteq> a \<longrightarrow> h' b = h b"
    by blast
  moreover have "pairs_at h' (a # xs) = node_pair n # pairs_at h xs"
    using same_pairs_at [OF res(3) dom] assms(2) by (simp add: pairs_at_def)
  ultimately show ?thesis
    using False assms(2) by (simp add: pxh_put_pair_def kw_at_def)
qed

theorem put_pair_refines_list_witness:
  "h_put_pair sample_heap (Some 11) (Some 13) True = Some (202, sample_heap, Some 11) \<and>
   (\<exists>h'. h_put_pair sample_heap (Some 11) (Some 14) True = Some (2, h', Some 14) \<and>
      chain h' (Some 14) [14, 11, 12, 13])"
  using put_pair_refines_list [OF sample_chain, of 13 "\<lparr>node_pair = pxp_mkpair_u64 ''a'' 9, nxt = None\<rparr>" True]
    put_pair_refines_list [OF sample_chain, of 14 "\<lparr>node_pair = pxp_mkpair_u64 ''a'' 5, nxt = None\<rparr>" True]
  by (simp add: sample_pairs sample_nodes pxh_put_pair_def count_matches_filter) auto

text \<open>
  C24. Looking up pairs. The array \<open>pxh_get_pair\<close> returns holds all pairs with the keyword in
  the order of the list, or the first of them, and the announced count is the number of its
  elements, so the array it allocates is filled exactly.
\<close>

theorem pxh_get_pair_correct:
  "pxh_get_pair hs (Some kw) True =
     (filter (\<lambda>p. keyword p = kw) hs, length (filter (\<lambda>p. keyword p = kw) hs)) \<and>
   pxh_get_pair hs (Some kw) False =
     (take 1 (filter (\<lambda>p. keyword p = kw) hs), length (take 1 (filter (\<lambda>p. keyword p = kw) hs)))"
proof -
  have eq: "(\<lambda>p. kw = keyword p) = (\<lambda>p. keyword p = kw)"
    by auto
  show ?thesis
    using get_pair_loop_all [of hs kw "[]" 0] get_pair_loop_first [of hs kw]
    by (auto simp: pxh_get_pair_def eq filter_empty_conv split: list.splits)
qed

end
