(* ===== verification/Pax_Hdr.thy ===== *)
theory Pax_Hdr
  imports Pax_Xhdr
begin

text \<open>
  The pax header of a file (src/lib/pax\_hdr/pax\_hdr.c): a ustar block of 512 bytes and the
  list of pairs for the values that do not fit into its fields.

  A block is a string of 512 bytes; the members of \<^verbatim>\<open>struct pax_ustar_hdr\<close> are
  fields with an offset and a length. String functions that the code applies to a member run
  on the bytes from the member on, past its end if it has no NUL. A header pointer is never
  NULL here except for \<open>_ph_set_unsigned\<close>, which two callers give NULL. The types uid\_t,
  gid\_t and mode\_t are unsigned with 32 bits, dev\_t is unsigned with 64 bits.
\<close>

section \<open>The ustar block\<close>

datatype ustar_field =
    F_name | F_mode | F_uid | F_gid | F_size | F_mtime | F_chksum | F_type | F_linkname
  | F_magic | F_version | F_uname | F_gname | F_devmajor | F_devminor | F_prefix

fun f_len :: "ustar_field \<Rightarrow> nat" where
  "f_len F_name = 100" | "f_len F_mode = 8" | "f_len F_uid = 8" | "f_len F_gid = 8"
| "f_len F_size = 12" | "f_len F_mtime = 12" | "f_len F_chksum = 8" | "f_len F_type = 1"
| "f_len F_linkname = 100" | "f_len F_magic = 6" | "f_len F_version = 2"
| "f_len F_uname = 32" | "f_len F_gname = 32" | "f_len F_devmajor = 8"
| "f_len F_devminor = 8" | "f_len F_prefix = 155"

fun f_off :: "ustar_field \<Rightarrow> nat" where
  "f_off F_name = 0" | "f_off F_mode = 100" | "f_off F_uid = 108" | "f_off F_gid = 116"
| "f_off F_size = 124" | "f_off F_mtime = 136" | "f_off F_chksum = 148" | "f_off F_type = 156"
| "f_off F_linkname = 157" | "f_off F_magic = 257" | "f_off F_version = 263"
| "f_off F_uname = 265" | "f_off F_gname = 297" | "f_off F_devmajor = 329"
| "f_off F_devminor = 337" | "f_off F_prefix = 345"

abbreviation (input) PAX_HDR_BLK_SIZE :: nat where "PAX_HDR_BLK_SIZE \<equiv> 512"
abbreviation (input) USTAR_HDR_SIZE :: nat where "USTAR_HDR_SIZE \<equiv> 500"

text \<open>The bytes from a member on, the bytes of the member, and storing it.\<close>

definition from_fld :: "string \<Rightarrow> ustar_field \<Rightarrow> string" where
  "from_fld blk f = drop (f_off f) blk"

definition fld :: "string \<Rightarrow> ustar_field \<Rightarrow> string" where
  "fld blk f = take (f_len f) (from_fld blk f)"

definition set_fld :: "string \<Rightarrow> ustar_field \<Rightarrow> string \<Rightarrow> string" where
  "set_fld blk f s = overwrite blk (f_off f) s"

definition fld_type :: "string \<Rightarrow> char" where
  "fld_type blk = hd (fld blk F_type)"

record pax_hdr =
  hdr_blk :: string
  xhdr_list :: "pax_pair list"

definition ph_create_hdr :: pax_hdr where
  "ph_create_hdr =
     \<lparr>hdr_blk = set_fld (set_fld (replicate PAX_HDR_BLK_SIZE NUL) F_magic (''ustar'' @ [NUL]))
        F_version ''00'', xhdr_list = []\<rparr>"

text \<open>The result of \<open>pxp_destroy_pairs\<close> is the number of pairs freed.\<close>

fun pxp_destroy_pairs :: "pax_pair list \<Rightarrow> nat" where
  "pxp_destroy_pairs [] = 0"
| "pxp_destroy_pairs (p # ps) = Suc (pxp_destroy_pairs ps)"

section \<open>Recognising a header\<close>

definition ph_is_pax_hdr :: "c_errno option \<Rightarrow> string \<Rightarrow> px_status \<times> nat" where
  "ph_is_pax_hdr en block =
     (if cstr (from_fld block F_magic) \<noteq> ''ustar'' then (PX_ERROR_NOT_PAX_HEADER, 0)
      else if take 2 (from_fld block F_version) \<noteq> ''00'' then (PX_ERROR_NOT_PAX_HEADER, 0)
      else
        (let t = (of_char (fld_type block) :: nat);
             ext = (\<lambda>result. case strtosize_t en (from_fld block F_size) 8 of (st, xhdr_size, _) \<Rightarrow>
               if \<not> PXSUCCESS st then (st, 0)
               else
                 (let sz = round_to_block xhdr_size PAX_HDR_BLK_SIZE
                  in (if result = PX_SUCCESS_GLOBAL_HEADER then PX_ERROR_NOT_SUPPORTED else result,
                      if result = PX_SUCCESS_EXT_HEADER then (sz + PAX_HDR_BLK_SIZE) mod 2 ^ 64
                      else sz)))
         in if of_char (CHR ''0'') \<le> t \<and> t \<le> of_char (CHR ''7'') then (PX_SUCCESS_STD_HEADER, 0)
            else if fld_type block = CHR ''g'' then ext PX_SUCCESS_GLOBAL_HEADER
            else if fld_type block = CHR ''x'' then ext PX_SUCCESS_EXT_HEADER
            else (PX_ERROR_NOT_PAX_HEADER, 0)))"

definition ph_has_ext_hdr :: "pax_hdr option \<Rightarrow> int" where
  "ph_has_ext_hdr hdr =
     (case hdr of None \<Rightarrow> - PX_ERROR_INVALID | Some h \<Rightarrow> if xhdr_list h \<noteq> [] then 1 else 0)"

text \<open>
  The sizes: of the header (\<^const>\<open>None\<close> where the code does not store it), exact and
  padded size of the extended data.
\<close>

definition ph_get_header_size :: "pax_hdr \<Rightarrow> px_status \<times> nat option \<times> nat \<times> nat" where
  "ph_get_header_size hdr =
     (if ph_has_ext_hdr (Some hdr) = 0 then (PX_SUCCESS, Some PAX_HDR_BLK_SIZE, 0, 0)
      else (case pxh_get_xheader_size (xhdr_list hdr) of (st, exact, pad) \<Rightarrow>
        if \<not> PXSUCCESS st then (st, None, exact, pad)
        else (st, Some ((pad + 2 * PAX_HDR_BLK_SIZE) mod 2 ^ 64), exact, pad)))"

section \<open>Storing values\<close>

text \<open>
  The internal set functions work on the pair list of a header and the bytes of a member
  (\<^const>\<open>None\<close> for a NULL destination). They return the status, the list and the bytes.
  strlcpy writes what snprintf with the format \<open>%s\<close> writes.
\<close>

definition ph_set_string ::
  "pax_pair list \<Rightarrow> string \<Rightarrow> nat \<Rightarrow> string \<Rightarrow> string option \<Rightarrow> px_status \<times> pax_pair list \<times> string" where
  "ph_set_string xl dst dlen src key =
     (let zero = replicate dlen NUL; xl' = snd (pxh_remove_pair xl key True)
      in if dlen < length src then
           (case key of
              None \<Rightarrow> (PX_ERROR_WONT_FIT, xl', zero)
            | Some k \<Rightarrow>
                (case pxh_put_pair xl' (pxp_mkpair_string k (Some src)) False of
                   (st, xl'') \<Rightarrow> (st, xl'', zero)))
         else (PX_SUCCESS, xl', snprintf zero dlen src))"

definition ph_set_unsigned ::
  "pax_pair list option \<Rightarrow> string option \<Rightarrow> nat \<Rightarrow> u64 \<Rightarrow> string option \<Rightarrow>
   px_status \<times> pax_pair list option \<times> string option" where
  "ph_set_unsigned xl dst dlen src key =
     (let xl' = map_option (\<lambda>l. snd (pxh_remove_pair l key True)) xl;
          s = fmt_o (dlen - 1) (unat src)
      in if dst = None \<or> dlen \<le> length s then
           (let zero = map_option (\<lambda>_. replicate dlen NUL) dst
            in case (key, xl') of
                 (Some k, Some l) \<Rightarrow>
                   (case pxh_put_pair l (pxp_mkpair_u64 k src) False of
                      (st, l') \<Rightarrow> (st, Some l', zero))
               | _ \<Rightarrow> (PX_ERROR_WONT_FIT, xl', zero))
         else (PX_SUCCESS, xl', map_option (\<lambda>d. snprintf d dlen s) dst))"

definition ph_set_signed ::
  "pax_pair list \<Rightarrow> string option \<Rightarrow> nat \<Rightarrow> i64 \<Rightarrow> string option \<Rightarrow>
   px_status \<times> pax_pair list \<times> string option" where
  "ph_set_signed xl dst dlen src key =
     (let xl' = snd (pxh_remove_pair xl key True);
          s = fmt_o (dlen - 1) (unat src)
      in if dst = None \<or> sint src < 0 \<or> dlen \<le> length s then
           (let zero = map_option (\<lambda>_. replicate dlen NUL) dst
            in case key of
                 None \<Rightarrow> (PX_ERROR_WONT_FIT, xl', zero)
               | Some k \<Rightarrow>
                   (case pxh_put_pair xl' (pxp_mkpair_i64 k src) False of
                      (st, l') \<Rightarrow> (st, l', zero)))
         else (PX_SUCCESS, xl', map_option (\<lambda>d. snprintf d dlen s) dst))"

definition ph_set_time ::
  "pax_pair list \<Rightarrow> string option \<Rightarrow> nat \<Rightarrow> pax_time \<Rightarrow> string option \<Rightarrow>
   px_status \<times> pax_pair list \<times> string option" where
  "ph_set_time xl dst dlen src key =
     (let xl' = snd (pxh_remove_pair xl key True);
          s = fmt_o (dlen - 1) (unat (sec src))
      in if dst = None \<or> nsec src \<noteq> 0 \<or> dlen \<le> length s then
           (let zero = map_option (\<lambda>_. replicate dlen NUL) dst
            in case key of
                 None \<Rightarrow> (PX_ERROR_WONT_FIT, xl', zero)
               | Some k \<Rightarrow>
                   (case pxh_put_pair xl' (pxp_mkpair_time k src) False of
                      (st, l') \<Rightarrow> (st, l', zero)))
         else (PX_SUCCESS, xl', map_option (\<lambda>d. snprintf d dlen s) dst))"

text \<open>The exported set functions; the first parameter of those a macro defines is the member.\<close>

definition store :: "pax_hdr \<Rightarrow> ustar_field \<Rightarrow> string option \<Rightarrow> pax_pair list \<Rightarrow> pax_hdr" where
  "store hdr f bytes xl =
     hdr\<lparr>hdr_blk := (case bytes of None \<Rightarrow> hdr_blk hdr | Some b \<Rightarrow> set_fld (hdr_blk hdr) f b),
       xhdr_list := xl\<rparr>"

definition ph_set_string_fn ::
  "ustar_field \<Rightarrow> string option \<Rightarrow> pax_hdr \<Rightarrow> string \<Rightarrow> px_status \<times> pax_hdr" where
  "ph_set_string_fn f alt hdr v =
     (case ph_set_string (xhdr_list hdr) (fld (hdr_blk hdr) f) (f_len f) v alt of
        (st, xl, b) \<Rightarrow> (st, store hdr f (Some b) xl))"

definition ph_set_name :: "pax_hdr \<Rightarrow> string \<Rightarrow> px_status \<times> pax_hdr" where
  "ph_set_name = ph_set_string_fn F_name (Some ''path'')"

definition ph_set_linkname :: "pax_hdr \<Rightarrow> string \<Rightarrow> px_status \<times> pax_hdr" where
  "ph_set_linkname = ph_set_string_fn F_linkname (Some ''linkpath'')"

definition ph_set_uname :: "pax_hdr \<Rightarrow> string \<Rightarrow> px_status \<times> pax_hdr" where
  "ph_set_uname = ph_set_string_fn F_uname (Some ''uname'')"

definition ph_set_gname :: "pax_hdr \<Rightarrow> string \<Rightarrow> px_status \<times> pax_hdr" where
  "ph_set_gname = ph_set_string_fn F_gname (Some ''gname'')"

definition ph_set_unsigned_fn ::
  "ustar_field \<Rightarrow> string option \<Rightarrow> pax_hdr \<Rightarrow> u64 \<Rightarrow> px_status \<times> pax_hdr" where
  "ph_set_unsigned_fn f alt hdr v =
     (case ph_set_unsigned (Some (xhdr_list hdr)) (Some (fld (hdr_blk hdr) f)) (f_len f) v alt of
        (st, xl, b) \<Rightarrow> (st, store hdr f b (case xl of None \<Rightarrow> xhdr_list hdr | Some l \<Rightarrow> l)))"

text \<open>
  The macros for types whose sign is known to the compiler only. \<open>signed_t\<close> says that the type is
  signed; \<open>v\<close> is the value extended to 64 bits.
\<close>

definition ph_set_undef_signed_fn ::
  "bool \<Rightarrow> ustar_field \<Rightarrow> string option \<Rightarrow> pax_hdr \<Rightarrow> i64 \<Rightarrow> px_status \<times> pax_hdr" where
  "ph_set_undef_signed_fn signed_t f alt hdr v =
     (if \<not> signed_t \<or> 0 \<le> sint v then ph_set_unsigned_fn f alt hdr v
      else (case ph_set_signed (xhdr_list hdr) (Some (fld (hdr_blk hdr) f)) (f_len f) v alt of
        (st, xl, b) \<Rightarrow> (st, store hdr f b xl)))"

definition ph_set_uid :: "pax_hdr \<Rightarrow> u32 \<Rightarrow> px_status \<times> pax_hdr" where
  "ph_set_uid hdr v = ph_set_undef_signed_fn False F_uid (Some ''uid'') hdr (ucast v)"

definition ph_set_gid :: "pax_hdr \<Rightarrow> u32 \<Rightarrow> px_status \<times> pax_hdr" where
  "ph_set_gid hdr v = ph_set_undef_signed_fn False F_gid (Some ''gid'') hdr (ucast v)"

definition ph_set_mode :: "pax_hdr \<Rightarrow> u32 \<Rightarrow> px_status \<times> pax_hdr" where
  "ph_set_mode hdr v = ph_set_undef_signed_fn False F_mode None hdr (ucast v)"

definition ph_set_devmajor :: "pax_hdr \<Rightarrow> u64 \<Rightarrow> px_status \<times> pax_hdr" where
  "ph_set_devmajor hdr v = ph_set_undef_signed_fn False F_devmajor None hdr v"

definition ph_set_devminor :: "pax_hdr \<Rightarrow> u64 \<Rightarrow> px_status \<times> pax_hdr" where
  "ph_set_devminor hdr v = ph_set_undef_signed_fn False F_devminor None hdr v"

definition ph_set_size :: "pax_hdr \<Rightarrow> i64 \<Rightarrow> px_status \<times> pax_hdr" where
  "ph_set_size hdr v = ph_set_unsigned_fn F_size (Some ''size'') hdr v"

definition ph_set_mtime :: "pax_hdr \<Rightarrow> pax_time \<Rightarrow> px_status \<times> pax_hdr" where
  "ph_set_mtime hdr v =
     (case ph_set_time (xhdr_list hdr) (Some (fld (hdr_blk hdr) F_mtime)) (f_len F_mtime) v
        (Some ''mtime'') of (st, xl, b) \<Rightarrow> (st, store hdr F_mtime b xl))"

definition ph_set_atime :: "pax_hdr \<Rightarrow> pax_time \<Rightarrow> px_status \<times> pax_hdr" where
  "ph_set_atime hdr v =
     (case ph_set_time (xhdr_list hdr) None 0 v (Some ''atime'') of
        (st, xl, _) \<Rightarrow> (st, hdr\<lparr>xhdr_list := xl\<rparr>))"

definition ph_set_type :: "pax_hdr \<Rightarrow> char \<Rightarrow> px_status \<times> pax_hdr" where
  "ph_set_type hdr c = (PX_SUCCESS, hdr\<lparr>hdr_blk := set_fld (hdr_blk hdr) F_type [c]\<rparr>)"

section \<open>Reading values\<close>

text \<open>
  A getter may convert the value of the pair it finds; the header comes back with that
  pair's cached value. The first pair with the keyword is the one that counts.
\<close>

fun set_first :: "string \<Rightarrow> pax_pair \<Rightarrow> pax_pair list \<Rightarrow> pax_pair list" where
  "set_first kw q [] = []"
| "set_first kw q (p # ps) = (if keyword p = kw then q # ps else p # set_first kw q ps)"

definition found :: "pax_hdr \<Rightarrow> string option \<Rightarrow> (string \<times> pax_pair) option" where
  "found hdr key =
     (case key of None \<Rightarrow> None
      | Some k \<Rightarrow> (case pxh_get_pair (xhdr_list hdr) key False of
          ([], _) \<Rightarrow> None | (p # _, _) \<Rightarrow> Some (k, p)))"

definition ph_get_string ::
  "pax_hdr \<Rightarrow> ustar_field \<Rightarrow> string option \<Rightarrow> px_status \<times> string option \<times> pax_hdr" where
  "ph_get_string hdr f key =
     (case found hdr key of
        Some (k, p) \<Rightarrow>
          (case pxp_get_string p of (st, v, p') \<Rightarrow>
             (st, if PXSUCCESS st then v else None,
              hdr\<lparr>xhdr_list := set_first k p' (xhdr_list hdr)\<rparr>))
      | None \<Rightarrow>
          (let area = from_fld (hdr_blk hdr) f
           in if f_len f \<le> strlen area then (PX_ERROR_MALFORMED, None, hdr)
              else (PX_SUCCESS, if strlen area = 0 then None else Some (cstr area), hdr)))"

definition ph_get_unsigned ::
  "pax_hdr \<Rightarrow> ustar_field \<Rightarrow> string option \<Rightarrow> px_status \<times> u64 \<times> pax_hdr" where
  "ph_get_unsigned hdr f key =
     (case found hdr key of
        Some (k, p) \<Rightarrow>
          (case pxp_get_u64 p of (st, v, p') \<Rightarrow>
             (st, case v of None \<Rightarrow> 0 | Some w \<Rightarrow> w,
              hdr\<lparr>xhdr_list := set_first k p' (xhdr_list hdr)\<rparr>))
      | None \<Rightarrow>
          (case parse_u64 (from_fld (hdr_blk hdr) f) (Some (f_len f)) 8
              {ALLOW_LEADING_WS, ALLOW_TRAILING_CHARS} of
             Inl st \<Rightarrow> (st, 0, hdr) | Inr (v, _) \<Rightarrow> (PX_SUCCESS, v, hdr)))"

definition ph_get_signed ::
  "pax_hdr \<Rightarrow> ustar_field \<Rightarrow> string option \<Rightarrow> px_status \<times> i64 \<times> pax_hdr" where
  "ph_get_signed hdr f key =
     (case found hdr key of
        Some (k, p) \<Rightarrow>
          (case pxp_get_i64 p of (st, v, p') \<Rightarrow>
             (st, case v of None \<Rightarrow> 0 | Some w \<Rightarrow> w,
              hdr\<lparr>xhdr_list := set_first k p' (xhdr_list hdr)\<rparr>))
      | None \<Rightarrow>
          (case parse_i64 (from_fld (hdr_blk hdr) f) (Some (f_len f)) 8
              {ALLOW_LEADING_WS, ALLOW_TRAILING_CHARS} of
             Inl st \<Rightarrow> (st, 0, hdr) | Inr (v, _) \<Rightarrow> (PX_SUCCESS, v, hdr)))"

text \<open>Reading a time may not end; the member is \<^const>\<open>None\<close> for the access time.\<close>

definition ph_get_time ::
  "pax_hdr \<Rightarrow> ustar_field option \<Rightarrow> string option \<Rightarrow> (px_status \<times> pax_time \<times> pax_hdr) option" where
  "ph_get_time hdr f key =
     (case found hdr key of
        Some (k, p) \<Rightarrow>
          map_option (\<lambda>(st, v, p').
              (st, case v of None \<Rightarrow> \<lparr>sec = 0, nsec = 0\<rparr> | Some w \<Rightarrow> w,
               hdr\<lparr>xhdr_list := set_first k p' (xhdr_list hdr)\<rparr>))
            (pxp_get_time p)
      | None \<Rightarrow> Some (case f of
          None \<Rightarrow> (PX_SUCCESS, \<lparr>sec = 0, nsec = 0\<rparr>, hdr)
        | Some m \<Rightarrow> (case parse_i64 (from_fld (hdr_blk hdr) m) (Some (f_len m)) 8
              {ALLOW_LEADING_WS, ALLOW_TRAILING_CHARS} of
             Inl st \<Rightarrow> (st, \<lparr>sec = 0, nsec = 0\<rparr>, hdr)
           | Inr (v, _) \<Rightarrow> (PX_SUCCESS, \<lparr>sec = v, nsec = 0\<rparr>, hdr))))"

definition ph_get_name :: "pax_hdr \<Rightarrow> px_status \<times> string option \<times> pax_hdr" where
  "ph_get_name hdr = ph_get_string hdr F_name (Some ''path'')"

definition ph_get_linkname :: "pax_hdr \<Rightarrow> px_status \<times> string option \<times> pax_hdr" where
  "ph_get_linkname hdr = ph_get_string hdr F_linkname (Some ''linkpath'')"

definition ph_get_uname :: "pax_hdr \<Rightarrow> px_status \<times> string option \<times> pax_hdr" where
  "ph_get_uname hdr = ph_get_string hdr F_uname (Some ''uname'')"

definition ph_get_gname :: "pax_hdr \<Rightarrow> px_status \<times> string option \<times> pax_hdr" where
  "ph_get_gname hdr = ph_get_string hdr F_gname (Some ''gname'')"

definition ph_get_undef_signed_fn ::
  "bool \<Rightarrow> ustar_field \<Rightarrow> string option \<Rightarrow> pax_hdr \<Rightarrow> px_status \<times> i64 \<times> pax_hdr" where
  "ph_get_undef_signed_fn signed_t f alt hdr =
     (if \<not> signed_t then ph_get_unsigned hdr f alt else ph_get_signed hdr f alt)"

definition ph_get_uid :: "pax_hdr \<Rightarrow> px_status \<times> u32 \<times> pax_hdr" where
  "ph_get_uid hdr = (case ph_get_undef_signed_fn False F_uid (Some ''uid'') hdr of
     (st, v, h) \<Rightarrow> (st, ucast v, h))"

definition ph_get_gid :: "pax_hdr \<Rightarrow> px_status \<times> u32 \<times> pax_hdr" where
  "ph_get_gid hdr = (case ph_get_undef_signed_fn False F_gid (Some ''gid'') hdr of
     (st, v, h) \<Rightarrow> (st, ucast v, h))"

definition ph_get_mode :: "pax_hdr \<Rightarrow> px_status \<times> u32 \<times> pax_hdr" where
  "ph_get_mode hdr = (case ph_get_undef_signed_fn False F_mode None hdr of
     (st, v, h) \<Rightarrow> (st, ucast v, h))"

definition ph_get_devmajor :: "pax_hdr \<Rightarrow> px_status \<times> u64 \<times> pax_hdr" where
  "ph_get_devmajor hdr = ph_get_undef_signed_fn False F_devmajor None hdr"

definition ph_get_devminor :: "pax_hdr \<Rightarrow> px_status \<times> u64 \<times> pax_hdr" where
  "ph_get_devminor hdr = ph_get_undef_signed_fn False F_devminor None hdr"

definition ph_get_size :: "pax_hdr \<Rightarrow> px_status \<times> i64 \<times> pax_hdr" where
  "ph_get_size hdr = ph_get_unsigned hdr F_size (Some ''size'')"

definition ph_get_mtime :: "pax_hdr \<Rightarrow> (px_status \<times> pax_time \<times> pax_hdr) option" where
  "ph_get_mtime hdr = ph_get_time hdr (Some F_mtime) (Some ''mtime'')"

definition ph_get_atime :: "pax_hdr \<Rightarrow> (px_status \<times> pax_time \<times> pax_hdr) option" where
  "ph_get_atime hdr = ph_get_time hdr None (Some ''atime'')"

definition ph_get_type :: "pax_hdr \<Rightarrow> px_status \<times> char" where
  "ph_get_type hdr = (PX_SUCCESS, fld_type (hdr_blk hdr))"

section \<open>Generated names\<close>

datatype pax_gen_name_type = PAX_XHDR_NAME | PAX_FILE_NAME

text \<open>
  The static variables of \<open>ph_generate_short_name\<close>, and the number of calls of time so far;
  \<open>clk n\<close> is what call number n returns. The type time\_t has 64 bits.
\<close>

record name_state =
  id_num :: u32
  last_arch_time :: i64
  ticks :: nat

definition short_name :: "name_state \<Rightarrow> string" where
  "short_name st = fmt_d (sint (last_arch_time st)) @ ''_'' @ fmt_d (sint (id_num st))"

definition ph_generate_short_name ::
  "(nat \<Rightarrow> i64) \<Rightarrow> name_state \<Rightarrow> string \<Rightarrow> nat \<Rightarrow> bool \<Rightarrow> px_status \<times> string \<times> name_state" where
  "ph_generate_short_name clk st buffer buffer_size increment_serial =
     (let arch_time = clk (ticks st);
          st1 = st\<lparr>ticks := Suc (ticks st)\<rparr>;
          st2 = (if \<not> increment_serial then st1
                 else if arch_time \<noteq> last_arch_time st
                   then st1\<lparr>id_num := 0, last_arch_time := arch_time\<rparr>
                 else st1\<lparr>id_num := id_num st + 1\<rparr>);
          s = short_name st2
      in (if buffer_size \<le> length s then PX_ERROR_OVERFLOW else PX_SUCCESS,
          snprintf buffer buffer_size s, st2))"

definition ph_basic_name_callback ::
  "(nat \<Rightarrow> i64) \<Rightarrow> name_state \<Rightarrow> string \<Rightarrow> nat \<Rightarrow> string \<Rightarrow> nat \<Rightarrow> string option \<Rightarrow> bool \<Rightarrow>
   pax_gen_name_type \<Rightarrow> px_status \<times> string \<times> string \<times> name_state" where
  "ph_basic_name_callback clk st name_buffer name_size prefix_buffer prefix_size actual_name
      increment_serial name_type =
     (case actual_name of
        None \<Rightarrow> (PX_ERROR_INVALID, name_buffer, prefix_buffer, st)
      | Some actual \<Rightarrow>
          (let prefix = (if name_type = PAX_XHDR_NAME then ''pax__'' else ''file_'');
               place = (\<lambda>name st.
                 if length prefix + 1 + length name < name_size
                 then (PX_SUCCESS, snprintf name_buffer name_size (prefix @ ''/'' @ name),
                   prefix_buffer, st)
                 else if length name < name_size \<and> length prefix < prefix_size
                 then (PX_SUCCESS, snprintf name_buffer name_size name,
                   snprintf prefix_buffer prefix_size prefix, st)
                 else (PX_ERROR_OVERFLOW, name_buffer, prefix_buffer, st))
           in if name_size \<le> length actual then
                (case ph_generate_short_name clk st (replicate name_size NUL) name_size
                    increment_serial of (status, gen, st') \<Rightarrow>
                   if \<not> PXSUCCESS status then (status, name_buffer, prefix_buffer, st')
                   else place (cstr gen) st')
              else if name_type = PAX_FILE_NAME
                then (PX_SUCCESS, overwrite name_buffer 0 (actual @ [NUL]), prefix_buffer, st)
              else place actual st))"

section \<open>Writing a header\<close>

type_synonym name_cb =
  "name_state \<Rightarrow> string \<Rightarrow> nat \<Rightarrow> string \<Rightarrow> nat \<Rightarrow> string option \<Rightarrow> bool \<Rightarrow> pax_gen_name_type \<Rightarrow>
   px_status \<times> string \<times> string \<times> name_state"

definition checksum :: "string \<Rightarrow> px_status \<times> string" where
  "checksum blk =
     (let blk1 = set_fld blk F_chksum (replicate 8 (CHR '' ''));
          chksum = word_of_int (sum_list (map signed_char (take USTAR_HDR_SIZE blk1))) :: u64
      in case ph_set_unsigned None (Some (fld blk1 F_chksum)) 8 chksum None of
           (st, _, d) \<Rightarrow> (st, case d of None \<Rightarrow> blk1 | Some b \<Rightarrow> set_fld blk1 F_chksum b))"

definition merge_field :: "string \<Rightarrow> ustar_field \<Rightarrow> string \<Rightarrow> string" where
  "merge_field uhdr f ublk =
     (if 0 < strlen (from_fld uhdr f) then set_fld ublk f (fld uhdr f) else ublk)"

definition merge_version :: "string \<Rightarrow> string \<Rightarrow> string" where
  "merge_version uhdr ublk =
     (if fld uhdr F_version ! 0 \<noteq> NUL \<and> fld uhdr F_version ! 1 \<noteq> NUL
      then set_fld ublk F_version (fld uhdr F_version) else ublk)"

definition merged_fields :: "string \<Rightarrow> string \<Rightarrow> string" where
  "merged_fields uhdr udefaults =
     fold (merge_field uhdr) [F_uname, F_gname, F_devmajor, F_devminor]
       (merge_version uhdr
         (fold (merge_field uhdr) [F_mode, F_uid, F_gid, F_size, F_mtime, F_magic]
           (take USTAR_HDR_SIZE udefaults @ replicate 12 NUL)))"

definition write_merged_ustar_blk ::
  "name_cb \<Rightarrow> name_state \<Rightarrow> pax_hdr \<Rightarrow> pax_hdr \<Rightarrow> bool \<Rightarrow>
   px_status \<times> string \<times> pax_hdr \<times> name_state" where
  "write_merged_ustar_blk cb st hdr defaults xhdr_blk =
     (let uhdr = hdr_blk hdr;
          ublk = set_fld (merged_fields uhdr (hdr_blk defaults)) F_type
            (if xhdr_blk then ''x'' else fld uhdr F_type)
      in if ph_has_ext_hdr (Some hdr) \<noteq> 0 then
           (case ph_get_name hdr of (status, actual_name, hdr') \<Rightarrow>
              if \<not> PXSUCCESS status then (status, ublk, hdr', st)
              else (case cb st (fld ublk F_name) (f_len F_name) (fld ublk F_prefix) (f_len F_prefix)
                  actual_name xhdr_blk (if xhdr_blk then PAX_XHDR_NAME else PAX_FILE_NAME) of
                (status, name, prefix, st') \<Rightarrow>
                  (status, set_fld (set_fld ublk F_name name) F_prefix prefix, hdr', st')))
         else if xhdr_blk then (PX_ERROR_INVALID, ublk, hdr, st)
         else (PX_SUCCESS, merge_field uhdr F_linkname (merge_field uhdr F_name ublk), hdr, st))"

text \<open>
  \<open>buffer\<close> is the memory the buffer pointer leads to. The result is the status, the memory,
  the value stored in \<open>written\<close>, the header with the conversions its pairs now hold, and the
  state of the callback. \<^const>\<open>None\<close> is a NULL pointer dereferenced: \<open>written\<close> when the
  buffer is too small, \<open>defaults\<close> when the header has no extended data. The status of the
  first checksum is overwritten, as in the code.
\<close>

definition write_file_blk ::
  "name_cb \<Rightarrow> name_state \<Rightarrow> pax_hdr \<Rightarrow> pax_hdr \<Rightarrow> string \<Rightarrow> nat \<Rightarrow> nat \<Rightarrow>
   px_status \<times> string \<times> nat option \<times> pax_hdr \<times> name_state" where
  "write_file_blk cb st hdr defaults buffer off hsize =
     (case write_merged_ustar_blk cb st hdr defaults False of (status, blk, hdr', st') \<Rightarrow>
        if \<not> PXSUCCESS status then (status, overwrite buffer off blk, None, hdr', st')
        else (case checksum blk of (status', blk') \<Rightarrow>
          (status', overwrite buffer off blk', Some hsize, hdr', st')))"

definition write_ext_hdr ::
  "name_cb \<Rightarrow> name_state \<Rightarrow> pax_hdr \<Rightarrow> pax_hdr \<Rightarrow> string \<Rightarrow> string \<times> nat \<Rightarrow> nat \<Rightarrow> nat \<Rightarrow> nat \<Rightarrow>
   px_status \<times> string \<times> nat option \<times> pax_hdr \<times> name_state" where
  "write_ext_hdr cb st hdr defaults buffer junk hsize exact pad =
     (case write_merged_ustar_blk cb st hdr defaults True of (status, blk, hdr1, st1) \<Rightarrow>
        if \<not> PXSUCCESS status then (status, overwrite buffer 0 blk, None, hdr1, st1)
        else (case ph_set_unsigned None (Some (fld blk F_size)) (f_len F_size) (word_of_nat exact) None
          of (status2, _, d) \<Rightarrow>
            (let blk2 = (case d of None \<Rightarrow> blk | Some b \<Rightarrow> set_fld blk F_size b)
             in if \<not> PXSUCCESS status2 then (status2, overwrite buffer 0 blk2, None, hdr1, st1)
                else
                  (let buf1 = overwrite buffer 0 (snd (checksum blk2))
                   in case pxh_write_xheader junk (xhdr_list hdr1) (drop PAX_HDR_BLK_SIZE buf1) pad of
                        (status3, data, ps) \<Rightarrow>
                          (let buf2 = take PAX_HDR_BLK_SIZE buf1 @ data;
                               hdr2 = hdr1\<lparr>xhdr_list := ps\<rparr>
                           in if \<not> PXSUCCESS status3 then (status3, buf2, None, hdr2, st1)
                              else write_file_blk cb st1 hdr2 defaults buf2
                                (PAX_HDR_BLK_SIZE + pad) hsize)))))"

definition ph_write_header ::
  "name_cb \<Rightarrow> name_state \<Rightarrow> string \<times> nat \<Rightarrow> pax_hdr \<Rightarrow> string \<Rightarrow> nat \<Rightarrow> bool \<Rightarrow> pax_hdr option \<Rightarrow>
   (px_status \<times> string \<times> nat option \<times> pax_hdr \<times> name_state) option" where
  "ph_write_header cb st junk hdr buffer buffer_size has_written defaults =
     (case ph_get_header_size hdr of (_, sz, exact, pad) \<Rightarrow>
        (let hsize = (case sz of None \<Rightarrow> PAX_HDR_BLK_SIZE | Some n \<Rightarrow> n)
         in if buffer_size < hsize then
              (if has_written then Some (PX_ERROR_WONT_FIT, buffer, Some hsize, hdr, st) else None)
            else if ph_has_ext_hdr (Some hdr) \<noteq> 0 then
              (case defaults of
                 None \<Rightarrow> Some (PX_ERROR_REQUIRE_DEFAULTS, buffer, None, hdr, st)
               | Some d \<Rightarrow>
                   Some (if ph_has_ext_hdr (Some d) \<noteq> 0
                     then (PX_ERROR_DEFAULTS_XHDR, buffer, None, hdr, st)
                     else write_ext_hdr cb st hdr d buffer junk hsize exact pad))
            else (case defaults of
                None \<Rightarrow> None
              | Some d \<Rightarrow> Some (write_file_blk cb st hdr d buffer 0 hsize))))"

section \<open>Loading a header\<close>

definition ph_load_pax_hdr ::
  "c_errno option \<Rightarrow> pax_hdr \<Rightarrow> string \<Rightarrow> nat \<Rightarrow> px_status \<times> pax_hdr" where
  "ph_load_pax_hdr en hdr buffer buffer_len =
     (case ph_is_pax_hdr en buffer of (status, addl_bytes) \<Rightarrow>
        if \<not> PXSUCCESS status then (status, hdr)
        else if status = PX_SUCCESS_EXT_HEADER then
          (if (addl_bytes + PAX_HDR_BLK_SIZE) mod 2 ^ 64 \<noteq> buffer_len
           then (PX_ERROR_INVALID_BUFFER, hdr)
           else
             (let std_hdr = drop addl_bytes buffer;
                  xhdr_len = addl_bytes - PAX_HDR_BLK_SIZE;
                  (status', _) = ph_is_pax_hdr en std_hdr;
                  hdr1 = hdr\<lparr>hdr_blk := take PAX_HDR_BLK_SIZE std_hdr\<rparr>
              in if status' \<noteq> PX_SUCCESS_STD_HEADER then (PX_ERROR_INVALID_HEADER, hdr)
                 else if 0 < xhdr_len then
                   (case pxh_mkpairs en (xhdr_list hdr1) (drop PAX_HDR_BLK_SIZE buffer) xhdr_len of
                      (st, ps) \<Rightarrow> (st, hdr1\<lparr>xhdr_list := ps\<rparr>))
                 else (status', hdr1)))
        else if status = PX_SUCCESS_STD_HEADER
          then (status, hdr\<lparr>hdr_blk := take PAX_HDR_BLK_SIZE buffer\<rparr>)
        else (PX_ERROR_NOT_SUPPORTED, hdr))"

section \<open>Fields: lemmas\<close>

lemma f_disjoint: "f \<noteq> g \<Longrightarrow> f_off f + f_len f \<le> f_off g \<or> f_off g + f_len g \<le> f_off f"
  by (cases f; cases g) simp_all

lemma f_inside: "f_off f + f_len f \<le> 500"
  by (cases f) simp_all

lemma length_fld [simp]: "length blk = 512 \<Longrightarrow> length (fld blk f) = f_len f"
  using f_inside [of f] by (simp add: fld_def from_fld_def)

lemma length_set_fld [simp]:
  "length blk = 512 \<Longrightarrow> length s = f_len f \<Longrightarrow> length (set_fld blk f s) = 512"
  using f_inside [of f] by (simp add: set_fld_def)

lemma fld_set_same [simp]:
  "length blk = 512 \<Longrightarrow> length s = f_len f \<Longrightarrow> fld (set_fld blk f s) f = s"
  using f_inside [of f] take_drop_overwrite_same [of "f_off f" s blk]
  by (simp add: fld_def from_fld_def set_fld_def)

lemma fld_set_other [simp]:
  assumes "length blk = 512" "length s = f_len f" "f \<noteq> g"
  shows "fld (set_fld blk f s) g = fld blk g"
  using f_disjoint [OF assms(3)] f_inside [of f] assms
  by (auto simp: fld_def from_fld_def set_fld_def take_drop_overwrite_below take_drop_overwrite_above)

lemma from_fld_split: "from_fld blk f = fld blk f @ drop (f_off f + f_len f) blk"
  by (simp add: fld_def from_fld_def add.commute flip: drop_drop)

section \<open>Values: lemmas\<close>

lemma found_find:
  "found hdr (Some k) = map_option (Pair k) (find (\<lambda>p. keyword p = k) (xhdr_list hdr))"
proof -
  have "get_pair_loop ps k False [] 0 = (case find (\<lambda>p. keyword p = k) ps of
      None \<Rightarrow> ([], 0) | Some p \<Rightarrow> ([p], 1))" for ps
    by (induction ps) (auto simp: Let_def)
  then show ?thesis
    by (simp add: found_def pxh_get_pair_def split: option.splits)
qed

lemma found_None [simp]: "found hdr None = None"
  by (simp add: found_def)

lemma find_filter_out [simp]: "find (\<lambda>p. keyword p = k) (filter (\<lambda>p. keyword p \<noteq> k) ps) = None"
  by (simp add: find_None_iff)

lemma remove_all: "snd (pxh_remove_pair xl (Some k) True) = filter (\<lambda>p. keyword p \<noteq> k) xl"
  by (simp add: pxh_remove_pair_def take_match_all)

lemma remove_none [simp]: "snd (pxh_remove_pair xl None al) = xl"
  by (simp add: pxh_remove_pair_def)

lemma set_first_head [simp]: "keyword p = k \<Longrightarrow> set_first k p (p # ps) = p # ps"
  by simp

text \<open>A number printed into a member fills it, up to the NUL.\<close>

definition num_fits :: "ustar_field \<Rightarrow> u64 \<Rightarrow> bool" where
  "num_fits f v \<longleftrightarrow> unat v < 8 ^ (f_len f - 1)"

definition num_text :: "ustar_field \<Rightarrow> u64 \<Rightarrow> string" where
  "num_text f v = fmt_o (f_len f - 1) (unat v) @ [NUL]"

lemma num_fits_length:
  assumes "2 \<le> f_len f"
  shows "f_len f \<le> length (fmt_o (f_len f - 1) (unat v)) \<longleftrightarrow> \<not> num_fits f v"
    and "num_fits f v \<Longrightarrow> length (num_text f v) = f_len f"
proof -
  have eq: "length (fmt_o (f_len f - 1) n) \<le> f_len f - 1 \<longleftrightarrow> n < 8 ^ (f_len f - 1)" for n
    using assms by (intro length_fmt_o_le) simp
  then show "f_len f \<le> length (fmt_o (f_len f - 1) (unat v)) \<longleftrightarrow> \<not> num_fits f v"
    unfolding num_fits_def eq [symmetric] using assms by linarith
  show "num_fits f v \<Longrightarrow> length (num_text f v) = f_len f"
    using eq [of "unat v"] assms by (simp add: num_fits_def num_text_def length_fmt_o)
qed

lemma snprintf_num:
  "2 \<le> f_len f \<Longrightarrow> num_fits f v \<Longrightarrow> length d = f_len f \<Longrightarrow>
   snprintf d (f_len f) (fmt_o (f_len f - 1) (unat v)) = num_text f v"
  using num_fits_length [of f v] by (simp add: snprintf_fits num_text_def not_le)

lemma parse_u64_num:
  assumes "fld blk f = num_text f v" "num_fits f v" "2 \<le> f_len f"
  shows "parse_u64 (from_fld blk f) (Some (f_len f)) 8 {ALLOW_LEADING_WS, ALLOW_TRAILING_CHARS} =
    Inr (v, f_len f - 1)"
proof -
  have len: "length (fmt_o (f_len f - 1) (unat v)) = f_len f - 1"
    using num_fits_length(2) [OF assms(3,2)] by (simp add: num_text_def)
  have "unat v < 2 ^ 64"
    using unsigned_less [of v, where ?'a = nat] by simp
  then show ?thesis
    using parse_u64_digits [of "fmt_o (f_len f - 1) (unat v)" 8
      "NUL # drop (f_off f + f_len f) blk" "Some (f_len f)"
      "{ALLOW_LEADING_WS, ALLOW_TRAILING_CHARS}"] len assms(3)
    by (simp add: from_fld_split assms(1) num_text_def past_end_def fmt_o_digits)
qed

lemma parse_i64_num:
  assumes "fld blk f = num_text f v" "num_fits f v" "2 \<le> f_len f" "f_len f \<le> 12"
  shows "parse_i64 (from_fld blk f) (Some (f_len f)) 8 {ALLOW_LEADING_WS, ALLOW_TRAILING_CHARS} =
    Inr (v, f_len f - 1)"
proof -
  have len: "length (fmt_o (f_len f - 1) (unat v)) = f_len f - 1"
    using num_fits_length(2) [OF assms(3,2)] by (simp add: num_text_def)
  have "(8::nat) ^ (f_len f - 1) \<le> 8 ^ 11"
    using assms(4) by (intro power_increasing) simp_all
  then have "unat v < 2 ^ 63"
    using assms(2) by (simp add: num_fits_def)
  then show ?thesis
    using parse_i64_digits [of "fmt_o (f_len f - 1) (unat v)" 8
      "NUL # drop (f_off f + f_len f) blk" "Some (f_len f)"
      "{ALLOW_LEADING_WS, ALLOW_TRAILING_CHARS}"] len assms(3)
    by (simp add: from_fld_split assms(1) num_text_def past_end_def fmt_o_digits)
qed

definition wf_hdr :: "pax_hdr \<Rightarrow> bool" where
  "wf_hdr h \<longleftrightarrow> length (hdr_blk h) = 512"

lemma wf_hdrD [simp, dest]: "wf_hdr h \<Longrightarrow> length (hdr_blk h) = 512"
  by (simp add: wf_hdr_def)

abbreviation without :: "string \<Rightarrow> pax_pair list \<Rightarrow> pax_pair list" where
  "without k xl \<equiv> filter (\<lambda>p. keyword p \<noteq> k) xl"

lemma ph_set_unsigned_fn_eq:
  assumes "wf_hdr hdr" "2 \<le> f_len f"
  shows "ph_set_unsigned_fn f (Some k) hdr v =
    (PX_SUCCESS,
     if num_fits f v
     then hdr\<lparr>hdr_blk := set_fld (hdr_blk hdr) f (num_text f v), xhdr_list := without k (xhdr_list hdr)\<rparr>
     else hdr\<lparr>hdr_blk := set_fld (hdr_blk hdr) f (replicate (f_len f) NUL),
       xhdr_list := pxp_mkpair_u64 k v # without k (xhdr_list hdr)\<rparr>)"
    and "ph_set_unsigned_fn f None hdr v =
    (if num_fits f v
     then (PX_SUCCESS, hdr\<lparr>hdr_blk := set_fld (hdr_blk hdr) f (num_text f v)\<rparr>)
     else (PX_ERROR_WONT_FIT, hdr\<lparr>hdr_blk := set_fld (hdr_blk hdr) f (replicate (f_len f) NUL)\<rparr>))"
  using assms num_fits_length [OF assms(2), of v] snprintf_num [OF assms(2), of v]
  by (auto simp: ph_set_unsigned_fn_def ph_set_unsigned_def remove_all pxh_put_pair_def store_def)

lemma ph_set_mtime_eq:
  assumes "wf_hdr hdr"
  shows "ph_set_mtime hdr t =
    (PX_SUCCESS,
     if nsec t = 0 \<and> num_fits F_mtime (sec t)
     then hdr\<lparr>hdr_blk := set_fld (hdr_blk hdr) F_mtime (num_text F_mtime (sec t)),
       xhdr_list := without ''mtime'' (xhdr_list hdr)\<rparr>
     else hdr\<lparr>hdr_blk := set_fld (hdr_blk hdr) F_mtime (replicate 12 NUL),
       xhdr_list := pxp_mkpair_time ''mtime'' t # without ''mtime'' (xhdr_list hdr)\<rparr>)"
  using assms num_fits_length [of F_mtime "sec t"] snprintf_num [of F_mtime "sec t"]
  by (auto simp: ph_set_mtime_def ph_set_time_def remove_all pxh_put_pair_def store_def)

lemma ph_set_atime_eq:
  "ph_set_atime hdr t =
    (PX_SUCCESS, hdr\<lparr>xhdr_list := pxp_mkpair_time ''atime'' t # without ''atime'' (xhdr_list hdr)\<rparr>)"
  by (simp add: ph_set_atime_def ph_set_time_def remove_all pxh_put_pair_def)

lemma ph_set_string_fn_eq:
  assumes "wf_hdr hdr" "nul_free v" "0 < f_len f"
  shows "ph_set_string_fn f (Some k) hdr v =
    (PX_SUCCESS,
     if length v \<le> f_len f
     then hdr\<lparr>hdr_blk := set_fld (hdr_blk hdr) f
         (take (f_len f - 1) v @ replicate (f_len f - length (take (f_len f - 1) v)) NUL),
       xhdr_list := without k (xhdr_list hdr)\<rparr>
     else hdr\<lparr>hdr_blk := set_fld (hdr_blk hdr) f (replicate (f_len f) NUL),
       xhdr_list := pxp_mkpair_string k (Some v) # without k (xhdr_list hdr)\<rparr>)"
proof -
  have "snprintf (replicate (f_len f) NUL) (f_len f) v =
      take (f_len f - 1) v @ replicate (f_len f - length (take (f_len f - 1) v)) NUL"
    using assms(3) by (cases "f_len f") (auto simp: snprintf_def Let_def min_def Suc_diff_le)
  then show ?thesis
    by (simp add: ph_set_string_fn_def ph_set_string_def remove_all pxh_put_pair_def store_def)
qed

section \<open>The contract of a value\<close>

text \<open>
  Every value of a header lives in a member of the block, in the first pair with its
  keyword, or in either. \<open>view\<close> is that part of a header. A value is stored by a set function
  and read by a get function; the laws say that the set function succeeds on the values it
  accepts and makes the view represent the value, that the get function returns what the
  view represents, and that the set function leaves all other views alone.
\<close>

definition first_pair :: "string option \<Rightarrow> pax_hdr \<Rightarrow> pax_pair option" where
  "first_pair k h =
     (case k of None \<Rightarrow> None | Some kw \<Rightarrow> find (\<lambda>p. keyword p = kw) (xhdr_list h))"

definition member_bytes :: "ustar_field option \<Rightarrow> pax_hdr \<Rightarrow> string" where
  "member_bytes f h = (case f of None \<Rightarrow> [] | Some m \<Rightarrow> fld (hdr_blk h) m)"

text \<open>A set function that changes at most one member and the pairs of at most one keyword.\<close>

definition touches ::
  "(pax_hdr \<Rightarrow> px_status \<times> pax_hdr) \<Rightarrow> ustar_field option \<Rightarrow> string option \<Rightarrow> bool" where
  "touches g f k \<longleftrightarrow>
     (\<forall>h. wf_hdr h \<longrightarrow>
        (\<exists>h'. g h = (PX_SUCCESS, h') \<and> wf_hdr h' \<and>
           (\<forall>m. f \<noteq> Some m \<longrightarrow> fld (hdr_blk h') m = fld (hdr_blk h) m) \<and>
           (\<forall>kw. k \<noteq> Some kw \<longrightarrow> first_pair (Some kw) h' = first_pair (Some kw) h)))"

lemma touchesD:
  assumes "touches g f k" "wf_hdr h" "g h = (st, h')"
  shows "st = PX_SUCCESS" "wf_hdr h'" "f \<noteq> Some m \<Longrightarrow> fld (hdr_blk h') m = fld (hdr_blk h) m"
    "k \<noteq> Some kw \<Longrightarrow> first_pair (Some kw) h' = first_pair (Some kw) h"
  using assms unfolding touches_def by fastforce+

locale hdr_value =
  fixes put :: "pax_hdr \<Rightarrow> 'v \<Rightarrow> px_status \<times> pax_hdr"
    and get :: "pax_hdr \<Rightarrow> (px_status \<times> 'v \<times> pax_hdr) option"
    and ok :: "'v \<Rightarrow> bool"
    and f :: "ustar_field option"
    and k :: "string option"
    and repr :: "string \<Rightarrow> pax_pair option \<Rightarrow> 'v \<Rightarrow> bool"
  assumes put_ok: "wf_hdr h \<Longrightarrow> ok v \<Longrightarrow> \<exists>h'. put h v = (PX_SUCCESS, h') \<and> wf_hdr h'"
    and put_repr: "wf_hdr h \<Longrightarrow> ok v \<Longrightarrow> put h v = (PX_SUCCESS, h') \<Longrightarrow>
      repr (member_bytes f h') (first_pair k h') v"
    and get_repr: "wf_hdr h \<Longrightarrow> repr (member_bytes f h) (first_pair k h) v \<Longrightarrow>
      \<exists>h'. get h = Some (PX_SUCCESS, v, h')"
    and put_members: "wf_hdr h \<Longrightarrow> ok v \<Longrightarrow> put h v = (PX_SUCCESS, h') \<Longrightarrow> f \<noteq> Some g \<Longrightarrow>
      fld (hdr_blk h') g = fld (hdr_blk h) g"
    and put_pairs: "wf_hdr h \<Longrightarrow> ok v \<Longrightarrow> put h v = (PX_SUCCESS, h') \<Longrightarrow> k \<noteq> Some kw \<Longrightarrow>
      first_pair (Some kw) h' = first_pair (Some kw) h"
begin

definition holds :: "pax_hdr \<Rightarrow> 'v \<Rightarrow> bool" where
  "holds h v \<longleftrightarrow> wf_hdr h \<and> repr (member_bytes f h) (first_pair k h) v"

lemma put_holds: "wf_hdr h \<Longrightarrow> ok v \<Longrightarrow> \<exists>h'. put h v = (PX_SUCCESS, h') \<and> holds h' v"
  using put_ok put_repr unfolding holds_def by metis

lemma get_holds: "holds h v \<Longrightarrow> \<exists>h'. get h = Some (PX_SUCCESS, v, h')"
  using get_repr unfolding holds_def by blast

lemma get_put: "wf_hdr h \<Longrightarrow> ok v \<Longrightarrow>
    \<exists>h' h''. put h v = (PX_SUCCESS, h') \<and> get h' = Some (PX_SUCCESS, v, h'')"
  using put_holds get_holds by meson

lemma put_touches: "ok v \<Longrightarrow> touches (\<lambda>h. put h v) f k"
  using put_ok put_members put_pairs unfolding touches_def by metis

text \<open>Any header with the same view represents the same value.\<close>

lemma holds_view:
  assumes "holds h v" "wf_hdr h'" "member_bytes f h' = member_bytes f h"
    "first_pair k h' = first_pair k h"
  shows "holds h' v"
  using assms by (simp add: holds_def)

lemma kept_by:
  assumes "holds h v" "touches g f' k'" "g h = (st, h')" "f = None \<or> f \<noteq> f'" "k = None \<or> k \<noteq> k'"
  shows "holds h' v"
proof (rule holds_view [OF assms(1)])
  have wf: "wf_hdr h"
    using assms(1) by (simp add: holds_def)
  note t = touchesD [OF assms(2) wf assms(3)]
  show "wf_hdr h'"
    by (rule t(2))
  show "member_bytes f h' = member_bytes f h"
    using t(3) assms(4) by (auto simp: member_bytes_def split: option.splits)
  show "first_pair k h' = first_pair k h"
    using t(4) assms(5) by (cases k) (auto simp: first_pair_def)
qed

end

text \<open>Two values that share neither a member nor a keyword do not disturb each other.\<close>

locale hdr_values_apart =
  a: hdr_value put1 get1 ok1 f1 k1 repr1 + b: hdr_value put2 get2 ok2 f2 k2 repr2
  for put1 :: "pax_hdr \<Rightarrow> 'v \<Rightarrow> px_status \<times> pax_hdr" and get1 ok1 f1 k1 repr1
    and put2 :: "pax_hdr \<Rightarrow> 'w \<Rightarrow> px_status \<times> pax_hdr" and get2 ok2 f2 k2 repr2 +
  assumes apart: "f1 = None \<or> f1 \<noteq> f2" "k1 = None \<or> k1 \<noteq> k2"
begin

lemma kept:
  assumes "a.holds h v" "ok2 w" "put2 h w = (PX_SUCCESS, h')"
  shows "a.holds h' v"
  using a.kept_by [OF assms(1) b.put_touches [OF assms(2)] assms(3)] apart by blast

lemma both:
  assumes "wf_hdr h" "ok1 v" "ok2 w"
  shows "\<exists>h1 h2 x y. put1 h v = (PX_SUCCESS, h1) \<and> put2 h1 w = (PX_SUCCESS, h2) \<and>
    get1 h2 = Some (PX_SUCCESS, v, x) \<and> get2 h2 = Some (PX_SUCCESS, w, y)"
proof -
  obtain h1 where h1: "put1 h v = (PX_SUCCESS, h1)" "a.holds h1 v"
    using a.put_holds assms by blast
  then have "wf_hdr h1"
    by (simp add: a.holds_def)
  then obtain h2 where h2: "put2 h1 w = (PX_SUCCESS, h2)" "b.holds h2 w"
    using b.put_holds assms(3) by blast
  then have "a.holds h2 v"
    using kept [OF h1(2) assms(3)] by blast
  then show ?thesis
    using h1(1) h2 a.get_holds b.get_holds by metis
qed

end

section \<open>The values of a header\<close>

definition num_repr :: "ustar_field \<Rightarrow> string \<Rightarrow> pax_pair option \<Rightarrow> u64 \<Rightarrow> bool" where
  "num_repr f bytes fp v \<longleftrightarrow>
     (case fp of None \<Rightarrow> num_fits f v \<and> bytes = num_text f v
      | Some p \<Rightarrow> \<exists>p'. pxp_get_u64 p = (PX_SUCCESS, Some v, p'))"

definition time_repr :: "ustar_field option \<Rightarrow> string \<Rightarrow> pax_pair option \<Rightarrow> pax_time \<Rightarrow> bool" where
  "time_repr f bytes fp t \<longleftrightarrow>
     (case fp of
        None \<Rightarrow> (\<exists>m. f = Some m \<and> nsec t = 0 \<and> num_fits m (sec t) \<and> bytes = num_text m (sec t))
      | Some p \<Rightarrow> \<exists>p'. pxp_get_time p = Some (PX_SUCCESS, Some t, p'))"

definition string_repr :: "string \<Rightarrow> pax_pair option \<Rightarrow> string \<Rightarrow> bool" where
  "string_repr bytes fp v \<longleftrightarrow>
     (case fp of None \<Rightarrow> v \<noteq> [] \<and> NUL \<in> set bytes \<and> cstr bytes = v
      | Some p \<Rightarrow> \<exists>p'. pxp_get_string p = (PX_SUCCESS, Some v, p'))"

lemmas first_pair_simps = first_pair_def member_bytes_def

lemma first_pair_found: "found h (Some kw) = map_option (Pair kw) (first_pair (Some kw) h)"
  by (simp add: found_find first_pair_def)

lemma find_without [simp]:
  "kw \<noteq> k \<Longrightarrow> find (\<lambda>p. keyword p = kw) (without k xl) = find (\<lambda>p. keyword p = kw) xl"
  by (induction xl) auto

lemma get_u64_mkpair: "pxp_get_u64 (pxp_mkpair_u64 k v) = (PX_SUCCESS, Some v, pxp_mkpair_u64 k v)"
  by (simp add: pxp_get_u64_def pxp_mkpair_u64_def pxp_mkpair_def)

lemma get_time_mkpair:
  "pxp_get_time (pxp_mkpair_time k t) = Some (PX_SUCCESS, Some t, pxp_mkpair_time k t)"
  by (simp add: pxp_get_time_def pxp_mkpair_time_def pxp_mkpair_def)

lemma get_string_mkpair:
  "pxp_get_string (pxp_mkpair_string k v) = (PX_SUCCESS, v, pxp_mkpair_string k v)"
  by (simp add: pxp_get_string_def pxp_mkpair_string_def pxp_mkpair_def)

lemma length_num_text: "2 \<le> f_len f \<Longrightarrow> num_fits f v \<Longrightarrow> length (num_text f v) = f_len f"
  using num_fits_length(2) by simp

lemma ph_get_unsigned_repr:
  assumes "wf_hdr h" "2 \<le> f_len f"
    "num_repr f (member_bytes (Some f) h) (first_pair (Some kw) h) v"
  shows "\<exists>h'. ph_get_unsigned h f (Some kw) = (PX_SUCCESS, v, h')"
proof (cases "first_pair (Some kw) h")
  case None
  then have "fld (hdr_blk h) f = num_text f v" "num_fits f v"
    using assms(3) by (simp_all add: num_repr_def member_bytes_def)
  then show ?thesis
    using parse_u64_num [OF _ _ assms(2)] by (simp add: ph_get_unsigned_def first_pair_found None)
next
  case (Some p)
  then show ?thesis
    using assms(3) by (auto simp: ph_get_unsigned_def first_pair_found num_repr_def)
qed

lemma unsigned_value:
  assumes "2 \<le> f_len f"
  shows "hdr_value (ph_set_unsigned_fn f (Some kw)) (\<lambda>h. Some (ph_get_unsigned h f (Some kw)))
    (\<lambda>_. True) (Some f) (Some kw) (num_repr f)"
proof
  fix h v
  assume wf: "wf_hdr h"
  note eq = ph_set_unsigned_fn_eq(1) [OF wf assms, of kw v]
  show "\<exists>h'. ph_set_unsigned_fn f (Some kw) h v = (PX_SUCCESS, h') \<and> wf_hdr h'"
    using eq wf length_num_text [OF assms] by (auto simp: wf_hdr_def)
  show "\<exists>h'. Some (ph_get_unsigned h f (Some kw)) = Some (PX_SUCCESS, v, h')"
    if "num_repr f (member_bytes (Some f) h) (first_pair (Some kw) h) v"
    using ph_get_unsigned_repr [OF wf assms that] by simp
  fix h'
  assume put: "ph_set_unsigned_fn f (Some kw) h v = (PX_SUCCESS, h')"
  show "num_repr f (member_bytes (Some f) h') (first_pair (Some kw) h') v"
    using put eq wf length_num_text [OF assms]
    by (auto simp: num_repr_def first_pair_simps get_u64_mkpair)
  show "fld (hdr_blk h') g = fld (hdr_blk h) g" if "Some f \<noteq> Some g" for g
    using put eq wf that length_num_text [OF assms] by auto
  show "first_pair (Some kw') h' = first_pair (Some kw') h" if "Some kw \<noteq> Some kw'" for kw'
    using put eq that by (auto simp: first_pair_simps)
qed

interpretation size_v: hdr_value ph_set_size "\<lambda>h. Some (ph_get_size h)" "\<lambda>_. True"
  "Some F_size" "Some ''size''" "num_repr F_size"
  using unsigned_value [of F_size "''size''"]
  by (simp add: ph_set_size_def [abs_def] ph_get_size_def)

text \<open>User and group ids: 32 bits, widened on the way in and cut on the way out.\<close>

definition id_repr :: "ustar_field \<Rightarrow> string \<Rightarrow> pax_pair option \<Rightarrow> u32 \<Rightarrow> bool" where
  "id_repr f bytes fp v \<longleftrightarrow> num_repr f bytes fp (ucast v)"

lemma ucast_id [simp]: "ucast (ucast (v :: u32) :: u64) = v"
  by transfer (simp add: min_def)

lemma id_value:
  assumes "2 \<le> f_len f"
    and set: "\<And>h v. put h v = ph_set_undef_signed_fn False f (Some kw) h (ucast v)"
    and get: "\<And>h. get h = (case ph_get_undef_signed_fn False f (Some kw) h of (st, v, h) \<Rightarrow> (st, ucast v, h))"
  shows "hdr_value put (\<lambda>h. Some (get h)) (\<lambda>_. True) (Some f) (Some kw) (id_repr f)"
proof -
  from unsigned_value [OF assms(1), of kw]
  have un: "hdr_value (ph_set_unsigned_fn f (Some kw)) (\<lambda>h. Some (ph_get_unsigned h f (Some kw)))
      (\<lambda>_. True) (Some f) (Some kw) (num_repr f)" .
  have put: "put h v = ph_set_unsigned_fn f (Some kw) h (ucast v)" for h v
    by (simp add: set ph_set_undef_signed_fn_def)
  show ?thesis
  proof
    fix h and v :: u32
    assume wf: "wf_hdr h"
    show "\<exists>h'. put h v = (PX_SUCCESS, h') \<and> wf_hdr h'"
      using hdr_value.put_ok [OF un wf] by (simp add: put)
    show "\<exists>h'. Some (get h) = Some (PX_SUCCESS, v, h')"
      if "id_repr f (member_bytes (Some f) h) (first_pair (Some kw) h) v"
      using hdr_value.get_repr [OF un wf that [unfolded id_repr_def]]
      by (auto simp: get ph_get_undef_signed_fn_def)
    fix h'
    assume res: "put h v = (PX_SUCCESS, h')"
    show "id_repr f (member_bytes (Some f) h') (first_pair (Some kw) h') v"
      using hdr_value.put_repr [OF un wf] res by (simp add: put id_repr_def)
    show "fld (hdr_blk h') g = fld (hdr_blk h) g" if "Some f \<noteq> Some g" for g
      using hdr_value.put_members [OF un wf] res that by (simp add: put)
    show "first_pair (Some kw') h' = first_pair (Some kw') h" if "Some kw \<noteq> Some kw'" for kw'
      using hdr_value.put_pairs [OF un wf] res that by (simp add: put)
  qed
qed

interpretation uid_v: hdr_value ph_set_uid "\<lambda>h. Some (ph_get_uid h)" "\<lambda>_. True"
  "Some F_uid" "Some ''uid''" "id_repr F_uid"
  by (rule id_value) (simp_all add: ph_set_uid_def ph_get_uid_def)

interpretation gid_v: hdr_value ph_set_gid "\<lambda>h. Some (ph_get_gid h)" "\<lambda>_. True"
  "Some F_gid" "Some ''gid''" "id_repr F_gid"
  by (rule id_value) (simp_all add: ph_set_gid_def ph_get_gid_def)

lemma ph_get_time_repr:
  assumes "wf_hdr h" "time_repr f (member_bytes f h) (first_pair (Some kw) h) t"
    "\<forall>m. f = Some m \<longrightarrow> m = F_mtime"
  shows "\<exists>h'. ph_get_time h f (Some kw) = Some (PX_SUCCESS, t, h')"
proof (cases "first_pair (Some kw) h")
  case None
  then obtain m where m: "f = Some m" "nsec t = 0" "fld (hdr_blk h) m = num_text m (sec t)"
    "num_fits m (sec t)"
    using assms(2) by (auto simp: time_repr_def member_bytes_def)
  then have len: "2 \<le> f_len m" "f_len m \<le> 12"
    using assms(3) by simp_all
  show ?thesis
    using parse_i64_num [OF m(3,4) len] m(1,2)
    by (simp add: ph_get_time_def first_pair_found None)
next
  case (Some p)
  then show ?thesis
    using assms(2) by (auto simp: ph_get_time_def first_pair_found time_repr_def)
qed

interpretation mtime_v: hdr_value ph_set_mtime ph_get_mtime "\<lambda>_. True"
  "Some F_mtime" "Some ''mtime''" "time_repr (Some F_mtime)"
proof
  fix h t
  assume wf: "wf_hdr h"
  note eq = ph_set_mtime_eq [OF wf, of t]
  have len: "num_fits F_mtime v \<Longrightarrow> length (num_text F_mtime v) = 12" for v
    using length_num_text [of F_mtime v] by simp
  show "\<exists>h'. ph_set_mtime h t = (PX_SUCCESS, h') \<and> wf_hdr h'"
    using eq wf len by (auto simp: wf_hdr_def)
  show "\<exists>h'. ph_get_mtime h = Some (PX_SUCCESS, t, h')"
    if "time_repr (Some F_mtime) (member_bytes (Some F_mtime) h) (first_pair (Some ''mtime'') h) t"
    using ph_get_time_repr [OF wf that] by (simp add: ph_get_mtime_def)
  fix h'
  assume put: "ph_set_mtime h t = (PX_SUCCESS, h')"
  show "time_repr (Some F_mtime) (member_bytes (Some F_mtime) h') (first_pair (Some ''mtime'') h') t"
    using put eq wf len by (auto simp: time_repr_def first_pair_simps get_time_mkpair)
  show "fld (hdr_blk h') g = fld (hdr_blk h) g" if "Some F_mtime \<noteq> Some g" for g
    using put eq wf that len by auto
  show "first_pair (Some kw') h' = first_pair (Some kw') h" if "Some ''mtime'' \<noteq> Some kw'" for kw'
    using put eq that by (auto simp: first_pair_simps)
qed

interpretation atime_v: hdr_value ph_set_atime ph_get_atime "\<lambda>_. True"
  None "Some ''atime''" "time_repr None"
proof
  fix h t
  assume wf: "wf_hdr h"
  note eq = ph_set_atime_eq [of h t]
  show "\<exists>h'. ph_set_atime h t = (PX_SUCCESS, h') \<and> wf_hdr h'"
    using eq wf by (auto simp: wf_hdr_def)
  show "\<exists>h'. ph_get_atime h = Some (PX_SUCCESS, t, h')"
    if "time_repr None (member_bytes None h) (first_pair (Some ''atime'') h) t"
    using ph_get_time_repr [OF wf that] by (simp add: ph_get_atime_def)
  fix h'
  assume put: "ph_set_atime h t = (PX_SUCCESS, h')"
  show "time_repr None (member_bytes None h') (first_pair (Some ''atime'') h') t"
    using put eq by (auto simp: time_repr_def first_pair_simps get_time_mkpair)
  show "fld (hdr_blk h') g = fld (hdr_blk h) g" for g
    using put eq by auto
  show "first_pair (Some kw') h' = first_pair (Some kw') h" if "Some ''atime'' \<noteq> Some kw'" for kw'
    using put eq that by (auto simp: first_pair_simps)
qed

text \<open>Strings. A string of exactly the length of its member is not stored faithfully.\<close>

definition string_ok :: "ustar_field \<Rightarrow> string \<Rightarrow> bool" where
  "string_ok f v \<longleftrightarrow> nul_free v \<and> v \<noteq> [] \<and> length v \<noteq> f_len f"

definition some_string :: "px_status \<times> string option \<times> pax_hdr \<Rightarrow> (px_status \<times> string \<times> pax_hdr) option"
  where
  "some_string r = (case r of (st, v, h) \<Rightarrow> map_option (\<lambda>s. (st, s, h)) v)"

lemma some_string_eq: "some_string r = Some (st, s, h) \<longleftrightarrow> r = (st, Some s, h)"
  by (auto simp: some_string_def split: prod.splits)

lemma ph_get_string_repr:
  assumes "wf_hdr h" "string_repr (fld (hdr_blk h) f) (first_pair (Some kw) h) v"
  shows "\<exists>h'. ph_get_string h f (Some kw) = (PX_SUCCESS, Some v, h')"
proof (cases "first_pair (Some kw) h")
  case None
  then have bytes: "v \<noteq> []" "NUL \<in> set (fld (hdr_blk h) f)" "cstr (fld (hdr_blk h) f) = v"
    using assms(2) by (simp_all add: string_repr_def)
  have "cstr (from_fld (hdr_blk h) f) = v"
    using bytes(2,3) by (simp add: from_fld_split cstr_def)
  moreover have "length v < length (fld (hdr_blk h) f)"
    using cstr_shorter [OF bytes(2)] bytes(3) by simp
  ultimately show ?thesis
    using bytes(1) assms(1) by (auto simp: ph_get_string_def first_pair_found None strlen_def)
next
  case (Some p)
  then show ?thesis
    using assms(2)
    by (auto simp: ph_get_string_def first_pair_found string_repr_def PXSUCCESS_def)
qed

lemma string_value:
  assumes "2 \<le> f_len f"
  shows "hdr_value (ph_set_string_fn f (Some kw)) (\<lambda>h. some_string (ph_get_string h f (Some kw)))
    (string_ok f) (Some f) (Some kw) string_repr"
proof
  fix h v
  assume wf: "wf_hdr h"
  show "\<exists>h'. some_string (ph_get_string h f (Some kw)) = Some (PX_SUCCESS, v, h')"
    if "string_repr (member_bytes (Some f) h) (first_pair (Some kw) h) v"
    using ph_get_string_repr [OF wf, of f kw v] that by (auto simp: some_string_def member_bytes_def)
  assume ok: "string_ok f v"
  then have nf: "nul_free v" and v: "v \<noteq> []" "length v \<noteq> f_len f"
    by (simp_all add: string_ok_def)
  let ?b = "take (f_len f - 1) v @ replicate (f_len f - length (take (f_len f - 1) v)) NUL"
  have eq: "ph_set_string_fn f (Some kw) h v = (PX_SUCCESS,
      if length v \<le> f_len f
      then h\<lparr>hdr_blk := set_fld (hdr_blk h) f ?b, xhdr_list := without kw (xhdr_list h)\<rparr>
      else h\<lparr>hdr_blk := set_fld (hdr_blk h) f (replicate (f_len f) NUL),
        xhdr_list := pxp_mkpair_string kw (Some v) # without kw (xhdr_list h)\<rparr>)"
    using ph_set_string_fn_eq [OF wf nf] assms by simp
  have len: "length ?b = f_len f"
    by simp
  show "\<exists>h'. ph_set_string_fn f (Some kw) h v = (PX_SUCCESS, h') \<and> wf_hdr h'"
    using eq wf len by (auto simp: wf_hdr_def)
  fix h'
  assume put: "ph_set_string_fn f (Some kw) h v = (PX_SUCCESS, h')"
  have "?b = v @ NUL # replicate (f_len f - length v - 1) NUL" if "length v \<le> f_len f"
    using that v(2) by (cases "f_len f - length v") auto
  then show "string_repr (member_bytes (Some f) h') (first_pair (Some kw) h') v"
    using put eq wf len nf v
    by (auto simp: string_repr_def first_pair_simps get_string_mkpair split: if_splits)
  show "fld (hdr_blk h') g = fld (hdr_blk h) g" if "Some f \<noteq> Some g" for g
    using put eq wf that len by (auto split: if_splits)
  show "first_pair (Some kw') h' = first_pair (Some kw') h" if "Some kw \<noteq> Some kw'" for kw'
    using put eq that by (auto simp: first_pair_simps split: if_splits)
qed

interpretation name_v: hdr_value ph_set_name "\<lambda>h. some_string (ph_get_name h)" "string_ok F_name"
  "Some F_name" "Some ''path''" string_repr
  using string_value [of F_name "''path''"] by (simp add: ph_set_name_def ph_get_name_def)

interpretation linkname_v: hdr_value ph_set_linkname "\<lambda>h. some_string (ph_get_linkname h)"
  "string_ok F_linkname" "Some F_linkname" "Some ''linkpath''" string_repr
  using string_value [of F_linkname "''linkpath''"]
  by (simp add: ph_set_linkname_def ph_get_linkname_def)

interpretation uname_v: hdr_value ph_set_uname "\<lambda>h. some_string (ph_get_uname h)" "string_ok F_uname"
  "Some F_uname" "Some ''uname''" string_repr
  using string_value [of F_uname "''uname''"] by (simp add: ph_set_uname_def ph_get_uname_def)

interpretation gname_v: hdr_value ph_set_gname "\<lambda>h. some_string (ph_get_gname h)" "string_ok F_gname"
  "Some F_gname" "Some ''gname''" string_repr
  using string_value [of F_gname "''gname''"] by (simp add: ph_set_gname_def ph_get_gname_def)

interpretation size_mtime: hdr_values_apart
  ph_set_size "\<lambda>h. Some (ph_get_size h)" "\<lambda>_. True" "Some F_size" "Some ''size''" "num_repr F_size"
  ph_set_mtime ph_get_mtime "\<lambda>_. True" "Some F_mtime" "Some ''mtime''" "time_repr (Some F_mtime)"
  by unfold_locales simp_all

interpretation name_linkname: hdr_values_apart
  ph_set_name "\<lambda>h. some_string (ph_get_name h)" "string_ok F_name" "Some F_name" "Some ''path''" string_repr
  ph_set_linkname "\<lambda>h. some_string (ph_get_linkname h)" "string_ok F_linkname" "Some F_linkname"
  "Some ''linkpath''" string_repr
  by unfold_locales simp_all

section \<open>Merging with the defaults: lemmas\<close>

lemma strlen_from_fld:
  assumes "length blk = 512"
  shows "0 < strlen (from_fld blk f) \<longleftrightarrow> hd (fld blk f) \<noteq> NUL"
proof -
  have "0 < f_len f"
    by (cases f) simp_all
  then obtain c cs where "fld blk f = c # cs"
    using length_fld [OF assms, of f] by (cases "fld blk f") auto
  then show ?thesis
    by (simp add: from_fld_split strlen_def cstr_def)
qed

definition picked :: "string \<Rightarrow> string \<Rightarrow> ustar_field \<Rightarrow> string" where
  "picked uhdr ublk f = (if hd (fld uhdr f) \<noteq> NUL then fld uhdr f else fld ublk f)"

lemma merge_field_props:
  assumes "length uhdr = 512" "length ublk = 512"
  shows "length (merge_field uhdr f ublk) = 512"
    and "fld (merge_field uhdr f ublk) g = (if g = f then picked uhdr ublk f else fld ublk g)"
  using assms strlen_from_fld [of uhdr f] by (auto simp: merge_field_def picked_def)

lemma merge_version_props:
  assumes "length uhdr = 512" "length ublk = 512"
  shows "length (merge_version uhdr ublk) = 512"
    and "g \<noteq> F_version \<Longrightarrow> fld (merge_version uhdr ublk) g = fld ublk g"
    and "fld uhdr F_version = ''00'' \<Longrightarrow> fld (merge_version uhdr ublk) F_version = ''00''"
  using assms by (auto simp: merge_version_def)

lemma copied_defaults:
  assumes "length ud = 512"
  shows "length (take 500 ud @ replicate 12 NUL) = 512"
    and "fld (take 500 ud @ replicate 12 NUL) f = fld ud f"
  using assms f_inside [of f] by (auto simp: fld_def from_fld_def drop_take)

lemma merged_fields_props:
  assumes "length uhdr = 512" "length ud = 512"
  shows "length (merged_fields uhdr ud) = 512"
    and "f \<in> {F_mode, F_uid, F_gid, F_size, F_mtime, F_magic, F_uname, F_gname, F_devmajor, F_devminor} \<Longrightarrow>
      fld (merged_fields uhdr ud) f = picked uhdr ud f"
    and "f \<in> {F_name, F_linkname, F_prefix, F_chksum, F_type} \<Longrightarrow>
      fld (merged_fields uhdr ud) f = fld ud f"
    and "fld uhdr F_version = ''00'' \<Longrightarrow> fld (merged_fields uhdr ud) F_version = ''00''"
  using assms copied_defaults [OF assms(2)]
  by (auto simp: merged_fields_def merge_field_props merge_version_props picked_def)

section \<open>Properties\<close>



text \<open>
  C35. A string that is exactly as long as its member is cut. The set functions move a string
  to the extended header only when it is longer than the member, and copy it otherwise with
  room for a NUL: a name of 100 characters is stored in the block without its last
  character, and the get function returns 99 characters, with success from both.
\<close>

theorem name_of_100_cut:
  assumes "wf_hdr h" "nul_free nm" "length nm = 100"
  shows "\<exists>h1 h2. ph_set_name h nm = (PX_SUCCESS, h1) \<and>
    ph_get_name h1 = (PX_SUCCESS, Some (take 99 nm), h2)"
proof -
  let ?d = "take 99 nm @ [NUL]"
  let ?h1 = "h\<lparr>hdr_blk := set_fld (hdr_blk h) F_name ?d, xhdr_list := without ''path'' (xhdr_list h)\<rparr>"
  have "ph_set_name h nm = (PX_SUCCESS, ?h1)"
    using ph_set_string_fn_eq [OF assms(1,2), of F_name "''path''"] assms(3)
    by (simp add: ph_set_name_def)
  moreover have "nul_free (take 99 nm)"
    using assms(2) by (auto simp: nul_free_def dest: in_set_takeD)
  then have "name_v.holds ?h1 (take 99 nm)"
    using assms by (auto simp: name_v.holds_def wf_hdr_def string_repr_def first_pair_simps)
  ultimately show ?thesis
    using name_v.get_holds [of ?h1 "take 99 nm"] by (auto simp: some_string_eq)
qed

theorem name_of_100_cut_witness:
  "\<exists>h1 h2. ph_set_name ph_create_hdr (replicate 100 (CHR ''a'')) = (PX_SUCCESS, h1) \<and>
    ph_get_name h1 = (PX_SUCCESS, Some (replicate 99 (CHR ''a'')), h2)"
  using name_of_100_cut [of ph_create_hdr "replicate 100 (CHR ''a'')"]
  by (simp add: nul_free_def wf_hdr_def ph_create_hdr_def min_def)

end
