(* ===== verification/Pax_Write.thy ===== *)
theory Pax_Write
  imports Pax_Hdr
begin

text \<open>
  Writing a pax header and loading it again: the checksum, the generated names and the
  contract of a name callback, the layout of the written bytes, and what loading them gives.
\<close>

section \<open>The checksum\<close>

lemma ph_set_unsigned_plain:
  assumes "2 \<le> f_len f" "length d = f_len f"
  shows "ph_set_unsigned None (Some d) (f_len f) v None =
    (if num_fits f v then (PX_SUCCESS, None, Some (num_text f v))
     else (PX_ERROR_WONT_FIT, None, Some (replicate (f_len f) NUL)))"
  using num_fits_length [OF assms(1), of v] snprintf_num [OF assms(1) _ assms(2), of v]
  by (auto simp: ph_set_unsigned_def Let_def)

text \<open>The sum the code forms: over signed bytes, with blanks in the checksum member.\<close>

definition signed_sum :: "string \<Rightarrow> int" where
  "signed_sum blk =
     sum_list (map signed_char (take 500 (set_fld blk F_chksum (replicate 8 (CHR '' '')))))"

text \<open>The checksum of the ustar format: the sum over unsigned bytes.\<close>

definition ustar_sum :: "string \<Rightarrow> nat" where
  "ustar_sum blk =
     sum_list (map of_char (take 500 (set_fld blk F_chksum (replicate 8 (CHR '' '')))))"

lemma sum_list_bounds:
  assumes "\<And>x. x \<in> set xs \<Longrightarrow> - 128 \<le> g x \<and> g x \<le> (127 :: int)"
  shows "- 128 * int (length xs) \<le> sum_list (map g xs)"
    and "sum_list (map g xs) \<le> 127 * int (length xs)"
  using assms by (induction xs) (simp_all add: algebra_simps, fastforce+)

lemma of_char_less: "(of_char c :: int) < 256" "0 \<le> (of_char c :: int)"
proof -
  have "(of_char c :: int) mod 256 = of_char c"
    by (rule of_char_mod_256)
  then show "(of_char c :: int) < 256" "0 \<le> (of_char c :: int)"
    by presburger+
qed

lemma signed_char_bounds: "- 128 \<le> signed_char c \<and> signed_char c \<le> 127"
  using of_char_less [of c] by (auto simp: signed_char_def)

lemma signed_sum_bounds: "- 64000 \<le> signed_sum blk" "signed_sum blk \<le> 63500"
proof -
  let ?xs = "take 500 (set_fld blk F_chksum (replicate 8 (CHR '' '')))"
  have "int (length ?xs) \<le> 500"
    by simp
  then show "- 64000 \<le> signed_sum blk" "signed_sum blk \<le> 63500"
    using sum_list_bounds [of ?xs signed_char] signed_char_bounds unfolding signed_sum_def
    by fastforce+
qed

lemma signed_sum_word:
  "unat (word_of_int (signed_sum blk) :: u64) =
     (if 0 \<le> signed_sum blk then nat (signed_sum blk) else nat (2 ^ 64 + signed_sum blk))"
proof (cases "0 \<le> signed_sum blk")
  case True
  then show ?thesis
    using signed_sum_bounds [of blk] by (simp add: unsigned_of_int take_bit_int_eq_self)
next
  case False
  then have "(signed_sum blk + 2 ^ 64) mod 2 ^ 64 = signed_sum blk + 2 ^ 64"
    using signed_sum_bounds [of blk] by (intro mod_pos_pos_trivial) simp_all
  then have "signed_sum blk mod 2 ^ 64 = 2 ^ 64 + signed_sum blk"
    by (simp only: mod_add_self2 add.commute)
  with False show ?thesis
    by (simp add: unsigned_of_int take_bit_int_def)
qed

lemma checksum_eq:
  assumes "length blk = 512"
  shows "checksum blk =
    (if 0 \<le> signed_sum blk
     then (PX_SUCCESS, set_fld blk F_chksum (num_text F_chksum (word_of_int (signed_sum blk))))
     else (PX_ERROR_WONT_FIT, set_fld blk F_chksum (replicate 8 NUL)))"
proof -
  have "num_fits F_chksum (word_of_int (signed_sum blk)) \<longleftrightarrow> 0 \<le> signed_sum blk"
    using signed_sum_bounds [of blk] by (auto simp: num_fits_def signed_sum_word)
  moreover have "set_fld (set_fld blk F_chksum c) F_chksum d = set_fld blk F_chksum d"
    if "length c = 8" "length d = 8" for c d
    using assms that by (simp add: set_fld_def overwrite_def)
  ultimately show ?thesis
    using ph_set_unsigned_plain [of F_chksum "replicate 8 (CHR '' '')" "word_of_int (signed_sum blk)"]
      length_num_text [of F_chksum "word_of_int (signed_sum blk)"] assms
    by (simp add: checksum_def Let_def flip: signed_sum_def)
qed

lemma set_chksum_twice:
  "length blk = 512 \<Longrightarrow> length c = 8 \<Longrightarrow> length d = 8 \<Longrightarrow>
   set_fld (set_fld blk F_chksum c) F_chksum d = set_fld blk F_chksum d"
  by (simp add: set_fld_def overwrite_def)

lemma length_chksum_text: "0 \<le> signed_sum blk \<Longrightarrow>
  length (num_text F_chksum (word_of_int (signed_sum blk))) = 8"
  using length_num_text [of F_chksum "word_of_int (signed_sum blk)"] signed_sum_bounds [of blk]
  by (simp add: num_fits_def signed_sum_word)

text \<open>What the checksum leaves of a block: everything but its own member.\<close>

lemma checksum_props:
  assumes "length blk = 512" "checksum blk = (st, blk')"
  shows "length blk' = 512" "f \<noteq> F_chksum \<Longrightarrow> fld blk' f = fld blk f"
    "signed_sum blk' = signed_sum blk"
    "st = (if 0 \<le> signed_sum blk then PX_SUCCESS else PX_ERROR_WONT_FIT)"
  using assms checksum_eq [OF assms(1)] length_chksum_text [of blk]
  by (auto simp: signed_sum_def set_chksum_twice split: if_splits)

section \<open>The contract of a name callback\<close>

text \<open>
  What pax\_hdr.h asks of a callback, given the two members of a block: it succeeds for a
  name, fills buffers of 100 and 155 bytes and terminates the name, and it copies a name that
  fits verbatim for the block of the file.
\<close>

locale filename_callback =
  fixes cb :: name_cb
  assumes succeeds: "fst (cb ns nb 100 pb 155 (Some v) inc ty) = PX_SUCCESS"
    and sizes: "length nb = 100 \<Longrightarrow> length pb = 155 \<Longrightarrow>
      cb ns nb 100 pb 155 (Some v) inc ty = (s, n, p, ns') \<Longrightarrow>
      length n = 100 \<and> length p = 155 \<and> NUL \<in> set n"
    and verbatim: "length nb = 100 \<Longrightarrow> length v < 100 \<Longrightarrow> nul_free v \<Longrightarrow>
      cb ns nb 100 pb 155 (Some v) inc PAX_FILE_NAME = (s, n, p, ns') \<Longrightarrow> cstr n = v"
begin

lemma write_merged:
  assumes wf: "wf_hdr hdr" "wf_hdr d" and ext: "xhdr_list hdr \<noteq> []"
    and name: "ph_get_name hdr = (PX_SUCCESS, Some nm, hdr)"
  obtains blk ns' where
    "write_merged_ustar_blk cb ns hdr d xb = (PX_SUCCESS, blk, hdr, ns')" "length blk = 512"
    "\<And>f. f \<in> {F_mode, F_uid, F_gid, F_size, F_mtime, F_magic, F_uname, F_gname, F_devmajor, F_devminor} \<Longrightarrow>
      fld blk f = picked (hdr_blk hdr) (hdr_blk d) f"
    "fld blk F_linkname = fld (hdr_blk d) F_linkname"
    "fld blk F_type = (if xb then ''x'' else fld (hdr_blk hdr) F_type)"
    "fld (hdr_blk hdr) F_version = ''00'' \<Longrightarrow> fld blk F_version = ''00''"
    "NUL \<in> set (fld blk F_name)"
    "\<not> xb \<Longrightarrow> length nm < 100 \<Longrightarrow> nul_free nm \<Longrightarrow> cstr (fld blk F_name) = nm"
proof -
  note m = merged_fields_props [OF wf_hdrD [OF wf(1)] wf_hdrD [OF wf(2)]]
  define t where "t = (if xb then ''x'' else fld (hdr_blk hdr) F_type)"
  have t: "length t = f_len F_type"
    using wf by (simp add: t_def)
  define u where "u = set_fld (merged_fields (hdr_blk hdr) (hdr_blk d)) F_type t"
  have u: "length u = 512"
    using m(1) t by (simp add: u_def)
  obtain s n p ns' where cb: "cb ns (fld u F_name) 100 (fld u F_prefix) 155 (Some nm) xb
      (if xb then PAX_XHDR_NAME else PAX_FILE_NAME) = (s, n, p, ns')"
    by (metis prod_cases4)
  then have s: "s = PX_SUCCESS" and len: "length n = 100" "length p = 155" and nul: "NUL \<in> set n"
    using succeeds [of ns "fld u F_name" "fld u F_prefix" nm xb "if xb then PAX_XHDR_NAME else PAX_FILE_NAME"]
      sizes [OF _ _ cb] u by simp_all
  let ?b = "set_fld (set_fld u F_name n) F_prefix p"
  have "write_merged_ustar_blk cb ns hdr d xb = (PX_SUCCESS, ?b, hdr, ns')"
    using ext name cb s unfolding write_merged_ustar_blk_def
    by (simp add: ph_has_ext_hdr_def PXSUCCESS_def Let_def flip: t_def u_def)
  moreover have "length ?b = 512"
    using u len by simp
  moreover have "fld ?b f = (if f = F_name then n else if f = F_prefix then p
      else if f = F_type then t else fld (merged_fields (hdr_blk hdr) (hdr_blk d)) f)" for f
    using u len t m(1) by (auto simp: u_def)
  moreover have "cstr n = nm" if "\<not> xb" "length nm < 100" "nul_free nm"
    using verbatim [of "fld u F_name" nm ns "fld u F_prefix" xb s n p ns'] cb u that by simp
  ultimately show thesis
    using m(2-4) nul by (intro that [of ?b ns']) (auto simp: t_def)
qed

end

section \<open>The basic callback\<close>

lemma length_fmt_d_i32: "length (fmt_d (sint (w :: u32))) \<le> 11"
proof -
  have "- (2 ^ 31) \<le> sint w" "sint w < 2 ^ 31"
    using sint_greater_eq [of w] sint_less [of w] by simp_all
  then have "nat (- sint w) < 10 ^ 10" "nat (sint w) < 10 ^ 10"
    by auto
  then have "length (fmt_u (nat (- sint w))) \<le> 10" "length (fmt_u (nat (sint w))) \<le> 10"
    by (simp_all add: length_to_base_le)
  then show ?thesis
    by (simp add: fmt_d_def)
qed

lemma length_short_name: "length (short_name ns) \<le> 32"
  using length_fmt_d_i64 [of "last_arch_time ns"] length_fmt_d_i32 [of "id_num ns"]
  by (simp add: short_name_def)

lemma nul_free_short_name [simp]: "nul_free (short_name ns)"
  by (simp add: short_name_def fmt_d_def)

lemma snprintf_room: "length s < n \<Longrightarrow> n \<le> length m \<Longrightarrow>
  length (snprintf m n s) = length m \<and> NUL \<in> set (snprintf m n s)"
  by (simp add: snprintf_fits)

definition next_name_state :: "(nat \<Rightarrow> i64) \<Rightarrow> name_state \<Rightarrow> bool \<Rightarrow> name_state" where
  "next_name_state clk ns inc = snd (snd (ph_generate_short_name clk ns (replicate 100 NUL) 100 inc))"

lemma ph_generate_short_name_100:
  "\<exists>b. ph_generate_short_name clk ns (replicate 100 NUL) 100 inc =
     (PX_SUCCESS, b, next_name_state clk ns inc) \<and> cstr b = short_name (next_name_state clk ns inc)"
proof -
  let ?ns = "next_name_state clk ns inc"
  have "length (short_name ?ns) < 100"
    using length_short_name [of ?ns] by simp
  then have "cstr (snprintf (replicate 100 NUL) 100 (short_name ?ns)) = short_name ?ns"
    by (subst snprintf_fits) simp_all
  moreover have "ph_generate_short_name clk ns (replicate 100 NUL) 100 inc =
      (PX_SUCCESS, snprintf (replicate 100 NUL) 100 (short_name ?ns), ?ns)"
    using length_short_name [of ?ns]
    by (auto simp: next_name_state_def ph_generate_short_name_def Let_def)
  ultimately show ?thesis
    by blast
qed

text \<open>The result for a name, with the name or a generated one placed behind a prefix.\<close>

definition placed :: "pax_gen_name_type \<Rightarrow> string \<Rightarrow> string \<Rightarrow> string \<Rightarrow> string \<times> string" where
  "placed ty nb pb name =
     (let prefix = (if ty = PAX_XHDR_NAME then ''pax__'' else ''file_'')
      in if length name < 94 then (snprintf nb 100 (prefix @ ''/'' @ name), pb)
         else (snprintf nb 100 name, snprintf pb 155 prefix))"

lemma ph_basic_name_callback_100:
  "ph_basic_name_callback clk ns nb 100 pb 155 (Some v) inc ty =
     (if 100 \<le> length v then
        (case placed ty nb pb (short_name (next_name_state clk ns inc)) of
           (n, p) \<Rightarrow> (PX_SUCCESS, n, p, next_name_state clk ns inc))
      else if ty = PAX_FILE_NAME then (PX_SUCCESS, overwrite nb 0 (v @ [NUL]), pb, ns)
      else (case placed ty nb pb v of (n, p) \<Rightarrow> (PX_SUCCESS, n, p, ns)))"
proof -
  obtain b where b: "ph_generate_short_name clk ns (replicate 100 NUL) 100 inc =
      (PX_SUCCESS, b, next_name_state clk ns inc)"
    "cstr b = short_name (next_name_state clk ns inc)"
    using ph_generate_short_name_100 by blast
  then show ?thesis
    using length_short_name [of "next_name_state clk ns inc"]
    by (auto simp: ph_basic_name_callback_def placed_def PXSUCCESS_def Let_def)
qed

lemma placed_sizes:
  assumes "length nb = 100" "length pb = 155" "length name < 100" "placed ty nb pb name = (n, p)"
  shows "length n = 100 \<and> length p = 155 \<and> NUL \<in> set n"
  using assms(4) assms(1-3) unfolding placed_def Let_def
  by (auto simp: snprintf_room split: if_splits)

interpretation basic: filename_callback "ph_basic_name_callback clk" for clk
proof
  fix ns nb pb v inc ty
  show "fst (ph_basic_name_callback clk ns nb 100 pb 155 (Some v) inc ty) = PX_SUCCESS"
    by (auto simp: ph_basic_name_callback_100 split: prod.splits)
  fix s n p ns'
  assume len: "length nb = 100" "length pb = 155"
    and cb: "ph_basic_name_callback clk ns nb 100 pb 155 (Some v) inc ty = (s, n, p, ns')"
  have short: "length (short_name (next_name_state clk ns inc)) < 100"
    using length_short_name [of "next_name_state clk ns inc"] by simp
  consider "placed ty nb pb (short_name (next_name_state clk ns inc)) = (n, p)"
    | "length v < 100" "placed ty nb pb v = (n, p)"
    | "length v < 100" "n = overwrite nb 0 (v @ [NUL])" "p = pb"
    using cb unfolding ph_basic_name_callback_100 by (simp split: if_splits prod.splits)
  then show "length n = 100 \<and> length p = 155 \<and> NUL \<in> set n"
  proof cases
    case 1
    then show ?thesis
      by (rule placed_sizes [OF len short])
  next
    case 2
    then show ?thesis
      by (rule placed_sizes [OF len])
  next
    case 3
    then show ?thesis
      using len by (simp add: overwrite_def)
  qed
next
  fix nb pb v inc ns s n p ns'
  assume "length v < 100" "nul_free v"
    and "ph_basic_name_callback clk ns nb 100 pb 155 (Some v) inc PAX_FILE_NAME = (s, n, p, ns')"
  then show "cstr n = v"
    by (auto simp: ph_basic_name_callback_100 overwrite_def)
qed

section \<open>Recognising written blocks\<close>

lemma from_fld_append:
  assumes "length blk = 512"
  shows "from_fld (blk @ r) f = fld blk f @ drop (f_off f + f_len f) (blk @ r)"
proof -
  have "fld (blk @ r) f = fld blk f"
    using assms f_inside [of f] by (simp add: fld_def from_fld_def)
  then show ?thesis
    using from_fld_split [of "blk @ r" f] by simp
qed

lemma fld_append [simp]: "length blk = 512 \<Longrightarrow> fld (blk @ r) f = fld blk f"
  using f_inside [of f] by (simp add: fld_def from_fld_def)

text \<open>A block that is marked as a ustar block.\<close>

definition marked :: "string \<Rightarrow> bool" where
  "marked blk \<longleftrightarrow> length blk = 512 \<and> fld blk F_magic = ''ustar'' @ [NUL] \<and> fld blk F_version = ''00''"

definition std_type :: "char \<Rightarrow> bool" where
  "std_type c \<longleftrightarrow> of_char (CHR ''0'') \<le> (of_char c :: nat) \<and> (of_char c :: nat) \<le> of_char (CHR ''7'')"

lemma marked_checks:
  assumes "marked blk"
  shows "cstr (from_fld (blk @ r) F_magic) = ''ustar''" "take 2 (from_fld (blk @ r) F_version) = ''00''"
    "fld_type (blk @ r) = fld_type blk"
  using assms by (simp_all add: marked_def from_fld_append fld_type_def cstr_def)

lemma ph_is_pax_hdr_std:
  assumes "marked blk" "std_type (fld_type blk)"
  shows "ph_is_pax_hdr en (blk @ r) = (PX_SUCCESS_STD_HEADER, 0)"
  using assms(2) marked_checks [OF assms(1), of r] by (simp add: ph_is_pax_hdr_def std_type_def)

lemma ph_is_pax_hdr_ext:
  assumes "marked blk" "fld_type blk = CHR ''x''" "fld blk F_size = num_text F_size (word_of_nat n)"
    "0 < n" "n < 8 ^ 11"
  shows "ph_is_pax_hdr en (blk @ r) =
    (PX_SUCCESS_EXT_HEADER, (round_to_block n 512 + 512) mod 2 ^ 64)"
proof -
  have len: "length blk = 512"
    using assms(1) by (simp add: marked_def)
  have "unat (word_of_nat n :: u64) = n"
    using assms(5) by (simp add: unsigned_of_nat take_bit_nat_eq_self)
  then have "from_fld (blk @ r) F_size = fmt_o 11 n @ NUL # drop 136 (blk @ r)"
    by (subst from_fld_append [OF len]) (simp add: assms(3) num_text_def)
  then have "strtosize_t en (from_fld (blk @ r) F_size) 8 = (PX_SUCCESS, n, length (fmt_o 11 n))"
    using strtosize_t_fmt_o [where n = n and k = 11 and t = "NUL # drop 136 (blk @ r)" and en = en] assms(4,5)
    by (simp add: SIZE_MAX_def)
  then show ?thesis
    using marked_checks [OF assms(1), of r] assms(2)
    by (simp add: ph_is_pax_hdr_def PXSUCCESS_def Let_def)
qed

section \<open>Writing and loading\<close>

text \<open>A pair that was created and not yet written, and its name lookup.\<close>

definition fresh_pair :: "pax_pair \<Rightarrow> bool" where
  "fresh_pair p \<longleftrightarrow> wf_pair p \<and> header_line p = None"

lemma fresh_pairD: "fresh_pair p \<Longrightarrow> wf_pair p" "fresh_pair p \<Longrightarrow> \<not> IS_PXP_PARSED_TYPE (val_type p)"
  by (auto simp: fresh_pair_def wf_pair_def)

lemma set_first_same: "find (\<lambda>p. keyword p = k) ps = Some p \<Longrightarrow> set_first k p ps = ps"
  by (induction ps) (auto split: if_splits)

lemma pxp_get_string_created:
  "\<not> IS_PXP_PARSED_TYPE (val_type p) \<Longrightarrow> pxp_get_string p = (st, v, p') \<Longrightarrow> p' = p"
  by (auto simp: pxp_get_string_def split: if_splits)

lemma pxp_get_string_same:
  "\<not> IS_PXP_PARSED_TYPE (val_type p) \<Longrightarrow> val_type q = val_type p \<Longrightarrow> pvalue q = pvalue p \<Longrightarrow>
   pxp_get_string p = (st, v, p') \<Longrightarrow> pxp_get_string q = (st, v, q)"
  by (auto simp: pxp_get_string_def split: if_splits)

lemma find_map_keyword:
  "(\<And>p. keyword (g p) = keyword p) \<Longrightarrow>
   find (\<lambda>p. keyword p = k) (map g ps) = map_option g (find (\<lambda>p. keyword p = k) ps)"
  by (induction ps) auto

lemma find_in_set: "find P xs = Some x \<Longrightarrow> x \<in> set xs"
  by (auto simp: find_Some_iff)

text \<open>Looking up the name does not change a header of created pairs, with or without lines.\<close>

lemma ph_get_name_created:
  assumes "\<forall>p \<in> set (xhdr_list h). \<not> IS_PXP_PARSED_TYPE (val_type p)"
    and "ph_get_name h = (st, v, h1)"
    and g: "\<And>p. keyword (g p) = keyword p" "\<And>p. val_type (g p) = val_type p" "\<And>p. pvalue (g p) = pvalue p"
  shows "ph_get_name (h\<lparr>xhdr_list := map g (xhdr_list h)\<rparr>) =
    (st, v, h\<lparr>xhdr_list := map g (xhdr_list h)\<rparr>)"
proof (cases "find (\<lambda>p. keyword p = ''path'') (xhdr_list h)")
  case None
  then show ?thesis
    using assms(2)
    by (auto simp: ph_get_name_def ph_get_string_def found_find find_map_keyword g Let_def split: if_splits)
next
  case (Some p)
  have np: "\<not> IS_PXP_PARSED_TYPE (val_type p)"
    using assms(1) find_in_set [OF Some] by blast
  obtain st' v' p' where get: "pxp_get_string p = (st', v', p')"
    by (metis prod_cases3)
  have "find (\<lambda>p. keyword p = ''path'') (map g (xhdr_list h)) = Some (g p)"
    by (simp add: find_map_keyword g Some)
  then show ?thesis
    using assms(2) get pxp_get_string_same [OF np _ _ get, of "g p"] set_first_same [of "''path''" "map g (xhdr_list h)"]
    by (auto simp: ph_get_name_def ph_get_string_def found_find Some g split: if_splits)
qed

lemmas ph_get_name_same = ph_get_name_created [where g = "\<lambda>p. p", simplified]

text \<open>A header that can be written with extended data, and the defaults it needs.\<close>

definition writable :: "pax_hdr \<Rightarrow> pax_hdr \<Rightarrow> bool" where
  "writable h d \<longleftrightarrow>
     marked (hdr_blk h) \<and> std_type (fld_type (hdr_blk h)) \<and> xhdr_list h \<noteq> [] \<and>
     (\<forall>p \<in> set (xhdr_list h). fresh_pair p) \<and> lines_size (xhdr_list h) < 8 ^ 11 \<and>
     wf_hdr d \<and> xhdr_list d = []"

lemma writableD:
  assumes "writable h d"
  shows "wf_hdr h" "wf_hdr d" "xhdr_list h \<noteq> []" "xhdr_list d = []" "lines_size (xhdr_list h) < 8 ^ 11"
    "\<forall>p \<in> set (xhdr_list h). wf_pair p" "\<forall>p \<in> set (xhdr_list h). \<not> IS_PXP_PARSED_TYPE (val_type p)"
    "0 < lines_size (xhdr_list h)" "marked (hdr_blk h)" "std_type (fld_type (hdr_blk h))"
proof -
  show "0 < lines_size (xhdr_list h)"
    using assms pair_lines.enc_nonempty
    by (cases "xhdr_list h") (auto simp: writable_def fresh_pair_def)
qed (use assms in \<open>auto simp: writable_def marked_def wf_hdr_def fresh_pairD\<close>)

definition padded :: "pax_hdr \<Rightarrow> nat" where
  "padded h = round_to_block (lines_size (xhdr_list h)) 512"

lemma padded_bounds:
  assumes "lines_size (xhdr_list h) < 8 ^ 11" "0 < lines_size (xhdr_list h)"
  shows "lines_size (xhdr_list h) \<le> padded h" "padded h < 2 ^ 33 + 512" "0 < padded h"
  using round_to_block_bounds [of 512 "lines_size (xhdr_list h)"] assms by (auto simp: padded_def)

lemma ph_get_header_size_writable:
  assumes "writable h d"
  shows "ph_get_header_size h =
    (PX_SUCCESS, Some (padded h + 1024), lines_size (xhdr_list h), padded h)"
  using xheader_size_loop_wf [of "xhdr_list h" 0] writableD [OF assms] padded_bounds [of h]
  by (simp add: ph_get_header_size_def ph_has_ext_hdr_def pxh_get_xheader_size_def PXSUCCESS_def
      padded_def)

text \<open>The members that come from the header where it has them.\<close>

definition copied_members :: "ustar_field set" where
  "copied_members = {F_mode, F_uid, F_gid, F_size, F_mtime, F_uname, F_gname, F_devmajor, F_devminor}"

lemma marked_picked:
  assumes "marked u"
  shows "picked u d F_magic = ''ustar'' @ [NUL]"
  using assms by (simp add: marked_def picked_def)

context filename_callback
begin

text \<open>The block for the extended data: marked, of type x, with the exact size.\<close>

lemma ext_blk:
  assumes w: "writable h d" and name: "ph_get_name h = (PX_SUCCESS, Some nm, h)"
  obtains blk blk' ns' where
    "write_merged_ustar_blk cb ns h d True = (PX_SUCCESS, blk, h, ns')"
    "ph_set_unsigned None (Some (fld blk F_size)) (f_len F_size) (word_of_nat (lines_size (xhdr_list h))) None =
      (PX_SUCCESS, None, Some (num_text F_size (word_of_nat (lines_size (xhdr_list h)))))"
    "blk' = snd (checksum (set_fld blk F_size (num_text F_size (word_of_nat (lines_size (xhdr_list h))))))"
    "marked blk'" "fld_type blk' = CHR ''x''"
    "fld blk' F_size = num_text F_size (word_of_nat (lines_size (xhdr_list h)))"
proof -
  let ?n = "lines_size (xhdr_list h)"
  note D = writableD [OF w]
  obtain blk ns' where b: "write_merged_ustar_blk cb ns h d True = (PX_SUCCESS, blk, h, ns')"
    "length blk = 512" "fld blk F_magic = ''ustar'' @ [NUL]" "fld blk F_version = ''00''"
    "fld blk F_type = ''x''"
    using write_merged [OF D(1-3) name, of ns True] marked_picked [OF D(9)] D(9)
    unfolding marked_def by (metis insertCI)
  have "unat (word_of_nat ?n :: u64) = ?n"
    using D(5) by (simp add: unsigned_of_nat take_bit_nat_eq_self)
  then have fits: "num_fits F_size (word_of_nat ?n)"
    using D(5) by (simp add: num_fits_def)
  define c where "c = set_fld blk F_size (num_text F_size (word_of_nat ?n))"
  have tx: "length (num_text F_size (word_of_nat ?n)) = f_len F_size"
    using length_num_text [OF _ fits] by simp
  then have c: "length c = 512" "fld c F_size = num_text F_size (word_of_nat ?n)"
    "g \<noteq> F_size \<Longrightarrow> fld c g = fld blk g" for g
    using b(2) by (simp_all add: c_def)
  obtain s e where e: "checksum c = (s, e)"
    by fastforce
  show thesis
  proof (rule that [OF b(1)])
    show "ph_set_unsigned None (Some (fld blk F_size)) (f_len F_size) (word_of_nat ?n) None =
        (PX_SUCCESS, None, Some (num_text F_size (word_of_nat ?n)))"
      using ph_set_unsigned_plain [of F_size "fld blk F_size"] fits b(2) by simp
    show "e = snd (checksum (set_fld blk F_size (num_text F_size (word_of_nat ?n))))"
      using e by (simp add: c_def)
  qed (use checksum_props [OF c(1) e] c b in \<open>simp_all add: marked_def fld_type_def\<close>)
qed

text \<open>The block of the file: the members of the header, or of the defaults where it has none.\<close>

lemma file_blk:
  assumes wf: "wf_hdr h" "wf_hdr d" and ext: "xhdr_list h \<noteq> []"
    and m: "marked (hdr_blk h)" and name: "ph_get_name h = (PX_SUCCESS, Some nm, h)"
  obtains blk ns' where
    "\<And>buf off n. write_file_blk cb ns h d buf off n =
      (if 0 \<le> signed_sum blk then PX_SUCCESS else PX_ERROR_WONT_FIT, overwrite buf off blk, Some n, h, ns')"
    "marked blk" "fld_type blk = fld_type (hdr_blk h)"
    "\<And>f. f \<in> copied_members \<Longrightarrow>
      fld blk f = picked (hdr_blk h) (hdr_blk d) f"
    "fld blk F_linkname = fld (hdr_blk d) F_linkname"
    "NUL \<in> set (fld blk F_name)" "length nm < 100 \<Longrightarrow> nul_free nm \<Longrightarrow> cstr (fld blk F_name) = nm"
proof -
  obtain b ns' where b: "write_merged_ustar_blk cb ns h d False = (PX_SUCCESS, b, h, ns')"
    "length b = 512"
    "\<And>f. f \<in> {F_mode, F_uid, F_gid, F_size, F_mtime, F_magic, F_uname, F_gname, F_devmajor, F_devminor} \<Longrightarrow>
      fld b f = picked (hdr_blk h) (hdr_blk d) f"
    "fld b F_linkname = fld (hdr_blk d) F_linkname" "fld b F_type = fld (hdr_blk h) F_type"
    "fld b F_version = ''00''" "NUL \<in> set (fld b F_name)"
    "length nm < 100 \<Longrightarrow> nul_free nm \<Longrightarrow> cstr (fld b F_name) = nm"
    using write_merged [OF wf ext name, of ns False] m unfolding marked_def by auto
  obtain s e where e: "checksum b = (s, e)"
    by fastforce
  note p = checksum_props [OF b(2) e]
  show thesis
  proof (rule that [of e ns'])
    show "write_file_blk cb ns h d buf off n =
        (if 0 \<le> signed_sum e then PX_SUCCESS else PX_ERROR_WONT_FIT, overwrite buf off e, Some n, h, ns')"
      for buf off n
      using b(1) e p by (simp add: write_file_blk_def PXSUCCESS_def)
    show "marked e"
      using p b(3) [of F_magic] b(6) marked_picked [OF m] by (simp add: marked_def)
    show "fld e f = picked (hdr_blk h) (hdr_blk d) f" if "f \<in> copied_members" for f
      using p(2) [of f] b(3) [of f] that unfolding copied_members_def by auto
  qed (use p b in \<open>simp_all add: fld_type_def\<close>)
qed

lemma written_header:
  assumes w: "writable h d" and name: "ph_get_name h = (PX_SUCCESS, Some nm, h)"
  obtains bx bf h' ns' where
    "\<And>buf bsize hw. padded h + 1024 \<le> length buf \<Longrightarrow> padded h + 1024 \<le> bsize \<Longrightarrow>
      ph_write_header cb ns junk h buf bsize hw (Some d) =
      Some (if 0 \<le> signed_sum bf then PX_SUCCESS else PX_ERROR_WONT_FIT,
        bx @ (concat (map line_of (rev (xhdr_list h))) @
          replicate (padded h - lines_size (xhdr_list h)) NUL) @ bf @ drop (padded h + 1024) buf,
        Some (padded h + 1024), h', ns')"
    "marked bx" "fld_type bx = CHR ''x''"
    "fld bx F_size = num_text F_size (word_of_nat (lines_size (xhdr_list h)))"
    "marked bf" "fld_type bf = fld_type (hdr_blk h)"
    "\<And>f. f \<in> copied_members \<Longrightarrow>
      fld bf f = picked (hdr_blk h) (hdr_blk d) f"
    "fld bf F_linkname = fld (hdr_blk d) F_linkname"
    "NUL \<in> set (fld bf F_name)" "length nm < 100 \<Longrightarrow> nul_free nm \<Longrightarrow> cstr (fld bf F_name) = nm"
proof -
  let ?n = "lines_size (xhdr_list h)" and ?k = "padded h"
  let ?data = "concat (map line_of (rev (xhdr_list h))) @ replicate (?k - ?n) NUL"
  let ?g = "\<lambda>p. with_line p (pair_text p)"
  note D = writableD [OF w] and pad = padded_bounds [OF writableD(5) [OF w] writableD(8) [OF w]]
  define h2 where "h2 = h\<lparr>xhdr_list := map ?g (xhdr_list h)\<rparr>"
  obtain blk bx ns1 where x: "write_merged_ustar_blk cb ns h d True = (PX_SUCCESS, blk, h, ns1)"
    "ph_set_unsigned None (Some (fld blk F_size)) (f_len F_size) (word_of_nat ?n) None =
      (PX_SUCCESS, None, Some (num_text F_size (word_of_nat ?n)))"
    "bx = snd (checksum (set_fld blk F_size (num_text F_size (word_of_nat ?n))))"
    "marked bx" "fld_type bx = CHR ''x''" "fld bx F_size = num_text F_size (word_of_nat ?n)"
    using ext_blk [OF w name, of ns] by metis
  have lx: "length bx = 512"
    using x(4) by (simp add: marked_def)
  have nm2: "ph_get_name h2 = (PX_SUCCESS, Some nm, h2)"
    using ph_get_name_created [OF D(7) name, of ?g] by (simp add: h2_def)
  obtain bf ns2 where f: "\<And>buf off n. write_file_blk cb ns1 h2 d buf off n =
      (if 0 \<le> signed_sum bf then PX_SUCCESS else PX_ERROR_WONT_FIT, overwrite buf off bf, Some n, h2, ns2)"
    "marked bf" "fld_type bf = fld_type (hdr_blk h)"
    "\<And>f. f \<in> copied_members \<Longrightarrow>
      fld bf f = picked (hdr_blk h) (hdr_blk d) f"
    "fld bf F_linkname = fld (hdr_blk d) F_linkname"
    "NUL \<in> set (fld bf F_name)" "length nm < 100 \<Longrightarrow> nul_free nm \<Longrightarrow> cstr (fld bf F_name) = nm"
    using file_blk [OF _ D(2) _ _ nm2, of ns1] D(1,3,9) by (auto simp: h2_def wf_hdr_def)
  have lf: "length bf = 512"
    using f(2) by (simp add: marked_def)
  have ld: "length ?data = ?k"
    using pad(1) lines_size_simps(3) [of "xhdr_list h"] unfolding lines_size_def by simp
  have "ph_write_header cb ns junk h buf bsize hw (Some d) =
      Some (if 0 \<le> signed_sum bf then PX_SUCCESS else PX_ERROR_WONT_FIT,
        bx @ ?data @ bf @ drop (?k + 1024) buf, Some (?k + 1024), h2, ns2)"
    if room: "?k + 1024 \<le> length buf" "?k + 1024 \<le> bsize" for buf bsize hw
  proof -
    define b1 where "b1 = overwrite buf 0 bx"
    have b1: "take 512 b1 = bx" "drop 512 b1 = drop 512 buf"
      using lx room(1) by (simp_all add: b1_def overwrite_def)
    have data: "pxh_write_xheader junk (xhdr_list h) (drop 512 b1) ?k =
        (PX_SUCCESS, ?data @ drop (?k + 512) buf, map ?g (xhdr_list h))"
      using pxh_write_xheader_wf [OF D(6) pad(1), of junk "drop 512 b1"] by (simp add: b1(2))
    have ov: "overwrite (bx @ ?data @ drop (?k + 512) buf) (512 + ?k) bf =
        bx @ ?data @ bf @ drop (?k + 1024) buf"
      using lx ld lf by (simp add: overwrite_def add.commute del: append_assoc)
    show ?thesis
      using ph_get_header_size_writable [OF w] room(2) D(3,4) x(1,2) data ov f(1)
      by (simp add: ph_write_header_def write_ext_hdr_def ph_has_ext_hdr_def PXSUCCESS_def Let_def
          b1(1) flip: x(3) b1_def h2_def)
  qed
  from that [OF this x(4-6) f(2-7)] show thesis .
qed

end

section \<open>Loading the written bytes\<close>

lemma ph_load_written:
  assumes bx: "marked bx" "fld_type bx = CHR ''x''"
      "fld bx F_size = num_text F_size (word_of_nat (lines_size hs))"
    and bf: "marked bf" "std_type (fld_type bf)"
    and hs: "\<forall>p \<in> set hs. wf_pair p" "0 < lines_size hs" "lines_size hs < 8 ^ 11"
    and k: "k = round_to_block (lines_size hs) 512"
  shows "ph_load_pax_hdr en ph_create_hdr
      (bx @ (concat (map line_of (rev hs)) @ replicate (k - lines_size hs) NUL) @ bf @ r) (k + 1024) =
    (PX_SUCCESS, \<lparr>hdr_blk = bf, xhdr_list = map reread hs\<rparr>)"
proof -
  define n where "n = lines_size hs"
  define data where "data = concat (map line_of (rev hs)) @ replicate (k - n) NUL"
  have kn: "n \<le> k" "k < n + 512" "0 < k" "k < 2 ^ 34"
    using round_to_block_bounds [of 512 n] hs(2,3) by (simp_all add: k n_def)
  have "length (concat (map line_of (rev hs))) = n"
    using lines_size_simps(3) [of hs] unfolding n_def lines_size_def by simp
  then have len: "length bx = 512" "length bf = 512" "length data = k"
    using bx(1) bf(1) kn(1) by (simp_all add: marked_def data_def)
  have ext: "ph_is_pax_hdr en (bx @ data @ bf @ r) = (PX_SUCCESS_EXT_HEADER, k + 512)"
    using ph_is_pax_hdr_ext [OF bx hs(2,3), of en "data @ bf @ r"] kn by (simp flip: k)
  have std: "drop (k + 512) (bx @ data @ bf @ r) = bf @ r" "take 512 (bf @ r) = bf"
    "drop 512 (bx @ data @ bf @ r) = data @ bf @ r"
    using len by simp_all
  have pairs: "pxh_mkpairs en [] (data @ bf @ r) k = (PX_SUCCESS, map reread hs)"
    using pxh_mkpairs_lines [OF hs(1), of k "k - n" en "bf @ r"] kn(1) by (simp add: data_def n_def)
  have room: "(k + 512 + 512) mod 2 ^ 64 = k + 1024" "k + 512 - 512 = k"
    using kn by simp_all
  have "ph_load_pax_hdr en ph_create_hdr (bx @ data @ bf @ r) (k + 1024) =
      (PX_SUCCESS, \<lparr>hdr_blk = bf, xhdr_list = map reread hs\<rparr>)"
    unfolding ph_load_pax_hdr_def ext std room ph_is_pax_hdr_std [OF bf, of en r] prod.case Let_def
    using pairs kn(3) by (simp add: ph_create_hdr_def PXSUCCESS_def)
  then show ?thesis
    by (simp add: data_def n_def)
qed

text \<open>The pairs read back carry the values of the pairs that were written.\<close>

lemma reread_u64:
  assumes "fresh_pair p" "pxp_get_u64 p = (PX_SUCCESS, Some v, p')"
  shows "\<exists>q. pxp_get_u64 (reread p) = (PX_SUCCESS, Some v, q)"
proof -
  have "val_type p = PXP_U64_TYPE" "u64_val (pvalue p) = v" "header_line p = None"
    using assms fresh_pairD(2) [OF assms(1)]
    by (auto simp: pxp_get_u64_def fresh_pair_def split: if_splits)
  then show ?thesis
    using pxp_get_u64_rec [of "keyword p" v] wf_pair_rec [OF fresh_pairD(1) [OF assms(1)]]
    by (simp add: reread_def pair_text_def value_text_def)
qed

lemma reread_time:
  assumes "fresh_pair p" "pxp_get_time p = Some (PX_SUCCESS, Some t, p')"
  shows "\<exists>q. pxp_get_time (reread p) = Some (PX_SUCCESS, Some t, q)"
proof -
  have p: "val_type p = PXP_TIME_TYPE" "time_val (pvalue p) = t" "header_line p = None"
    using assms fresh_pairD(2) [OF assms(1)]
    by (auto simp: pxp_get_time_def fresh_pair_def split: if_splits)
  moreover have "unat (nsec t) < 1000000000"
    using fresh_pairD(1) [OF assms(1)] p by (simp add: wf_pair_def)
  ultimately show ?thesis
    using pxp_get_time_rec [of "keyword p" t] wf_pair_rec [OF fresh_pairD(1) [OF assms(1)]]
    by (simp add: reread_def pair_text_def)
qed

lemma reread_string:
  assumes "fresh_pair p" "pxp_get_string p = (PX_SUCCESS, Some v, p')"
  shows "\<exists>q. pxp_get_string (reread p) = (PX_SUCCESS, Some v, q)"
proof -
  have "val_type p = PXP_STRING_TYPE" "string_val (pvalue p) = Some v" "header_line p = None"
    using assms fresh_pairD(2) [OF assms(1)]
    by (auto simp: pxp_get_string_def fresh_pair_def split: if_splits)
  then show ?thesis
    using pxp_get_string_rec [of "keyword p" v] wf_pair_rec [OF fresh_pairD(1) [OF assms(1)]]
    by (simp add: reread_def pair_text_def value_text_def)
qed

text \<open>
  A header that was written and loaded: the pairs read back, and the members of the header or
  of the defaults.
\<close>

definition reloaded :: "pax_hdr \<Rightarrow> pax_hdr \<Rightarrow> pax_hdr \<Rightarrow> bool" where
  "reloaded h d l \<longleftrightarrow>
     marked (hdr_blk l) \<and> xhdr_list l = map reread (xhdr_list h) \<and>
     (\<forall>f \<in> copied_members. fld (hdr_blk l) f = picked (hdr_blk h) (hdr_blk d) f) \<and>
     fld_type (hdr_blk l) = fld_type (hdr_blk h) \<and>
     fld (hdr_blk l) F_linkname = fld (hdr_blk d) F_linkname"

lemma reloaded_pair:
  assumes "writable h d" "reloaded h d l"
  shows "first_pair (Some kw) l = map_option reread (first_pair (Some kw) h)"
proof -
  have "find (\<lambda>p. keyword p = kw) (map reread ps) = map_option reread (find (\<lambda>p. keyword p = kw) ps)"
    if "\<forall>p \<in> set ps. wf_pair p" for ps
    using that by (induction ps) (simp_all add: reread_simps)
  then show ?thesis
    using assms(2) writableD(6) [OF assms(1)] by (simp add: reloaded_def first_pair_def)
qed

lemma first_pair_fresh:
  assumes "writable h d" "first_pair (Some kw) h = Some p"
  shows "fresh_pair p"
  using assms find_in_set [of _ "xhdr_list h" p] by (auto simp: writable_def first_pair_def)

lemma hd_num_text: "hd (num_text f v) \<noteq> NUL"
proof -
  have "hd (fmt_o (f_len f - 1) (unat v)) \<noteq> NUL"
    using fmt_o_nul_free [of "f_len f - 1" "unat v"]
    by (cases "fmt_o (f_len f - 1) (unat v)") (auto simp: nul_free_def)
  then show ?thesis
    by (simp add: num_text_def)
qed

lemma picked_own: "hd (fld u f) \<noteq> NUL \<Longrightarrow> picked u d f = fld u f"
  by (simp add: picked_def)

lemma reloaded_bytes:
  assumes "reloaded h d l" "f \<in> copied_members" "hd (fld (hdr_blk h) f) \<noteq> NUL"
  shows "member_bytes (Some f) l = member_bytes (Some f) h"
  using assms picked_own by (auto simp: reloaded_def member_bytes_def)

lemma reloaded_num:
  assumes w: "writable h d" "reloaded h d l" and f: "f \<in> copied_members"
    and v: "num_repr f (member_bytes (Some f) h) (first_pair (Some kw) h) v"
  shows "num_repr f (member_bytes (Some f) l) (first_pair (Some kw) l) v"
proof (cases "first_pair (Some kw) h")
  case None
  then have "fld (hdr_blk h) f = num_text f v"
    using v by (simp add: num_repr_def member_bytes_def)
  then show ?thesis
    using reloaded_bytes [OF w(2) f] v by (simp add: reloaded_pair [OF w] None num_repr_def hd_num_text)
next
  case (Some p)
  then show ?thesis
    using v reread_u64 [OF first_pair_fresh [OF w(1) Some]]
    by (auto simp: reloaded_pair [OF w] num_repr_def)
qed

lemma reloaded_time:
  assumes w: "writable h d" "reloaded h d l" and f: "\<forall>m. f = Some m \<longrightarrow> m \<in> copied_members"
    and t: "time_repr f (member_bytes f h) (first_pair (Some kw) h) t"
  shows "time_repr f (member_bytes f l) (first_pair (Some kw) l) t"
proof (cases "first_pair (Some kw) h")
  case None
  then obtain m where m: "f = Some m" "fld (hdr_blk h) m = num_text m (sec t)"
    using t by (auto simp: time_repr_def member_bytes_def)
  then show ?thesis
    using reloaded_bytes [OF w(2), of m] f t
    by (simp add: reloaded_pair [OF w] None time_repr_def hd_num_text)
next
  case (Some p)
  then show ?thesis
    using t reread_time [OF first_pair_fresh [OF w(1) Some]]
    by (auto simp: reloaded_pair [OF w] time_repr_def)
qed

lemma hd_cstr: "cstr b \<noteq> [] \<Longrightarrow> hd b \<noteq> NUL"
  by (cases b) (auto simp: cstr_def)

lemma reloaded_string:
  assumes w: "writable h d" "reloaded h d l"
    and f: "f \<in> copied_members \<or> first_pair (Some kw) h \<noteq> None"
    and v: "string_repr (member_bytes (Some f) h) (first_pair (Some kw) h) v"
  shows "string_repr (member_bytes (Some f) l) (first_pair (Some kw) l) v"
proof (cases "first_pair (Some kw) h")
  case None
  then have "cstr (fld (hdr_blk h) f) = v" "v \<noteq> []"
    using v by (simp_all add: string_repr_def member_bytes_def)
  then show ?thesis
    using reloaded_bytes [OF w(2), of f] f v hd_cstr [of "fld (hdr_blk h) f"]
    by (simp add: reloaded_pair [OF w] None string_repr_def)
next
  case (Some p)
  then show ?thesis
    using v reread_string [OF first_pair_fresh [OF w(1) Some]]
    by (auto simp: reloaded_pair [OF w] string_repr_def)
qed

lemma reloaded_wf: "reloaded h d l \<Longrightarrow> wf_hdr l"
  by (simp add: reloaded_def marked_def wf_hdr_def)

text \<open>Every value of the header is a value of the loaded one.\<close>

lemma reloaded_values:
  assumes w: "writable h d" "reloaded h d l"
  shows "size_v.holds h v \<Longrightarrow> size_v.holds l v"
    and "uid_v.holds h u \<Longrightarrow> uid_v.holds l u" and "gid_v.holds h u \<Longrightarrow> gid_v.holds l u"
    and "mtime_v.holds h t \<Longrightarrow> mtime_v.holds l t" and "atime_v.holds h t \<Longrightarrow> atime_v.holds l t"
    and "uname_v.holds h s \<Longrightarrow> uname_v.holds l s" and "gname_v.holds h s \<Longrightarrow> gname_v.holds l s"
proof -
  have c: "F_size \<in> copied_members" "F_uid \<in> copied_members" "F_gid \<in> copied_members"
    "F_mtime \<in> copied_members" "F_uname \<in> copied_members" "F_gname \<in> copied_members"
    by (simp_all add: copied_members_def)
  note wf = reloaded_wf [OF w(2)]
  show "size_v.holds h v \<Longrightarrow> size_v.holds l v" "uid_v.holds h u \<Longrightarrow> uid_v.holds l u"
    "gid_v.holds h u \<Longrightarrow> gid_v.holds l u"
    using reloaded_num [OF w] wf c unfolding size_v.holds_def uid_v.holds_def gid_v.holds_def id_repr_def
    by blast+
  show "mtime_v.holds h t \<Longrightarrow> mtime_v.holds l t" "atime_v.holds h t \<Longrightarrow> atime_v.holds l t"
    using reloaded_time [OF w] wf c unfolding mtime_v.holds_def atime_v.holds_def by blast+
  show "uname_v.holds h s \<Longrightarrow> uname_v.holds l s" "gname_v.holds h s \<Longrightarrow> gname_v.holds l s"
    using reloaded_string [OF w] wf c unfolding uname_v.holds_def gname_v.holds_def by blast+
qed

lemma name_holds_get:
  assumes "writable h d" "name_v.holds h nm"
  shows "ph_get_name h = (PX_SUCCESS, Some nm, h)"
proof -
  obtain h' where "some_string (ph_get_name h) = Some (PX_SUCCESS, nm, h')"
    using name_v.get_holds [OF assms(2)] by blast
  then have "ph_get_name h = (PX_SUCCESS, Some nm, h')"
    by (auto simp: some_string_def split: prod.splits)
  then show ?thesis
    using ph_get_name_same [OF writableD(7) [OF assms(1)]] by simp
qed

context filename_callback
begin

text \<open>Writing a header and loading the bytes: the loaded header has the name and all values.\<close>

lemma write_load:
  assumes w: "writable h d" and nm: "name_v.holds h nm"
  shows "\<exists>st B h' ns' l.
    (\<forall>buf bsize hw. padded h + 1024 \<le> length buf \<longrightarrow> padded h + 1024 \<le> bsize \<longrightarrow>
      ph_write_header cb ns junk h buf bsize hw (Some d) =
        Some (st, B @ drop (padded h + 1024) buf, Some (padded h + 1024), h', ns')) \<and>
    (st = PX_SUCCESS \<or> st = PX_ERROR_WONT_FIT) \<and> length B = padded h + 1024 \<and>
    (\<forall>en r. ph_is_pax_hdr en (take 512 B @ r) = (PX_SUCCESS_EXT_HEADER, padded h + 512) \<and>
      ph_load_pax_hdr en ph_create_hdr (B @ r) (padded h + 1024) = (PX_SUCCESS, l)) \<and>
    reloaded h d l \<and> name_v.holds l nm"
proof -
  note D = writableD [OF w] and name = name_holds_get [OF w nm]
    and pad = padded_bounds [OF writableD(5) [OF w] writableD(8) [OF w]]
  obtain bx bf h' ns' where wr: "\<And>buf bsize hw. padded h + 1024 \<le> length buf \<Longrightarrow>
      padded h + 1024 \<le> bsize \<Longrightarrow> ph_write_header cb ns junk h buf bsize hw (Some d) =
      Some (if 0 \<le> signed_sum bf then PX_SUCCESS else PX_ERROR_WONT_FIT,
        bx @ (concat (map line_of (rev (xhdr_list h))) @
          replicate (padded h - lines_size (xhdr_list h)) NUL) @ bf @ drop (padded h + 1024) buf,
        Some (padded h + 1024), h', ns')"
    and bx: "marked bx" "fld_type bx = CHR ''x''"
      "fld bx F_size = num_text F_size (word_of_nat (lines_size (xhdr_list h)))"
    and bf: "marked bf" "fld_type bf = fld_type (hdr_blk h)"
      "\<And>f. f \<in> copied_members \<Longrightarrow> fld bf f = picked (hdr_blk h) (hdr_blk d) f"
      "fld bf F_linkname = fld (hdr_blk d) F_linkname" "NUL \<in> set (fld bf F_name)"
      "length nm < 100 \<Longrightarrow> nul_free nm \<Longrightarrow> cstr (fld bf F_name) = nm"
    by (rule written_header [OF w name, of ns junk]) (rule that; assumption)
  let ?l = "\<lparr>hdr_blk = bf, xhdr_list = map reread (xhdr_list h)\<rparr>"
  have len: "length bx = 512" "length bf = 512"
    "length (concat (map line_of (rev (xhdr_list h)))) = lines_size (xhdr_list h)"
    using bx(1) bf(1) lines_size_simps(3) [of "xhdr_list h"] unfolding lines_size_def
    by (simp_all add: marked_def)
  have std: "std_type (fld_type bf)"
    using D(10) by (simp add: bf(2))
  let ?B = "bx @ (concat (map line_of (rev (xhdr_list h))) @
      replicate (padded h - lines_size (xhdr_list h)) NUL) @ bf"
  have load: "ph_load_pax_hdr en ph_create_hdr (?B @ r) (padded h + 1024) = (PX_SUCCESS, ?l)" for en r
    using ph_load_written [OF bx bf(1) std D(6,8,5) padded_def, of en r] by simp
  have is_ext: "ph_is_pax_hdr en (take 512 ?B @ r) = (PX_SUCCESS_EXT_HEADER, padded h + 512)" for en r
    using ph_is_pax_hdr_ext [OF bx D(8,5)] pad(2) len(1) by (simp flip: padded_def)
  have rl: "reloaded h d ?l"
    using bf by (simp add: reloaded_def)
  have "name_v.holds ?l nm"
  proof (cases "first_pair (Some ''path'') h")
    case None
    have fit: "cstr (fld (hdr_blk h) F_name) = nm" "nm \<noteq> []" "NUL \<in> set (fld (hdr_blk h) F_name)"
      using nm None by (simp_all add: name_v.holds_def string_repr_def member_bytes_def)
    then have "length nm < 100" "nul_free nm"
      using cstr_shorter [OF fit(3)] nul_free_cstr [of "fld (hdr_blk h) F_name"] D(1) by simp_all
    then show ?thesis
      using reloaded_wf [OF rl] reloaded_pair [OF w rl, of "''path''"] None bf(5,6) fit(2)
      by (simp add: name_v.holds_def string_repr_def member_bytes_def)
  next
    case (Some p)
    then show ?thesis
      using reloaded_string [OF w rl] reloaded_wf [OF rl] nm unfolding name_v.holds_def by auto
  qed
  moreover have "length ?B = padded h + 1024"
    using len pad(1) by simp
  ultimately show ?thesis
    using wr load is_ext rl
    by (intro exI [of _ "if 0 \<le> signed_sum bf then PX_SUCCESS else PX_ERROR_WONT_FIT"] exI [of _ ?B]
        exI [of _ h'] exI [of _ ns'] exI [of _ ?l]) simp
qed

end

section \<open>Building a header\<close>

text \<open>
  A header under construction: a marked block and created pairs whose lines have at most N
  bytes. Every set function keeps this for a bound that grows with the value it stores.
\<close>

definition building :: "nat \<Rightarrow> pax_hdr \<Rightarrow> bool" where
  "building N h \<longleftrightarrow>
     marked (hdr_blk h) \<and> (\<forall>p \<in> set (xhdr_list h). fresh_pair p) \<and> lines_size (xhdr_list h) \<le> N"

definition plain_key :: "string \<Rightarrow> bool" where
  "plain_key k \<longleftrightarrow> nul_free k \<and> k \<noteq> [] \<and> CHR ''='' \<notin> set k \<and> length k \<le> 20"

lemma building_wf [simp]: "building N h \<Longrightarrow> wf_hdr h"
  by (simp add: building_def marked_def wf_hdr_def)

lemma building_create: "building 0 ph_create_hdr"
  by (simp add: building_def ph_create_hdr_def marked_def)

lemma rec_line_size:
  assumes "wf_rec kw v"
  shows "length (rec_line kw v) \<le> length kw + length v + 23"
proof -
  from adjust_line_length_cases [OF rec_len_adjust(1) [OF assms]] obtain e where
    "e \<le> 19" "rec_len kw v = length (rec_body kw v) + e \<or> rec_len kw v = length (rec_body kw v) + Suc e"
    by metis
  then show ?thesis
    using rec_len_adjust(2) [OF assms] by (auto simp: rec_body_def)
qed

lemma lines_size_without: "lines_size (without k ps) \<le> lines_size ps"
  by (induction ps) auto

text \<open>Replacing the pairs of a keyword by at most one created pair.\<close>

lemma building_pairs:
  assumes "building N h" "\<forall>p \<in> set qs. fresh_pair p \<and> length (line_of p) \<le> c" "length qs \<le> 1"
    and b: "marked b"
  shows "building (N + c) \<lparr>hdr_blk = b, xhdr_list = qs @ without k (xhdr_list h)\<rparr>"
  using assms lines_size_without [of k "xhdr_list h"]
  by (cases qs) (auto simp: building_def)

lemma marked_set:
  "marked b \<Longrightarrow> length d = f_len f \<Longrightarrow> f \<noteq> F_magic \<Longrightarrow> f \<noteq> F_version \<Longrightarrow> marked (set_fld b f d)"
  by (simp add: marked_def)

lemma fresh_created:
  assumes "wf_rec (keyword p) (pair_text p)" "wf_pair p" "header_line p = None"
  shows "fresh_pair p \<and> length (line_of p) \<le> length (keyword p) + length (pair_text p) + 23"
  using assms rec_line_size by (simp add: fresh_pair_def line_of_def)

lemma wf_rec_plain: "plain_key k \<Longrightarrow> length v < 2 ^ 29 \<Longrightarrow> wf_rec k v"
  by (simp add: plain_key_def wf_rec_def)

lemma length_whole_time: "nsec t = 0 \<Longrightarrow> length (time_text t) \<le> 20"
  using length_fmt_d_i64 [of "sec t"] by (simp add: time_text_def)

text \<open>The pairs the set functions make.\<close>

lemma created_pairs:
  assumes "plain_key k"
  shows "fresh_pair (pxp_mkpair_u64 k v) \<and> length (line_of (pxp_mkpair_u64 k v)) \<le> 63"
    and "nsec t = 0 \<Longrightarrow>
      fresh_pair (pxp_mkpair_time k t) \<and> length (line_of (pxp_mkpair_time k t)) \<le> 63"
    and "length s < 2 ^ 29 \<Longrightarrow>
      fresh_pair (pxp_mkpair_string k (Some s)) \<and>
      length (line_of (pxp_mkpair_string k (Some s))) \<le> length s + 43"
proof -
  have k: "length k \<le> 20"
    using assms by (simp add: plain_key_def)
  have kw: "keyword (pxp_mkpair_u64 k v) = k" "keyword (pxp_mkpair_time k t) = k"
    "keyword (pxp_mkpair_string k (Some s)) = k" "header_line (pxp_mkpair_u64 k v) = None"
    "header_line (pxp_mkpair_time k t) = None" "header_line (pxp_mkpair_string k (Some s)) = None"
    by (simp_all add: pxp_mkpair_u64_def pxp_mkpair_time_def pxp_mkpair_string_def pxp_mkpair_def)
  have "wf_rec k (fmt_u (unat v))"
    using length_fmt_u_u64 [of v] by (intro wf_rec_plain [OF assms]) simp
  then show "fresh_pair (pxp_mkpair_u64 k v) \<and> length (line_of (pxp_mkpair_u64 k v)) \<le> 63"
    using fresh_created [of "pxp_mkpair_u64 k v"] length_fmt_u_u64 [of v] k
    by (auto simp: kw wf_mkpair)
  show "fresh_pair (pxp_mkpair_time k t) \<and> length (line_of (pxp_mkpair_time k t)) \<le> 63"
    if "nsec t = 0"
    using that fresh_created [of "pxp_mkpair_time k t"] length_whole_time [OF that] k
      wf_rec_plain [OF assms, of "time_text t"]
    by (auto simp: kw wf_mkpair)
  show "fresh_pair (pxp_mkpair_string k (Some s)) \<and>
      length (line_of (pxp_mkpair_string k (Some s))) \<le> length s + 43" if "length s < 2 ^ 29"
    using fresh_created [of "pxp_mkpair_string k (Some s)"] k wf_rec_plain [OF assms that]
    by (auto simp: kw wf_mkpair)
qed

lemma building_blk:
  assumes "building N h" "length d = f_len f" "f \<noteq> F_magic" "f \<noteq> F_version"
  shows "building N (h\<lparr>hdr_blk := set_fld (hdr_blk h) f d\<rparr>)"
  using assms marked_set by (simp add: building_def)

lemma building_replace:
  assumes "building N h" "length d = f_len f" "f \<noteq> F_magic" "f \<noteq> F_version"
    and "\<forall>p \<in> set qs. fresh_pair p \<and> length (line_of p) \<le> c" "length qs \<le> 1"
  shows "building (N + c) (h\<lparr>hdr_blk := set_fld (hdr_blk h) f d, xhdr_list := qs @ without k (xhdr_list h)\<rparr>)"
proof -
  have "marked (set_fld (hdr_blk h) f d)"
    using assms(1-4) by (simp add: building_def marked_set)
  from building_pairs [OF assms(1,5,6) this, of k] show ?thesis
    by (simp add: building_def)
qed

lemma building_set_unsigned:
  assumes b: "building N h" and k: "plain_key k" and f: "2 \<le> f_len f" "f \<noteq> F_magic" "f \<noteq> F_version"
  shows "building (N + 63) (snd (ph_set_unsigned_fn f (Some k) h v))"
proof (cases "num_fits f v")
  case True
  then show ?thesis
    using building_replace [OF b length_num_text [OF f(1) True] f(2,3), of "[]" 63 k]
    by (simp add: ph_set_unsigned_fn_eq(1) [OF building_wf [OF b] f(1)])
next
  case False
  then show ?thesis
    using building_replace [OF b _ f(2,3), of "replicate (f_len f) NUL" "[pxp_mkpair_u64 k v]" 63 k]
      created_pairs(1) [OF k]
    by (simp add: ph_set_unsigned_fn_eq(1) [OF building_wf [OF b] f(1)])
qed

lemma building_set_mtime:
  assumes b: "building N h" and t: "nsec t = 0"
  shows "building (N + 63) (snd (ph_set_mtime h t))"
proof (cases "num_fits F_mtime (sec t)")
  case True
  then show ?thesis
    using building_replace [OF b length_num_text [OF _ True], of "[]" 63 "''mtime''"] t
    by (simp add: ph_set_mtime_eq [OF building_wf [OF b]])
next
  case False
  have "plain_key ''mtime''"
    by (simp add: plain_key_def nul_free_def)
  with False show ?thesis
    using building_replace [OF b, of "replicate 12 NUL" F_mtime "[pxp_mkpair_time ''mtime'' t]" 63 "''mtime''"]
      created_pairs(2) [OF _ t]
    by (simp add: ph_set_mtime_eq [OF building_wf [OF b]])
qed

lemma building_put_time:
  assumes "building N h" "plain_key k" "nsec t = 0"
  shows "building (N + 63) (h\<lparr>xhdr_list := pxp_mkpair_time k t # xhdr_list h\<rparr>)"
  using assms created_pairs(2) [OF assms(2,3)] by (auto simp: building_def)

lemma building_set_atime:
  assumes b: "building N h" and t: "nsec t = 0"
  shows "building (N + 63) (snd (ph_set_atime h t))"
proof -
  have "plain_key ''atime''"
    by (simp add: plain_key_def nul_free_def)
  then show ?thesis
    using building_pairs [OF b, of "[pxp_mkpair_time ''atime'' t]" 63 "hdr_blk h" "''atime''"]
      created_pairs(2) [OF _ t] b
    by (simp add: ph_set_atime_eq building_def)
qed

lemma building_set_string:
  assumes b: "building N h" and k: "plain_key k" and f: "0 < f_len f" "f \<noteq> F_magic" "f \<noteq> F_version"
    and s: "nul_free s" "length s < 2 ^ 29"
  shows "building (N + (length s + 43)) (snd (ph_set_string_fn f (Some k) h s))"
proof (cases "length s \<le> f_len f")
  case True
  let ?d = "take (f_len f - 1) s @ replicate (f_len f - length (take (f_len f - 1) s)) NUL"
  have "length ?d = f_len f"
    by simp
  then show ?thesis
    using building_replace [OF b _ f(2,3), of ?d "[]" "length s + 43" k] True
    by (simp add: ph_set_string_fn_eq [OF building_wf [OF b] s(1) f(1)])
next
  case False
  then show ?thesis
    using building_replace [OF b _ f(2,3), of "replicate (f_len f) NUL" "[pxp_mkpair_string k (Some s)]" "length s + 43" k]
      created_pairs(3) [OF k s(2)]
    by (simp add: ph_set_string_fn_eq [OF building_wf [OF b] s(1) f(1)])
qed

lemma building_set_type:
  assumes "building N h"
  shows "building N (snd (ph_set_type h c))" "fld_type (hdr_blk (snd (ph_set_type h c))) = c"
  using building_blk [OF assms, of "[c]" F_type] assms
  by (simp_all add: ph_set_type_def fld_type_def building_def marked_def)

lemma building_writable:
  assumes "building N h" "N < 8 ^ 11" "xhdr_list h \<noteq> []" "std_type (fld_type (hdr_blk h))"
    "building 0 d" "xhdr_list d = []"
  shows "writable h d"
  using assms by (simp add: writable_def building_def marked_def wf_hdr_def)

section \<open>Sums of bytes\<close>

text \<open>The bytes with the high bit set, which the signed sum counts 256 too low each.\<close>

definition high_bytes :: "string \<Rightarrow> nat" where
  "high_bytes blk =
     length (filter (\<lambda>c. 128 \<le> (of_char c :: nat)) (take 500 (set_fld blk F_chksum (replicate 8 (CHR '' '')))))"

lemma signed_sum_list:
  "sum_list (map signed_char xs) =
     int (sum_list (map of_char xs)) - 256 * int (length (filter (\<lambda>c. 128 \<le> (of_char c :: nat)) xs))"
  by (induction xs) (simp_all add: signed_char_nat)

lemma signed_sum_eq: "signed_sum blk = int (ustar_sum blk) - 256 * int (high_bytes blk)"
  by (simp add: signed_sum_def ustar_sum_def high_bytes_def signed_sum_list)

section \<open>Generated names\<close>

text \<open>The state after n generated names, each of them with a new serial number.\<close>

fun after_names :: "(nat \<Rightarrow> i64) \<Rightarrow> name_state \<Rightarrow> nat \<Rightarrow> name_state" where
  "after_names clk ns 0 = ns"
| "after_names clk ns (Suc n) = next_name_state clk (after_names clk ns n) True"

lemma next_name_state_simps:
  "next_name_state clk ns False = ns\<lparr>ticks := Suc (ticks ns)\<rparr>"
  "next_name_state clk ns True =
     (if clk (ticks ns) \<noteq> last_arch_time ns
      then ns\<lparr>ticks := Suc (ticks ns), id_num := 0, last_arch_time := clk (ticks ns)\<rparr>
      else ns\<lparr>ticks := Suc (ticks ns), id_num := id_num ns + 1\<rparr>)"
  by (simp_all add: next_name_state_def ph_generate_short_name_def Let_def)

text \<open>The name of the file block repeats the serial number of the extended block before it.\<close>

lemma short_name_repeated:
  "short_name (next_name_state clk (next_name_state clk ns True) False) =
   short_name (next_name_state clk ns True)"
  by (simp add: next_name_state_simps(1) short_name_def)

lemma fmt_d_chars: "c \<in> set (fmt_d i) \<Longrightarrow> c \<noteq> CHR ''_''"
  using fmt_u_digits [of c "nat i"] fmt_u_digits [of c "nat (- i)"]
  by (auto simp: fmt_d_def isbdigit_def split: if_splits)

lemma fmt_u_inj: "fmt_u m = fmt_u n \<Longrightarrow> m = n"
proof -
  assume "fmt_u m = fmt_u n"
  then have "digits_value 10 (fmt_u m) = digits_value 10 (fmt_u n)"
    by (rule arg_cong)
  then show "m = n"
    by simp
qed

lemma fmt_d_inj:
  assumes "fmt_d i = fmt_d j"
  shows "i = j"
proof -
  have minus: "fmt_u n \<noteq> CHR ''-'' # s" for n s
    using fmt_u_digits [of "CHR ''-''" n] by (auto simp: isbdigit_def)
  then have sign: "i < 0 \<longleftrightarrow> j < 0"
    using assms unfolding fmt_d_def by (metis (full_types))
  show ?thesis
    using assms sign fmt_u_inj [of "nat (- i)" "nat (- j)"] fmt_u_inj [of "nat i" "nat j"]
    by (simp add: fmt_d_def split: if_splits)
qed

lemma append_sep_inj:
  assumes "x \<notin> set a" "x \<notin> set b" "a @ x # c = b @ x # d"
  shows "a = b \<and> c = d"
  using assms(3) assms(1,2)
proof (induction a arbitrary: b)
  case Nil
  then show ?case
    by (cases b) auto
next
  case (Cons y a)
  then show ?case
    by (cases b) auto
qed

lemma short_name_inj:
  assumes "short_name a = short_name b"
  shows "last_arch_time a = last_arch_time b \<and> id_num a = id_num b"
proof -
  have "CHR ''_'' \<notin> set (fmt_d (sint (last_arch_time a)))" "CHR ''_'' \<notin> set (fmt_d (sint (last_arch_time b)))"
    using fmt_d_chars by blast+
  from append_sep_inj [OF this] assms
  have "fmt_d (sint (last_arch_time a)) = fmt_d (sint (last_arch_time b))" "fmt_d (sint (id_num a)) = fmt_d (sint (id_num b))"
    unfolding short_name_def by auto
  then have "sint (last_arch_time a) = sint (last_arch_time b)" "sint (id_num a) = sint (id_num b)"
    using fmt_d_inj by blast+
  then show ?thesis
    by (simp only: signed_word_eqI)
qed

text \<open>Time and serial number as one number, which grows as long as the clock does not go back.\<close>

definition name_key :: "name_state \<Rightarrow> int" where
  "name_key ns = sint (last_arch_time ns) * 2 ^ 32 + uint (id_num ns)"

lemma next_name_key:
  assumes "sint (last_arch_time ns) \<le> sint (clk (ticks ns))" "unat (id_num ns) < 2 ^ 32 - 1"
  shows "name_key ns < name_key (next_name_state clk ns True)"
    and "unat (id_num (next_name_state clk ns True)) \<le> Suc (unat (id_num ns))"
    and "last_arch_time (next_name_state clk ns True) = clk (ticks ns)"
    and "ticks (next_name_state clk ns True) = Suc (ticks ns)"
proof -
  have inc: "unat (id_num ns + 1) = Suc (unat (id_num ns))"
    using assms(2) by (subst unat_add_lem [THEN iffD1]) simp_all
  have "sint (last_arch_time ns) < sint (clk (ticks ns))" if "clk (ticks ns) \<noteq> last_arch_time ns"
    using that assms(1) signed_word_eqI [of "clk (ticks ns)" "last_arch_time ns"]
    by (metis order_le_less)
  moreover have "uint (id_num ns) < 2 ^ 32"
    using uint_lt2p [of "id_num ns"] by simp
  moreover have "uint (id_num ns) < uint (id_num ns + 1)"
    by (simp only: uint_nat inc of_nat_less_iff lessI)
  ultimately show "name_key ns < name_key (next_name_state clk ns True)"
    "unat (id_num (next_name_state clk ns True)) \<le> Suc (unat (id_num ns))"
    "last_arch_time (next_name_state clk ns True) = clk (ticks ns)"
    "ticks (next_name_state clk ns True) = Suc (ticks ns)"
    using inc by (auto simp: next_name_state_simps name_key_def)
qed

text \<open>A clock that does not go back, nor behind the time of the last name.\<close>

definition steady :: "(nat \<Rightarrow> i64) \<Rightarrow> name_state \<Rightarrow> bool" where
  "steady clk ns \<longleftrightarrow>
     (\<forall>i j. i \<le> j \<longrightarrow> sint (clk i) \<le> sint (clk j)) \<and> sint (last_arch_time ns) \<le> sint (clk (ticks ns))"

lemma after_names_props:
  assumes steady: "steady clk ns" and few: "unat (id_num ns) + n < 2 ^ 32"
  shows "ticks (after_names clk ns n) = ticks ns + n \<and>
    unat (id_num (after_names clk ns n)) \<le> unat (id_num ns) + n \<and>
    sint (last_arch_time (after_names clk ns n)) \<le> sint (clk (ticks ns + n))"
  using few
proof (induction n)
  case (Suc n)
  let ?a = "after_names clk ns n"
  have a: "ticks ?a = ticks ns + n" "unat (id_num ?a) \<le> unat (id_num ns) + n"
    "sint (last_arch_time ?a) \<le> sint (clk (ticks ns + n))"
    using Suc by simp_all
  then have "unat (id_num ?a) < 2 ^ 32 - 1"
    using Suc.prems by simp
  moreover have "sint (clk (ticks ns + n)) \<le> sint (clk (Suc (ticks ns + n)))"
    using steady by (simp add: steady_def)
  ultimately show ?case
    using next_name_key [of ?a clk] a by simp
qed (use steady in \<open>simp add: steady_def\<close>)

lemma after_names_key:
  assumes steady: "steady clk ns" and few: "unat (id_num ns) + n < 2 ^ 32" and mn: "m < n"
  shows "name_key (after_names clk ns m) < name_key (after_names clk ns n)"
  using mn few
proof (induction n)
  case (Suc n)
  let ?a = "after_names clk ns n"
  have a: "unat (id_num ?a) \<le> unat (id_num ns) + n" "sint (last_arch_time ?a) \<le> sint (clk (ticks ?a))"
    using after_names_props [OF steady, of n] Suc.prems by simp_all
  then have "unat (id_num ?a) < 2 ^ 32 - 1"
    using Suc.prems by simp
  with a(2) have "name_key ?a < name_key (after_names clk ns (Suc n))"
    using next_name_key(1) [of ?a clk] by simp
  moreover have "m = n \<or> m < n"
    using Suc.prems by auto
  ultimately show ?case
    using Suc.IH Suc.prems by auto
qed simp

section \<open>Properties\<close>




definition sample_hdr :: pax_hdr where
  "sample_hdr = snd (ph_set_name (snd (ph_set_type (snd (ph_set_atime ph_create_hdr \<lparr>sec = 5, nsec = 0\<rparr>))
     (CHR ''0''))) ''a'')"

lemma sample_hdr_writable: "writable sample_hdr ph_create_hdr" "name_v.holds sample_hdr ''a''"
proof -
  define h0 where "h0 = snd (ph_set_type (snd (ph_set_atime ph_create_hdr \<lparr>sec = 5, nsec = 0\<rparr>)) (CHR ''0''))"
  have h0: "building 63 h0" "fld_type (hdr_blk h0) = CHR ''0''"
    "xhdr_list h0 = [pxp_mkpair_time ''atime'' \<lparr>sec = 5, nsec = 0\<rparr>]"
    using building_set_atime [OF building_create, of "\<lparr>sec = 5, nsec = 0\<rparr>"]
    unfolding h0_def
    by (auto dest: building_set_type simp: building_set_type(2))
      (simp add: ph_set_type_def ph_set_atime_eq ph_create_hdr_def)
  have k: "plain_key ''path''" "string_ok F_name ''a''"
    by (simp_all add: plain_key_def nul_free_def string_ok_def)
  have put: "ph_set_name h0 ''a'' = (PX_SUCCESS, sample_hdr)"
    using name_v.put_holds [OF building_wf [OF h0(1)] k(2)] by (auto simp: sample_hdr_def h0_def)
  show "name_v.holds sample_hdr ''a''"
    using name_v.put_holds [OF building_wf [OF h0(1)] k(2)] put by simp
  have b: "building (63 + (length ''a'' + 43)) sample_hdr"
    using building_set_string [OF h0(1) k(1), of F_name "''a''"] put
    by (simp add: ph_set_name_def nul_free_def)
  moreover have "fld_type (hdr_blk sample_hdr) = CHR ''0''"
    using h0(2) name_v.put_members [OF building_wf [OF h0(1)] k(2) put, of F_type]
    by (simp add: fld_type_def)
  moreover have "xhdr_list (snd (ph_set_name h0 ''a'')) = without ''path'' (xhdr_list h0)"
    using ph_set_string_fn_eq [OF building_wf [OF h0(1)], of "''a''" F_name "''path''"]
    by (simp add: ph_set_name_def nul_free_def)
  then have "xhdr_list sample_hdr \<noteq> []"
    by (simp add: put h0(3) pxp_mkpair_time_def pxp_mkpair_def)
  ultimately show "writable sample_hdr ph_create_hdr"
    using building_writable [OF b] building_create
    by (simp add: std_type_def ph_create_hdr_def)
qed


text \<open>
  C37. The checksum. \<open>checksum\<close> adds the bytes of the block as signed characters, so the
  number it stores is the ustar checksum less 256 for every byte with the high bit set. With
  seven-bit bytes it is the ustar checksum; when the difference is negative the value does
  not fit and the function fails, leaving the member empty.
\<close>

theorem checksum_signed_bytes:
  assumes "length blk = 512"
  shows "checksum blk =
    (if 256 * high_bytes blk \<le> ustar_sum blk
     then (PX_SUCCESS, set_fld blk F_chksum (fmt_o 7 (ustar_sum blk - 256 * high_bytes blk) @ [NUL]))
     else (PX_ERROR_WONT_FIT, set_fld blk F_chksum (replicate 8 NUL)))"
proof -
  have "unat (word_of_int (signed_sum blk) :: u64) = ustar_sum blk - 256 * high_bytes blk"
    if "0 \<le> signed_sum blk"
    using that signed_sum_word [of blk] by (simp add: signed_sum_eq nat_diff_distrib nat_mult_distrib)
  moreover have "0 \<le> signed_sum blk \<longleftrightarrow> 256 * high_bytes blk \<le> ustar_sum blk"
    by (auto simp: signed_sum_eq)
  ultimately show ?thesis
    by (simp add: checksum_eq [OF assms] num_text_def)
qed

theorem checksum_signed_bytes_witness:
  "fst (checksum (replicate 90 (CHR 0xE4) @ replicate 422 NUL)) = PX_ERROR_WONT_FIT \<and>
   checksum (replicate 90 (CHR ''a'') @ replicate 422 NUL) =
     (PX_SUCCESS, set_fld (replicate 90 (CHR ''a'') @ replicate 422 NUL) F_chksum (fmt_o 7 8986 @ [NUL]))"
proof -
  have "high_bytes (replicate 90 c @ replicate 422 NUL) = (if 128 \<le> (of_char c :: nat) then 90 else 0)" for c
    by (simp add: high_bytes_def set_fld_def overwrite_def)
  moreover have "ustar_sum (replicate 90 c @ replicate 422 NUL) = 90 * of_char c + 256" for c
    by (simp add: ustar_sum_def set_fld_def overwrite_def sum_list_replicate)
  ultimately show ?thesis
    using checksum_signed_bytes [of "replicate 90 (CHR 0xE4) @ replicate 422 NUL"]
      checksum_signed_bytes [of "replicate 90 (CHR ''a'') @ replicate 422 NUL"]
    by simp
qed

end
