(* ===== verification/Tar_Numbers.thy ===== *)
theory Tar_Numbers
  imports Prelude
begin

text \<open>
  The numbers of the legacy tar header: \<open>l2oct\<close> of src/src/archiver/arcopy/header.c and
  \<open>ll2oct\<close>, \<open>ll2str\<close>, \<open>llfrom_oct\<close>, \<open>llfrom_str\<close> of src/src/lib/samut/util.c. A number is
  written right-aligned in octal, followed by a blank; a number that does not fit is written
  as an x and hexadecimal digits. The fields are byte lists; the functions store at the
  indices the code stores at, from right to left.
\<close>

unbundle bit_operations_syntax

section \<open>Writing\<close>

text \<open>
  The loop over the digits. The first argument is the count that is left, and the next digit
  goes to the index below it. The result is the count that is left and the field.
\<close>

fun oct_digits :: "nat \<Rightarrow> 'a::len word \<Rightarrow> string \<Rightarrow> nat \<times> string" where
  "oct_digits 0 v m = (0, m)"
| "oct_digits (Suc k) v m =
     (let m' = m[k := digit_char (unat (v AND 7))]; v' = drop_bit 3 v
      in if v' = 0 then (k, m') else oct_digits k v' m')"

fun blank_fill :: "nat \<Rightarrow> string \<Rightarrow> string" where
  "blank_fill 0 m = m"
| "blank_fill (Suc k) m = blank_fill k (m[k := CHR '' ''])"

definition octal_field :: "'a::len word \<Rightarrow> string \<Rightarrow> nat \<Rightarrow> string" where
  "octal_field v dest width =
     (let w = width - 2; (k, m) = oct_digits w v (dest[w := CHR '' '']) in blank_fill k m)"

definition l2oct :: "u32 \<Rightarrow> string \<Rightarrow> nat \<Rightarrow> string" where
  "l2oct v dest width = octal_field v dest width"

definition ll2oct :: "u64 \<Rightarrow> string \<Rightarrow> nat \<Rightarrow> string" where
  "ll2oct v dest width = octal_field v dest width"

definition hex_char :: "nat \<Rightarrow> char" where
  "hex_char d = (if 9 < d then char_of (d + 87) else char_of (d + 48))"

fun hex_digits :: "nat \<Rightarrow> u64 \<Rightarrow> string \<Rightarrow> string" where
  "hex_digits 0 v m = m"
| "hex_digits (Suc k) v m = hex_digits k (drop_bit 4 v) (m[Suc k := hex_char (unat (v AND 15))])"

definition ll2str :: "u64 \<Rightarrow> string \<Rightarrow> nat \<Rightarrow> string" where
  "ll2str v dest width =
     (if drop_bit (3 * (width - 2)) v = 0 then ll2oct v dest width
      else hex_digits (width - 2) v (dest[0 := CHR ''x'']))"

section \<open>Reading\<close>

definition isodigit :: "char \<Rightarrow> bool" where
  "isodigit c \<longleftrightarrow> isbdigit 8 c"

text \<open>
  Reading starts at an address inside a header; \<open>digs\<close> is the size of the field, and the text
  goes on behind it. \<^const>\<open>None\<close> is the early return for a blank field.
\<close>

fun skip_spaces :: "nat \<Rightarrow> string \<Rightarrow> (nat \<times> string) option" where
  "skip_spaces digs [] = Some (digs, [])"
| "skip_spaces digs (c # cs) =
     (if isspace c then (if digs \<le> 1 then None else skip_spaces (digs - 1) cs)
      else Some (digs, c # cs))"

fun oct_scan :: "nat \<Rightarrow> u64 \<Rightarrow> string \<Rightarrow> nat \<times> u64 \<times> string" where
  "oct_scan 0 v s = (0, v, s)"
| "oct_scan (Suc d) v [] = (Suc d, v, [])"
| "oct_scan (Suc d) v (c # cs) =
     (if isodigit c then oct_scan d (push_bit 3 v OR word_of_nat (digit_val c)) cs
      else (Suc d, v, c # cs))"

text \<open>The test behind the last digit: the field may go on with a NUL or a space.\<close>

definition bad_end :: "nat \<Rightarrow> string \<Rightarrow> bool" where
  "bad_end digs s \<longleftrightarrow> 0 < digs \<and> s \<noteq> [] \<and> hd s \<noteq> NUL \<and> \<not> isspace (hd s)"

definition llfrom_oct :: "nat \<Rightarrow> string \<Rightarrow> u64" where
  "llfrom_oct digs s =
     (case skip_spaces digs s of
        None \<Rightarrow> - 1
      | Some (d, t) \<Rightarrow> (case oct_scan d 0 t of (d', v, r) \<Rightarrow> if bad_end d' r then - 1 else v))"

text \<open>The value of a hexadecimal digit as the code computes it, with a signed char.\<close>

definition hex_digit :: "char \<Rightarrow> int" where
  "hex_digit c =
     (let tmp = signed_char c; digit = tmp - 48
      in if 9 < digit
         then (if 97 \<le> tmp \<and> tmp \<le> 122 then tmp - 32 else tmp) + 10 - 65
         else digit)"

fun hex_scan :: "nat \<Rightarrow> u64 \<Rightarrow> string \<Rightarrow> nat \<times> u64 \<times> string" where
  "hex_scan 0 v s = (0, v, s)"
| "hex_scan (Suc d) v [] = (Suc d, v, [])"
| "hex_scan (Suc d) v (c # cs) =
     (if 0 \<le> hex_digit c \<and> hex_digit c < 16 then hex_scan d (v * 16 + word_of_int (hex_digit c)) cs
      else (Suc d, v, c # cs))"

definition llfrom_str :: "nat \<Rightarrow> string \<Rightarrow> u64" where
  "llfrom_str digs s =
     (if s = [] \<or> hd s \<noteq> CHR ''x'' then llfrom_oct digs s
      else (case skip_spaces (digs - 1) (tl s) of
        None \<Rightarrow> - 1
      | Some (d, t) \<Rightarrow> (case hex_scan d 0 t of (d', v, r) \<Rightarrow> if bad_end d' r then - 1 else v)))"

section \<open>What is written\<close>

lemma list_update_take:
  assumes "k < length m"
  shows "take k (m[k := c]) = take k m" "drop (Suc k) (m[k := c]) = drop (Suc k) m"
    "drop k (m[k := c]) = c # drop (Suc k) m"
  using assms by (simp_all add: Cons_nth_drop_Suc [symmetric])

lemma blank_fill_text: "k \<le> length m \<Longrightarrow> blank_fill k m = replicate k (CHR '' '') @ drop k m"
proof (induction k arbitrary: m)
  case (Suc k)
  then show ?case
    by (simp add: list_update_take replicate_append_same flip: replicate_Suc)
qed simp

lemma unat_take_bit: "unat (take_bit n v :: 'a::len word) = unat v mod 2 ^ n"
  by (subst unsigned_take_bit_eq) (simp add: take_bit_eq_mod)

lemma unat_drop_bit: "unat (drop_bit n v :: 'a::len word) = unat v div 2 ^ n"
  by (subst unsigned_drop_bit_eq) (simp add: drop_bit_eq_div take_bit_nat_eq_self)

lemma drop_bit_0_iff: "(drop_bit n v :: 'a::len word) = 0 \<longleftrightarrow> unat v < 2 ^ n"
proof -
  have "(drop_bit n v :: 'a word) = 0 \<longleftrightarrow> unat (drop_bit n v) = 0"
    by (simp only: unsigned_eq_0_iff)
  then show ?thesis
    by (simp only: unat_drop_bit div_eq_0_iff) simp
qed

lemma low_digit: "unat (v AND 7 :: 'a::len word) = unat v mod 8" "unat (w AND 15 :: u64) = unat w mod 16"
proof -
  have "v AND 7 = take_bit 3 v" "w AND 15 = take_bit 4 w"
    by (simp_all add: take_bit_eq_mask mask_eq_exp_minus_1)
  then show "unat (v AND 7) = unat v mod 8" "unat (w AND 15) = unat w mod 16"
    using unat_take_bit [of 3 v] unat_take_bit [of 4 w] by (simp_all only: power_numeral) simp_all
qed

lemma to_base_8: "to_base 8 n = (if n < 8 then [digit_char n] else to_base 8 (n div 8) @ [digit_char (n mod 8)])"
  by (subst to_base.simps) simp

lemma oct_digits_text:
  assumes "unat v < 8 ^ k" "0 < k" "k \<le> length m"
  shows "oct_digits k v m =
    (k - length (to_base 8 (unat v)), take (k - length (to_base 8 (unat v))) m @ to_base 8 (unat v) @ drop k m)"
  using assms
proof (induction k arbitrary: v m)
  case (Suc k)
  let ?m = "m[k := digit_char (unat v mod 8)]"
  have d: "drop_bit 3 v = 0 \<longleftrightarrow> unat v < 8"
    using drop_bit_0_iff [of 3 v] by simp
  show ?case
  proof (cases "unat v < 8")
    case True
    have "m[k := digit_char (unat v)] = take k m @ digit_char (unat v) # drop (Suc k) m"
      using Suc.prems by (simp add: upd_conv_take_nth_drop)
    then show ?thesis
      using True Suc.prems d by (simp add: low_digit to_base_8 Let_def)
  next
    case False
    let ?v = "drop_bit 3 v"
    have "unat ?v = unat v div 8"
      using unat_drop_bit [of 3 v] by simp
    moreover have "unat v div 8 < 8 ^ k" "0 < k"
      using Suc.prems(1) False by (auto simp: div_less_iff_less_mult intro!: Nat.gr0I)
    ultimately have "oct_digits k ?v ?m = (k - length (to_base 8 (unat v div 8)),
        take (k - length (to_base 8 (unat v div 8))) ?m @ to_base 8 (unat v div 8) @ drop k ?m)"
      using Suc.IH [of ?v ?m] Suc.prems by simp
    moreover have "drop k ?m = digit_char (unat v mod 8) # drop (Suc k) m"
      using Suc.prems by (simp add: list_update_take)
    moreover have "take (k - j) ?m = take (k - j) m" for j
      by simp
    ultimately show ?thesis
      using False d by (simp add: low_digit to_base_8 [of "unat v"] Let_def)
  qed
qed simp

lemma octal_field_text:
  assumes "unat v < 8 ^ (n - 1)" "2 \<le> n" "n \<le> length dest"
  shows "octal_field v dest (Suc n) =
    replicate (n - 1 - length (to_base 8 (unat v))) (CHR '' '') @ to_base 8 (unat v) @ CHR '' '' # drop n dest"
proof -
  let ?m = "dest[n - 1 := CHR '' '']" and ?k = "n - 1 - length (to_base 8 (unat v))"
  have "drop (n - 1) ?m = CHR '' '' # drop n dest"
    using assms(2,3) list_update_take(3) [of "n - 1" dest "CHR '' ''"] by simp
  then have "oct_digits (n - 1) v ?m = (?k, take ?k ?m @ to_base 8 (unat v) @ CHR '' '' # drop n dest)"
    using oct_digits_text [OF assms(1), of ?m] assms(2,3) by simp
  then show ?thesis
    using assms(2,3) blank_fill_text [of ?k "take ?k ?m @ to_base 8 (unat v) @ CHR '' '' # drop n dest"]
    by (simp add: octal_field_def)
qed

fun hex_text :: "nat \<Rightarrow> nat \<Rightarrow> string" where
  "hex_text 0 n = []"
| "hex_text (Suc k) n = hex_text k (n div 16) @ [hex_char (n mod 16)]"

lemma length_hex_text [simp]: "length (hex_text k n) = k"
  by (induction k arbitrary: n) simp_all

lemma hex_digits_text:
  "k < length m \<Longrightarrow> hex_digits k v m = take 1 m @ hex_text k (unat v) @ drop (Suc k) m"
proof (induction k arbitrary: v m)
  case 0
  then show ?case
    by (cases m) simp_all
next
  case (Suc k)
  have "drop (Suc k) (m[Suc k := c]) = c # drop (Suc (Suc k)) m" for c
    using Suc.prems list_update_take(3) [of "Suc k" m] by simp
  moreover have "unat (drop_bit 4 v) = unat v div 16"
    using unat_drop_bit [of 4 v] by simp
  ultimately show ?case
    using Suc by (simp add: low_digit)
qed

section \<open>What is read\<close>

lemma push_or:
  assumes "d < 8"
  shows "push_bit 3 v OR (word_of_nat d :: u64) = v * 8 + word_of_nat d"
proof -
  have "push_bit 3 v AND (word_of_nat d :: u64) = 0"
  proof (rule bit_word_eqI)
    fix n
    have "\<not> bit (word_of_nat d :: u64) n" if "3 \<le> n"
    proof -
      have "(2 :: nat) ^ 3 \<le> 2 ^ n"
        using that by (intro power_increasing) simp_all
      then have "\<not> bit d n"
        using assms by (simp add: bit_iff_odd)
      then show ?thesis
        by (simp add: bit_of_nat_iff)
    qed
    then show "bit (push_bit 3 v AND (word_of_nat d :: u64)) n \<longleftrightarrow> bit 0 n"
      by (auto simp: bit_and_iff bit_push_bit_iff)
  qed
  then show ?thesis
    using word_plus_and_or [of "push_bit 3 v" "word_of_nat d :: u64"] by (simp add: push_bit_eq_mult)
qed

lemma oct_scan_digits:
  assumes "\<And>c. c \<in> set ds \<Longrightarrow> isbdigit 8 c" "length ds \<le> d"
  shows "oct_scan d (word_of_nat a) (ds @ t) =
    oct_scan (d - length ds) (word_of_nat (foldl (\<lambda>a c. a * 8 + digit_val c) a ds)) t"
  using assms
proof (induction ds arbitrary: a d)
  case (Cons c ds)
  then obtain e where e: "d = Suc e"
    by (cases d) auto
  have c: "isbdigit 8 c" "digit_val c < 8"
    using Cons.prems(1) [of c] by (auto simp: isbdigit_def digit_val_def)
  have "push_bit 3 (word_of_nat a) OR word_of_nat (digit_val c) = (word_of_nat (a * 8 + digit_val c) :: u64)"
    using push_or [OF c(2), of "word_of_nat a"] by simp
  then have "oct_scan d (word_of_nat a) ((c # ds) @ t) = oct_scan e (word_of_nat (a * 8 + digit_val c)) (ds @ t)"
    using e c(1) by (simp add: isodigit_def del: of_nat_add of_nat_mult)
  then show ?case
    using Cons e by (simp del: of_nat_add of_nat_mult)
qed simp

lemma skip_spaces_blanks:
  assumes "t \<noteq> []" "\<not> isspace (hd t)" "k < d"
  shows "skip_spaces d (replicate k (CHR '' '') @ t) = Some (d - k, t)"
  using assms
proof (induction k arbitrary: d)
  case 0
  then show ?case
    by (cases t) simp_all
next
  case (Suc k)
  then show ?case
    by (simp add: isspace_def)
qed

lemma hex_char_value:
  assumes "d < 16"
  shows "hex_digit (hex_char d) = int d" "\<not> isspace (hex_char d)"
proof -
  have "of_char (hex_char d) = (if 9 < d then d + 87 else d + 48)"
    using assms by (simp add: hex_char_def)
  then have c: "signed_char (hex_char d) = (if 9 < d then int d + 87 else int d + 48)"
    using assms by (simp add: signed_char_nat)
  show "hex_digit (hex_char d) = int d"
    using assms by (simp add: hex_digit_def c Let_def)
  show "\<not> isspace (hex_char d)"
    using c assms by (auto simp: isspace_def signed_char_def split: if_splits)
qed

lemma hex_scan_char:
  assumes "d < 16"
  shows "hex_scan (Suc n) v (hex_char d # t) = hex_scan n (v * 16 + word_of_nat d) t"
  using hex_char_value(1) [OF assms] assms by simp

lemma hex_scan_text:
  "hex_scan (k + n) v (hex_text k m @ t) = hex_scan n (v * 16 ^ k + word_of_nat (m mod 16 ^ k)) t"
proof (induction k arbitrary: m n t)
  case (Suc k)
  have "m mod 16 ^ Suc k = 16 * (m div 16 mod 16 ^ k) + m mod 16"
    by (simp add: mod_mult2_eq)
  then have "(v * 16 ^ k + word_of_nat (m div 16 mod 16 ^ k)) * 16 + word_of_nat (m mod 16) =
      v * 16 ^ Suc k + (word_of_nat (m mod 16 ^ Suc k) :: u64)"
    by (simp add: algebra_simps)
  moreover have "hex_scan (Suc k + n) v (hex_text (Suc k) m @ t) =
      hex_scan n ((v * 16 ^ k + word_of_nat (m div 16 mod 16 ^ k)) * 16 + word_of_nat (m mod 16)) t"
    using Suc.IH [of "Suc n" "m div 16" "hex_char (m mod 16) # t"] hex_scan_char [of "m mod 16" n]
    by (simp del: hex_scan.simps)
  ultimately show ?case
    by (simp only:)
qed simp

lemma llfrom_oct_field:
  assumes v: "unat v < 8 ^ (n - 1)" and n: "2 \<le> n" "n \<le> length dest"
  shows "llfrom_oct n (octal_field v dest (Suc n)) = (word_of_nat (unat v) :: u64)"
    and "hd (octal_field v dest (Suc n)) \<noteq> CHR ''x''" and "octal_field v dest (Suc n) \<noteq> []"
proof -
  let ?ds = "to_base 8 (unat v)"
  define k where "k = n - 1 - length ?ds"
  have f: "octal_field v dest (Suc n) = replicate k (CHR '' '') @ ?ds @ CHR '' '' # drop n dest"
    using octal_field_text [OF v n] by (simp add: k_def)
  have len: "length ?ds \<le> n - 1"
    using v n length_to_base_le [of 8 "n - 1" "unat v"] by simp
  have ds: "\<And>c. c \<in> set ?ds \<Longrightarrow> isbdigit 8 c"
    by (rule to_base_digits [of 8]) simp_all
  obtain c cs where c: "?ds = c # cs"
    by (cases ?ds) auto
  then have "isbdigit 8 c"
    using ds by simp
  then have hd: "\<not> isspace c" "c \<noteq> CHR ''x''"
    by (auto simp: isbdigit_def isspace_def)
  have k: "k < n" "n - k = Suc (length ?ds)"
    using len n(1) by (auto simp: k_def)
  then have skip: "skip_spaces n (octal_field v dest (Suc n)) = Some (Suc (length ?ds), ?ds @ CHR '' '' # drop n dest)"
    using skip_spaces_blanks [of "?ds @ CHR '' '' # drop n dest" k n] hd c unfolding f by simp
  have "oct_scan (Suc (length ?ds)) 0 (?ds @ CHR '' '' # drop n dest) =
      oct_scan 1 (word_of_nat (unat v)) (CHR '' '' # drop n dest)"
    using oct_scan_digits [OF ds, where d = "Suc (length ?ds)" and a = 0 and t = "CHR '' '' # drop n dest"]
    by (simp flip: digits_value_def)
  then show "llfrom_oct n (octal_field v dest (Suc n)) = (word_of_nat (unat v) :: u64)"
    using skip by (simp add: llfrom_oct_def isodigit_def isbdigit_def bad_end_def isspace_def)
  show "hd (octal_field v dest (Suc n)) \<noteq> CHR ''x''" "octal_field v dest (Suc n) \<noteq> []"
    using hd(2) c unfolding f by (cases k; simp)+
qed

lemma hex_text_chars: "c \<in> set (hex_text k m) \<Longrightarrow> \<not> isspace c"
  by (induction k arbitrary: m) (auto simp: hex_char_value(2))

lemma llfrom_hex_field:
  assumes "2 \<le> n" "n \<le> length dest"
  shows "llfrom_str n (hex_digits (n - 1) v (dest[0 := CHR ''x''])) = word_of_nat (unat v mod 16 ^ (n - 1))"
proof -
  obtain k where k: "n - 1 = Suc k"
    using assms(1) by (cases "n - 1") auto
  let ?t = "hex_text (Suc k) (unat v) @ drop (Suc (Suc k)) dest"
  have "hex_digits (Suc k) v (dest[0 := CHR ''x'']) = CHR ''x'' # ?t"
    using hex_digits_text [of "Suc k" "dest[0 := CHR ''x'']" v] assms k by (cases dest) simp_all
  moreover have "skip_spaces (Suc k) ?t = Some (Suc k, ?t)"
  proof -
    obtain c cs where c: "hex_text (Suc k) (unat v) = c # cs"
      by (cases "hex_text (Suc k) (unat v)") auto
    then have "\<not> isspace c"
      using hex_text_chars [of c "Suc k" "unat v"] by simp
    then show ?thesis
      unfolding c by simp
  qed
  moreover have "hex_scan (Suc k) 0 ?t = (0, word_of_nat (unat v mod 16 ^ Suc k), drop (Suc (Suc k)) dest)"
    using hex_scan_text [of "Suc k" 0 0 "unat v"] by (simp del: hex_text.simps)
  ultimately show ?thesis
    unfolding llfrom_str_def k by (simp add: bad_end_def del: hex_text.simps hex_digits.simps)
qed

lemma llfrom_ll2str:
  assumes "2 \<le> n" "n \<le> length dest"
  shows "llfrom_str n (ll2str v dest (Suc n)) =
    (if unat v < 8 ^ (n - 1) then v else word_of_nat (unat v mod 16 ^ (n - 1)))"
proof (cases "unat v < 8 ^ (n - 1)")
  case True
  then have "drop_bit (3 * (n - 1)) v = 0"
    by (simp add: drop_bit_0_iff power_mult)
  then show ?thesis
    using True llfrom_oct_field [OF True assms] by (simp add: ll2str_def ll2oct_def llfrom_str_def)
next
  case False
  then have "drop_bit (3 * (n - 1)) v \<noteq> 0"
    by (simp add: drop_bit_0_iff power_mult)
  then show ?thesis
    using False llfrom_hex_field [OF assms, of v] by (simp add: ll2str_def)
qed

section \<open>Properties\<close>

text \<open>
  C21. Sizes in a legacy header. What \<open>ll2str\<close> writes into a field of n bytes, with the width
  the callers pass, \<open>llfrom_str\<close> reads back, whatever follows the field: a number of at most n - 1
  octal digits exactly, a larger one modulo \<open>16 ^ (n - 1)\<close>. For the 12 bytes of a size this is
  exact below \<open>2 ^ 44\<close>; a file of 16 tebibytes or more gets a size that is too small.
\<close>

theorem ll2str_roundtrip:
  assumes "2 \<le> n" "n \<le> length dest"
  shows "llfrom_str n (ll2str v dest (Suc n)) =
    (if unat v < 8 ^ (n - 1) then v else word_of_nat (unat v mod 16 ^ (n - 1)))"
  by (rule llfrom_ll2str [OF assms])

theorem ll2str_roundtrip_witness:
  "llfrom_str 12 (ll2str 5000000000 (replicate 12 NUL) 13) = 5000000000 \<and>
   llfrom_str 12 (ll2str 10000000000 (replicate 12 NUL) 13) = 10000000000 \<and>
   llfrom_str 12 (ll2str 17592186044421 (replicate 12 NUL) 13) = 5"
  using ll2str_roundtrip [of 12 "replicate 12 NUL" 5000000000]
    ll2str_roundtrip [of 12 "replicate 12 NUL" 10000000000]
    ll2str_roundtrip [of 12 "replicate 12 NUL" 17592186044421]
  by simp

end
