(* ===== verification/Archive_Header.thy ===== *)
theory Archive_Header
  imports Pax_Write Arcopy_Buffer Tar_Numbers
begin

text \<open>
  The header the archiver puts before every file (src/src/archiver/arcopy/header.c), in both
  formats: \<open>buildPaxHeader\<close> with its default header, and \<open>buildLegacyHeader\<close> with \<open>writeHeader\<close>.
  The header goes into the circular buffer of the copy process. The user and group databases,
  the result of \<open>readlink\<close> and the clock are parameters. \<^const>\<open>None\<close> is the exit of the process
  through \<open>LibFatal\<close>.
\<close>

section \<open>File status and names of owners\<close>

record sam_stat =
  st_mode :: u32
  st_uid :: u32
  st_gid :: u32
  st_size :: u64
  st_atime :: i64
  st_mtime :: i64
  st_ctime :: i64

definition S_ISLNK :: "u32 \<Rightarrow> bool" where
  "S_ISLNK mode \<longleftrightarrow> mode AND 0xf000 = 0xa000"

definition S_ISDIR :: "u32 \<Rightarrow> bool" where
  "S_ISDIR mode \<longleftrightarrow> mode AND 0xf000 = 0x4000"

text \<open>
  The single entry caches of \<open>getuname\<close> and \<open>getgname\<close>: the id of the last call, -1 at the
  start, and its name, cut to 31 characters, empty for an unknown id.
\<close>

type_synonym id_cache = "u32 \<times> string"

definition cached_name :: "(u32 \<Rightarrow> string option) \<Rightarrow> id_cache \<Rightarrow> u32 \<Rightarrow> string \<times> id_cache" where
  "cached_name db cache i =
     (if i \<noteq> fst cache
      then (let nm = (case db i of None \<Rightarrow> [] | Some s \<Rightarrow> take 31 s) in (nm, (i, nm)))
      else (snd cache, cache))"

section \<open>The pax header\<close>

definition samTimeToPaxTime :: "i64 \<Rightarrow> pax_time" where
  "samTimeToPaxTime t = \<lparr>sec = t, nsec = 0\<rparr>"

text \<open>Set functions in sequence, with the sum of their statuses.\<close>

definition set_next_field :: "(pax_hdr \<Rightarrow> px_status \<times> pax_hdr) \<Rightarrow> px_status \<times> pax_hdr \<Rightarrow> px_status \<times> pax_hdr" where
  "set_next_field f r = (case r of (status, hdr) \<Rightarrow> (case f hdr of (st, hdr') \<Rightarrow> (status + st, hdr')))"

definition createDefaultHeader :: "i64 \<Rightarrow> pax_hdr option" where
  "createDefaultHeader now =
     (case fold set_next_field
        [\<lambda>h. ph_set_uname h ''root'', \<lambda>h. ph_set_gname h ''root'', \<lambda>h. ph_set_uid h 0,
         \<lambda>h. ph_set_gid h 0, \<lambda>h. ph_set_mtime h \<lparr>sec = now, nsec = 0\<rparr>, \<lambda>h. ph_set_type h (CHR ''0'')]
        (PX_SUCCESS, ph_create_hdr)
      of (status, hdr) \<Rightarrow> if status \<noteq> 0 then None else Some hdr)"

definition put_ctime :: "pax_time \<Rightarrow> pax_hdr \<Rightarrow> px_status \<times> pax_hdr" where
  "put_ctime t hdr =
     (case pxh_put_pair (xhdr_list hdr) (pxp_mkpair_time ''SAM.ctime'' t) False of
        (st, ps) \<Rightarrow> (st, hdr\<lparr>xhdr_list := ps\<rparr>))"

text \<open>
  The values of a header. \<open>link\<close> is the target that \<open>readlink\<close> returns, empty when it fails.
\<close>

definition pax_fields :: "string \<Rightarrow> sam_stat \<Rightarrow> string \<Rightarrow> string \<Rightarrow> string \<Rightarrow>
    (pax_hdr \<Rightarrow> px_status \<times> pax_hdr) list" where
  "pax_fields name st uname gname link =
     [\<lambda>h. ph_set_name h (dropWhile (\<lambda>c. c = CHR ''/'') name),
      \<lambda>h. ph_set_mode h (st_mode st AND 0xfff),
      \<lambda>h. ph_set_uid h (st_uid st), \<lambda>h. ph_set_gid h (st_gid st),
      \<lambda>h. ph_set_uname h uname, \<lambda>h. ph_set_gname h gname,
      \<lambda>h. ph_set_size h (st_size st),
      \<lambda>h. ph_set_mtime h (samTimeToPaxTime (st_mtime st)),
      \<lambda>h. ph_set_atime h (samTimeToPaxTime (st_atime st)),
      put_ctime (samTimeToPaxTime (st_ctime st))] @
     (if S_ISLNK (st_mode st)
      then [\<lambda>h. ph_set_linkname h link, \<lambda>h. ph_set_type h (CHR ''2'')]
      else if S_ISDIR (st_mode st) then [\<lambda>h. ph_set_type h (CHR ''5'')]
      else [\<lambda>h. ph_set_type h (CHR ''0'')])"

text \<open>The static state of the module: the default header, the caches, the state of the callback.\<close>

record header_state =
  DefaultHeader :: "pax_hdr option"
  unames :: id_cache
  gnames :: id_cache
  names :: name_state

text \<open>
  \<open>clk\<close> is the clock of the callback, \<open>now\<close> the time for the default header; \<open>tmp\<close> is the memory
  of the temporary buffer that is used when the header does not fit before the end of the
  circular buffer, and \<open>junk\<close> the uninitialised variables of \<open>pxh_write_xheader\<close>.
\<close>

definition place_header :: "arcopy \<Rightarrow> string \<Rightarrow> nat \<Rightarrow> (string \<Rightarrow> (px_status \<times> string \<times> 'r) option) \<Rightarrow>
    (arcopy \<times> 'r) option" where
  "place_header ar tmp header_size write =
     (let wraps = bufSize ar < bufIn ar + header_size;
          mem = (if wraps then tmp else drop (bufIn ar) (bufFirst ar))
      in case write mem of
           None \<Rightarrow> None
         | Some (status, m, r) \<Rightarrow>
             if \<not> PXSUCCESS status then None
             else Some (AdvanceIn
               (if wraps then copy_in ar (take header_size m)
                else ar\<lparr>bufFirst := take (bufIn ar) (bufFirst ar) @ m\<rparr>) header_size, r))"

definition buildPaxHeader ::
  "(nat \<Rightarrow> i64) \<Rightarrow> i64 \<Rightarrow> (u32 \<Rightarrow> string option) \<Rightarrow> (u32 \<Rightarrow> string option) \<Rightarrow> string \<Rightarrow> string \<times> nat \<Rightarrow>
   string \<Rightarrow> string \<Rightarrow> sam_stat \<Rightarrow> header_state \<Rightarrow> arcopy \<Rightarrow> (header_state \<times> arcopy) option" where
  "buildPaxHeader clk now pw gr tmp junk name link st hs ar =
     (case cached_name pw (unames hs) (st_uid st) of (un, uc) \<Rightarrow>
      case cached_name gr (gnames hs) (st_gid st) of (gn, gc) \<Rightarrow>
      case fold set_next_field (pax_fields name st un gn link) (PX_SUCCESS, ph_create_hdr) of (status, hdr) \<Rightarrow>
        if status \<noteq> 0 then None
        else
          (let dflt = (if ph_has_ext_hdr (Some hdr) \<noteq> 0 \<and> DefaultHeader hs = None
                       then createDefaultHeader now else DefaultHeader hs)
           in if ph_has_ext_hdr (Some hdr) \<noteq> 0 \<and> dflt = None then None
              else (case ph_get_header_size hdr of (st1, sz, _, _) \<Rightarrow>
                if \<not> PXSUCCESS st1 then None
                else (case sz of None \<Rightarrow> None | Some header_size \<Rightarrow>
                  (case place_header ar tmp header_size
                      (\<lambda>mem. map_option (\<lambda>(st2, m, _, _, ns'). (st2, m, ns'))
                        (ph_write_header (ph_basic_name_callback clk) (names hs) junk hdr mem header_size
                          False dflt)) of
                     None \<Rightarrow> None
                   | Some (ar', ns') \<Rightarrow>
                       Some (hs\<lparr>DefaultHeader := dflt, unames := uc, gnames := gc, names := ns'\<rparr>, ar'))))))"

section \<open>Sequences of set functions: lemmas\<close>

text \<open>
  A step of the sequence: a set function, the member and the keyword it touches, and the
  number of bytes it adds to the lines of the extended header at most.
\<close>

type_synonym field_step = "(pax_hdr \<Rightarrow> px_status \<times> pax_hdr) \<times> ustar_field option \<times> string option \<times> nat"

definition builds :: "(pax_hdr \<Rightarrow> px_status \<times> pax_hdr) \<Rightarrow> nat \<Rightarrow> bool" where
  "builds g c \<longleftrightarrow> (\<forall>N h. building N h \<longrightarrow> building (N + c) (snd (g h)))"

fun step_ok :: "field_step \<Rightarrow> bool" where
  "step_ok (g, f, k, c) = (touches g f k \<and> builds g c)"

definition run_steps :: "field_step list \<Rightarrow> pax_hdr \<Rightarrow> pax_hdr" where
  "run_steps xs h = fold (\<lambda>(g, _) h. snd (g h)) xs h"

definition cost :: "field_step list \<Rightarrow> nat" where
  "cost xs = sum_list (map (\<lambda>(g, f, k, c). c) xs)"

lemma run_steps_simps [simp]:
  "run_steps [] h = h" "run_steps ((g, r) # xs) h = run_steps xs (snd (g h))"
  "run_steps (xs @ ys) h = run_steps ys (run_steps xs h)"
  by (simp_all add: run_steps_def)

lemma run_steps_fold:
  assumes "list_all step_ok xs" "wf_hdr h"
  shows "fold set_next_field (map fst xs) (PX_SUCCESS, h) = (PX_SUCCESS, run_steps xs h) \<and>
    wf_hdr (run_steps xs h)"
  using assms
proof (induction xs arbitrary: h)
  case (Cons x xs)
  obtain g f k c where x: "x = (g, f, k, c)"
    by (cases x)
  obtain st h' where g: "g h = (st, h')"
    by fastforce
  have "st = PX_SUCCESS" "wf_hdr h'"
    using touchesD [of g f k h st h'] Cons.prems x g by simp_all
  then show ?case
    using Cons g x by (simp add: set_next_field_def)
qed simp

lemma run_steps_building:
  "list_all step_ok xs \<Longrightarrow> building N h \<Longrightarrow> building (N + cost xs) (run_steps xs h)"
proof (induction xs arbitrary: N h)
  case (Cons x xs)
  obtain g f k c where x: "x = (g, f, k, c)"
    by (cases x)
  then have "building (N + c) (snd (g h))"
    using Cons.prems by (simp add: builds_def)
  then show ?case
    using Cons.IH [of "N + c" "snd (g h)"] Cons.prems(1) x by (simp add: cost_def add.assoc)
qed (simp add: cost_def)

text \<open>Steps apart from a member and a keyword.\<close>

definition apart_from :: "ustar_field option \<Rightarrow> string option \<Rightarrow> field_step list \<Rightarrow> bool" where
  "apart_from f k xs \<longleftrightarrow>
     list_all (\<lambda>(g, f', k', c). (f = None \<or> f \<noteq> f') \<and> (k = None \<or> k \<noteq> k')) xs"

lemma run_steps_pair:
  assumes "list_all step_ok xs" "wf_hdr h" "apart_from None (Some kw) xs"
  shows "first_pair (Some kw) (run_steps xs h) = first_pair (Some kw) h"
  using assms
proof (induction xs arbitrary: h)
  case (Cons x xs)
  obtain g f k c where x: "x = (g, f, k, c)"
    by (cases x)
  obtain st h' where g: "g h = (st, h')"
    by fastforce
  have t: "touches g f k"
    using Cons.prems x by simp
  have "wf_hdr h'" "first_pair (Some kw) h' = first_pair (Some kw) h"
    using touchesD(2) [OF t Cons.prems(2) g] touchesD(4) [OF t Cons.prems(2) g, of kw] Cons.prems(3) x
    by (auto simp: apart_from_def)
  then show ?case
    using Cons g x by (simp add: apart_from_def)
qed simp

lemma run_steps_member:
  assumes "list_all step_ok xs" "wf_hdr h" "apart_from (Some m) None xs"
  shows "fld (hdr_blk (run_steps xs h)) m = fld (hdr_blk h) m"
  using assms
proof (induction xs arbitrary: h)
  case (Cons x xs)
  obtain g f k c where x: "x = (g, f, k, c)"
    by (cases x)
  obtain st h' where g: "g h = (st, h')"
    by fastforce
  have t: "touches g f k"
    using Cons.prems x by simp
  have "wf_hdr h'" "fld (hdr_blk h') m = fld (hdr_blk h) m"
    using touchesD(2) [OF t Cons.prems(2) g] touchesD(3) [OF t Cons.prems(2) g, of m] Cons.prems(3) x
    by (auto simp: apart_from_def)
  then show ?case
    using Cons g x by (simp add: apart_from_def)
qed simp

context hdr_value
begin

lemma holds_steps:
  assumes "holds h v" "list_all step_ok xs" "apart_from f k xs"
  shows "holds (run_steps xs h) v"
  using assms
proof (induction xs arbitrary: h)
  case (Cons x xs)
  obtain g f' k' c where x: "x = (g, f', k', c)"
    by (cases x)
  obtain st h' where g: "g h = (st, h')"
    by fastforce
  have "holds h' v"
    using kept_by [of h v g f' k' st h'] Cons.prems x g by (simp add: apart_from_def)
  then show ?case
    using Cons g x by (simp add: apart_from_def)
qed simp

lemma holds_after:
  assumes "list_all step_ok xs" "list_all step_ok ys" "wf_hdr h" "ok v" "apart_from f k ys"
  shows "holds (run_steps (xs @ (\<lambda>h. put h v, r) # ys) h) v"
proof -
  have "wf_hdr (run_steps xs h)"
    using run_steps_fold [OF assms(1,3)] by simp
  then have "holds (snd (put (run_steps xs h) v)) v"
    using put_holds [OF _ assms(4)] by force
  then show ?thesis
    using holds_steps [OF _ assms(2,5)] by simp
qed

lemma holds_nth:
  assumes "list_all step_ok xs" "wf_hdr h" "ok v" "i < length xs" "xs ! i = (\<lambda>h. put h v, r)"
    "apart_from f k (drop (Suc i) xs)"
  shows "holds (run_steps xs h) v"
proof -
  have "xs = take i xs @ (\<lambda>h. put h v, r) # drop (Suc i) xs"
    using id_take_nth_drop [OF assms(4)] assms(5) by simp
  moreover have "list_all step_ok (take i xs)" "list_all step_ok (drop (Suc i) xs)"
    using assms(1) by (auto simp: list_all_iff dest: in_set_takeD in_set_dropD)
  ultimately show ?thesis
    using holds_after [OF _ _ assms(2,3,6), of "take i xs" r] by simp
qed

end

section \<open>The header of a file: lemmas\<close>

lemma builds_string:
  assumes "plain_key k" "0 < f_len f" "f \<noteq> F_magic" "f \<noteq> F_version" "nul_free s" "length s < 2 ^ 29"
  shows "builds (\<lambda>h. ph_set_string_fn f (Some k) h s) (length s + 43)"
  using building_set_string [OF _ assms] by (simp add: builds_def)

lemma builds_unsigned:
  assumes "plain_key k" "2 \<le> f_len f" "f \<noteq> F_magic" "f \<noteq> F_version"
  shows "builds (\<lambda>h. ph_set_unsigned_fn f (Some k) h v) 63"
  using building_set_unsigned [OF _ assms] by (simp add: builds_def)

lemma plain_keys [simp]:
  "plain_key ''path''" "plain_key ''linkpath''" "plain_key ''uname''" "plain_key ''gname''"
  "plain_key ''uid''" "plain_key ''gid''" "plain_key ''size''" "plain_key ''SAM.ctime''"
  by (simp_all add: plain_key_def nul_free_def)

lemma mode_fits: "num_fits F_mode (ucast (m AND 0xfff :: u32))"
proof -
  have "m AND 0xfff = take_bit 12 m"
    by (simp add: take_bit_eq_mask mask_eq_exp_minus_1)
  then have "unat (m AND 0xfff) = unat m mod 2 ^ 12"
    using unat_take_bit [of 12 m] by (simp only:)
  moreover have "unat m mod 2 ^ 12 < 8 ^ 7"
    using mod_less_divisor [of "2 ^ 12" "unat m"] by simp
  ultimately show ?thesis
    by (simp add: num_fits_def unsigned_ucast_eq take_bit_nat_eq_self)
qed

lemma set_mode_eq:
  assumes "wf_hdr h"
  shows "ph_set_mode h (m AND 0xfff) =
    (PX_SUCCESS, h\<lparr>hdr_blk := set_fld (hdr_blk h) F_mode (num_text F_mode (ucast (m AND 0xfff)))\<rparr>)"
  using ph_set_unsigned_fn_eq(2) [OF assms, of F_mode "ucast (m AND 0xfff)"] mode_fits [of m]
  by (simp add: ph_set_mode_def ph_set_undef_signed_fn_def)

lemma step_mode: "step_ok (\<lambda>h. ph_set_mode h (m AND 0xfff), Some F_mode, None, 0)"
proof -
  let ?t = "num_text F_mode (ucast (m AND 0xfff))"
  have len: "length ?t = f_len F_mode"
    by (rule length_num_text [OF _ mode_fits]) simp
  have "touches (\<lambda>h. ph_set_mode h (m AND 0xfff)) (Some F_mode) None"
    using len by (auto simp: touches_def set_mode_eq first_pair_def wf_hdr_def)
  moreover have "builds (\<lambda>h. ph_set_mode h (m AND 0xfff)) 0"
    using building_blk [OF _ len] by (simp add: builds_def set_mode_eq)
  ultimately show ?thesis
    by simp
qed

lemma step_type: "step_ok (\<lambda>h. ph_set_type h c, Some F_type, None, 0)"
  using building_set_type(1) by (auto simp: touches_def builds_def ph_set_type_def first_pair_def wf_hdr_def)

lemma put_ctime_eq: "put_ctime t h = (PX_SUCCESS, h\<lparr>xhdr_list := pxp_mkpair_time ''SAM.ctime'' t # xhdr_list h\<rparr>)"
  by (simp add: put_ctime_def pxh_put_pair_def)

lemma step_ctime:
  assumes "nsec t = 0"
  shows "step_ok (put_ctime t, None, Some ''SAM.ctime'', 63)"
  using building_put_time [OF _ _ assms, of _ _ "''SAM.ctime''"]
  by (auto simp: touches_def builds_def put_ctime_eq first_pair_def wf_hdr_def pxp_mkpair_time_def pxp_mkpair_def)

lemma step_values:
  shows "step_ok (\<lambda>h. ph_set_uid h i, Some F_uid, Some ''uid'', 63)"
    and "step_ok (\<lambda>h. ph_set_gid h i, Some F_gid, Some ''gid'', 63)"
    and "step_ok (\<lambda>h. ph_set_size h v, Some F_size, Some ''size'', 63)"
    and "nsec t = 0 \<Longrightarrow> step_ok (\<lambda>h. ph_set_mtime h t, Some F_mtime, Some ''mtime'', 63)"
    and "nsec t = 0 \<Longrightarrow> step_ok (\<lambda>h. ph_set_atime h t, None, Some ''atime'', 63)"
proof -
  show "step_ok (\<lambda>h. ph_set_uid h i, Some F_uid, Some ''uid'', 63)"
    using builds_unsigned [of "''uid''" F_uid "ucast i"] uid_v.put_touches [of i]
    by (simp add: ph_set_uid_def ph_set_undef_signed_fn_def)
  show "step_ok (\<lambda>h. ph_set_gid h i, Some F_gid, Some ''gid'', 63)"
    using builds_unsigned [of "''gid''" F_gid "ucast i"] gid_v.put_touches [of i]
    by (simp add: ph_set_gid_def ph_set_undef_signed_fn_def)
  show "step_ok (\<lambda>h. ph_set_size h v, Some F_size, Some ''size'', 63)"
    using builds_unsigned [of "''size''" F_size v] size_v.put_touches [of v] by (simp add: ph_set_size_def)
  show "step_ok (\<lambda>h. ph_set_mtime h t, Some F_mtime, Some ''mtime'', 63)" if "nsec t = 0"
    using building_set_mtime [OF _ that] mtime_v.put_touches [of t] by (simp add: builds_def)
  show "step_ok (\<lambda>h. ph_set_atime h t, None, Some ''atime'', 63)" if "nsec t = 0"
    using building_set_atime [OF _ that] atime_v.put_touches [of t] by (simp add: builds_def)
qed

lemma step_string:
  assumes k: "plain_key k" and f: "0 < f_len f" "f \<noteq> F_magic" "f \<noteq> F_version"
    and s: "nul_free s" "length s < 2 ^ 29"
  shows "step_ok (\<lambda>h. ph_set_string_fn f (Some k) h s, Some f, Some k, length s + 43)"
proof -
  have kw: "keyword (pxp_mkpair_string k v) = k" for v
    by (simp add: pxp_mkpair_string_def pxp_mkpair_def)
  have "touches (\<lambda>h. ph_set_string_fn f (Some k) h s) (Some f) (Some k)"
    using ph_set_string_fn_eq [OF _ s(1) f(1)] by (auto simp: touches_def wf_hdr_def first_pair_def kw)
  then show ?thesis
    using builds_string [OF k f s] by simp
qed

text \<open>The fields of a file as steps.\<close>

definition base_steps :: "string \<Rightarrow> sam_stat \<Rightarrow> string \<Rightarrow> string \<Rightarrow> field_step list" where
  "base_steps name st un gn =
     [(\<lambda>h. ph_set_name h name, Some F_name, Some ''path'', length name + 43),
      (\<lambda>h. ph_set_mode h (st_mode st AND 0xfff), Some F_mode, None, 0),
      (\<lambda>h. ph_set_uid h (st_uid st), Some F_uid, Some ''uid'', 63),
      (\<lambda>h. ph_set_gid h (st_gid st), Some F_gid, Some ''gid'', 63),
      (\<lambda>h. ph_set_uname h un, Some F_uname, Some ''uname'', length un + 43),
      (\<lambda>h. ph_set_gname h gn, Some F_gname, Some ''gname'', length gn + 43),
      (\<lambda>h. ph_set_size h (st_size st), Some F_size, Some ''size'', 63),
      (\<lambda>h. ph_set_mtime h (samTimeToPaxTime (st_mtime st)), Some F_mtime, Some ''mtime'', 63),
      (\<lambda>h. ph_set_atime h (samTimeToPaxTime (st_atime st)), None, Some ''atime'', 63),
      (put_ctime (samTimeToPaxTime (st_ctime st)), None, Some ''SAM.ctime'', 63)]"

definition link_steps :: "u32 \<Rightarrow> string \<Rightarrow> field_step list" where
  "link_steps mode link =
     (if S_ISLNK mode then [(\<lambda>h. ph_set_linkname h link, Some F_linkname, Some ''linkpath'', length link + 43)]
      else [])"

definition type_of_mode :: "u32 \<Rightarrow> char" where
  "type_of_mode mode = (if S_ISLNK mode then CHR ''2'' else if S_ISDIR mode then CHR ''5'' else CHR ''0'')"

definition all_steps :: "string \<Rightarrow> sam_stat \<Rightarrow> string \<Rightarrow> string \<Rightarrow> string \<Rightarrow> field_step list" where
  "all_steps name st un gn link =
     base_steps name st un gn @ link_steps (st_mode st) link @
     [(\<lambda>h. ph_set_type h (type_of_mode (st_mode st)), Some F_type, None, 0)]"

lemma pax_fields_steps:
  "pax_fields name st un gn link = map fst (all_steps (dropWhile (\<lambda>c. c = CHR ''/'') name) st un gn link)"
  by (simp add: pax_fields_def all_steps_def base_steps_def link_steps_def type_of_mode_def)

text \<open>Names a C string can hold, short enough for the lengths of the records.\<close>

definition c_name :: "string \<Rightarrow> bool" where
  "c_name s \<longleftrightarrow> nul_free s \<and> length s < 2 ^ 29"

lemma all_steps_ok:
  assumes "c_name name" "c_name un" "c_name gn" "c_name link"
  shows "list_all step_ok (all_steps name st un gn link)"
proof -
  have "step_ok (\<lambda>h. ph_set_name h name, Some F_name, Some ''path'', length name + 43)"
    "step_ok (\<lambda>h. ph_set_uname h un, Some F_uname, Some ''uname'', length un + 43)"
    "step_ok (\<lambda>h. ph_set_gname h gn, Some F_gname, Some ''gname'', length gn + 43)"
    "step_ok (\<lambda>h. ph_set_linkname h link, Some F_linkname, Some ''linkpath'', length link + 43)"
    using assms step_string [of "''path''" F_name name] step_string [of "''uname''" F_uname un]
      step_string [of "''gname''" F_gname gn] step_string [of "''linkpath''" F_linkname link]
    by (simp_all only: c_name_def ph_set_name_def ph_set_uname_def ph_set_gname_def ph_set_linkname_def)
      simp_all
  then show ?thesis
    using step_mode step_values step_type step_ctime
    by (simp add: all_steps_def base_steps_def link_steps_def samTimeToPaxTime_def del: step_ok.simps)
qed

text \<open>The default header.\<close>

definition default_steps :: "i64 \<Rightarrow> field_step list" where
  "default_steps now =
     [(\<lambda>h. ph_set_uname h ''root'', Some F_uname, Some ''uname'', 47),
      (\<lambda>h. ph_set_gname h ''root'', Some F_gname, Some ''gname'', 47),
      (\<lambda>h. ph_set_uid h 0, Some F_uid, Some ''uid'', 63), (\<lambda>h. ph_set_gid h 0, Some F_gid, Some ''gid'', 63),
      (\<lambda>h. ph_set_mtime h \<lparr>sec = now, nsec = 0\<rparr>, Some F_mtime, Some ''mtime'', 63),
      (\<lambda>h. ph_set_type h (CHR ''0''), Some F_type, None, 0)]"

lemma default_steps_ok: "list_all step_ok (default_steps now)"
proof -
  have "step_ok (\<lambda>h. ph_set_uname h ''root'', Some F_uname, Some ''uname'', 47)"
    "step_ok (\<lambda>h. ph_set_gname h ''root'', Some F_gname, Some ''gname'', 47)"
    using step_string [of "''uname''" F_uname "''root''"] step_string [of "''gname''" F_gname "''root''"]
    by (simp_all add: ph_set_uname_def ph_set_gname_def nul_free_def)
  then show ?thesis
    using step_values step_type by (simp add: default_steps_def del: step_ok.simps)
qed

lemma no_pairs:
  assumes "wf_hdr h" "xhdr_list h = []"
  shows "nul_free s \<Longrightarrow> length s \<le> f_len f \<Longrightarrow> 0 < f_len f \<Longrightarrow>
      xhdr_list (snd (ph_set_string_fn f (Some k) h s)) = []"
    and "2 \<le> f_len f \<Longrightarrow> num_fits f v \<Longrightarrow> xhdr_list (snd (ph_set_unsigned_fn f (Some k) h v)) = []"
    and "nsec t = 0 \<Longrightarrow> num_fits F_mtime (sec t) \<Longrightarrow> xhdr_list (snd (ph_set_mtime h t)) = []"
    and "xhdr_list (snd (ph_set_type h c)) = []"
  using assms ph_set_string_fn_eq [OF assms(1), of s f k] ph_set_unsigned_fn_eq(1) [OF assms(1), of f k v]
    ph_set_mtime_eq [OF assms(1), of t]
  by (simp_all add: ph_set_type_def)

definition adds_none :: "(pax_hdr \<Rightarrow> px_status \<times> pax_hdr) \<Rightarrow> bool" where
  "adds_none g \<longleftrightarrow> (\<forall>h. wf_hdr h \<longrightarrow> xhdr_list h = [] \<longrightarrow> xhdr_list (snd (g h)) = [])"

lemma run_steps_none:
  assumes "list_all step_ok xs" "list_all (\<lambda>(g, _). adds_none g) xs" "wf_hdr h" "xhdr_list h = []"
  shows "xhdr_list (run_steps xs h) = []"
  using assms
proof (induction xs arbitrary: h)
  case (Cons x xs)
  obtain g f k c where x: "x = (g, f, k, c)"
    by (cases x)
  have "wf_hdr (snd (g h))" "xhdr_list (snd (g h)) = []"
    using touchesD(2) [of g f k h] Cons.prems x by (auto simp: adds_none_def prod_eq_iff)
  then show ?case
    using Cons x by simp
qed simp

lemma createDefaultHeader_ok:
  assumes "num_fits F_mtime now"
  shows "\<exists>d. createDefaultHeader now = Some d \<and> wf_hdr d \<and> xhdr_list d = [] \<and>
    hd (fld (hdr_blk d) F_linkname) = NUL"
proof -
  let ?d = "run_steps (default_steps now) ph_create_hdr"
  have wf: "wf_hdr ph_create_hdr" "xhdr_list ph_create_hdr = []"
    by (simp_all add: ph_create_hdr_def wf_hdr_def)
  have "fold set_next_field (map fst (default_steps now)) (PX_SUCCESS, ph_create_hdr) = (PX_SUCCESS, ?d)" "wf_hdr ?d"
    using run_steps_fold [OF default_steps_ok wf(1)] by simp_all
  moreover have "fld (hdr_blk ?d) F_linkname = fld (hdr_blk ph_create_hdr) F_linkname"
    using run_steps_member [OF default_steps_ok wf(1), of F_linkname]
    by (simp add: apart_from_def default_steps_def)
  moreover have "hd (fld (hdr_blk ph_create_hdr) F_linkname) = NUL"
    by (simp add: ph_create_hdr_def) (simp add: fld_def from_fld_def)
  moreover have "list_all (\<lambda>(g, _). adds_none g) (default_steps now)"
    using no_pairs assms
    by (simp add: adds_none_def default_steps_def ph_set_uname_def ph_set_gname_def ph_set_uid_def ph_set_gid_def
        ph_set_undef_signed_fn_def num_fits_def nul_free_def)
  then have "xhdr_list ?d = []"
    using run_steps_none [OF default_steps_ok] wf by blast
  ultimately show ?thesis
    by (simp add: createDefaultHeader_def default_steps_def)
qed

text \<open>The header of a file before it is written.\<close>

definition file_hdr :: "string \<Rightarrow> sam_stat \<Rightarrow> string \<Rightarrow> string \<Rightarrow> string \<Rightarrow> pax_hdr" where
  "file_hdr name st un gn link = run_steps (all_steps name st un gn link) ph_create_hdr"

lemma file_hdr_building:
  assumes "c_name name" "c_name un" "c_name gn" "c_name link"
  shows "\<exists>N. building N (file_hdr name st un gn link) \<and> N < 8 ^ 11"
    and "fld_type (hdr_blk (file_hdr name st un gn link)) = type_of_mode (st_mode st)"
    and "xhdr_list (file_hdr name st un gn link) \<noteq> []"
proof -
  let ?S = "all_steps name st un gn link"
  note ok = all_steps_ok [OF assms, of st]
  have "building (0 + cost ?S) (file_hdr name st un gn link)"
    unfolding file_hdr_def by (rule run_steps_building [OF ok building_create])
  moreover have "cost ?S < 8 ^ 11"
    using assms by (simp add: cost_def all_steps_def base_steps_def link_steps_def c_name_def)
  ultimately show "\<exists>N. building N (file_hdr name st un gn link) \<and> N < 8 ^ 11"
    by auto
  have wf: "wf_hdr ph_create_hdr"
    by (simp add: ph_create_hdr_def wf_hdr_def)
  let ?T = "base_steps name st un gn @ link_steps (st_mode st) link"
  have T: "list_all step_ok ?T" "building (0 + cost ?T) (run_steps ?T ph_create_hdr)"
    using ok run_steps_building [OF _ building_create, of ?T] by (simp_all add: all_steps_def)
  then show "fld_type (hdr_blk (file_hdr name st un gn link)) = type_of_mode (st_mode st)"
    using building_set_type(2) [OF T(2)] by (simp add: file_hdr_def all_steps_def)
  have "first_pair (Some ''SAM.ctime'') (file_hdr name st un gn link) \<noteq> None"
  proof -
    let ?U = "link_steps (st_mode st) link @ [(\<lambda>h. ph_set_type h (type_of_mode (st_mode st)), Some F_type, None, 0)]"
    let ?h = "run_steps (base_steps name st un gn) ph_create_hdr"
    have "list_all step_ok ?U" "list_all step_ok (base_steps name st un gn)"
      using ok by (simp_all add: all_steps_def)
    then have "first_pair (Some ''SAM.ctime'') (run_steps ?U ?h) = first_pair (Some ''SAM.ctime'') ?h"
      using run_steps_fold [OF _ wf] by (intro run_steps_pair) (auto simp: apart_from_def link_steps_def)
    moreover have "first_pair (Some ''SAM.ctime'') ?h \<noteq> None"
      by (simp add: base_steps_def put_ctime_eq first_pair_def pxp_mkpair_time_def pxp_mkpair_def)
    ultimately show ?thesis
      by (simp add: file_hdr_def all_steps_def)
  qed
  then show "xhdr_list (file_hdr name st un gn link) \<noteq> []"
    by (auto simp: first_pair_def)
qed

text \<open>Only the names make a header long.\<close>

lemma file_hdr_size:
  assumes "c_name name" "c_name un" "c_name gn" "c_name link"
  shows "padded (file_hdr name st un gn link) < length name + length un + length gn + length link + 1200"
proof -
  let ?S = "all_steps name st un gn link"
  have "building (0 + cost ?S) (file_hdr name st un gn link)"
    unfolding file_hdr_def by (rule run_steps_building [OF all_steps_ok [OF assms] building_create])
  moreover have "cost ?S \<le> length name + length un + length gn + length link + 600"
    by (simp add: cost_def all_steps_def base_steps_def link_steps_def)
  ultimately show ?thesis
    using round_to_block_bounds [of 512 "lines_size (xhdr_list (file_hdr name st un gn link))"] assms
    by (simp add: building_def padded_def c_name_def)
qed

lemma file_hdr_values:
  assumes "c_name name" "c_name un" "c_name gn" "c_name link"
  shows "string_ok F_name name \<Longrightarrow> name_v.holds (file_hdr name st un gn link) name"
    and "uid_v.holds (file_hdr name st un gn link) (st_uid st)"
    and "gid_v.holds (file_hdr name st un gn link) (st_gid st)"
    and "size_v.holds (file_hdr name st un gn link) (st_size st)"
    and "mtime_v.holds (file_hdr name st un gn link) (samTimeToPaxTime (st_mtime st))"
    and "atime_v.holds (file_hdr name st un gn link) (samTimeToPaxTime (st_atime st))"
proof -
  note ok = all_steps_ok [OF assms, of st]
  have wf: "wf_hdr ph_create_hdr"
    by (simp add: ph_create_hdr_def wf_hdr_def)
  note d = all_steps_def base_steps_def link_steps_def apart_from_def
  show "name_v.holds (file_hdr name st un gn link) name" if "string_ok F_name name"
    unfolding file_hdr_def by (rule name_v.holds_nth [OF ok wf that, of 0]) (simp_all add: d)
  show "uid_v.holds (file_hdr name st un gn link) (st_uid st)"
    unfolding file_hdr_def by (rule uid_v.holds_nth [OF ok wf, where i = 2]) (simp_all add: d)
  show "gid_v.holds (file_hdr name st un gn link) (st_gid st)"
    unfolding file_hdr_def by (rule gid_v.holds_nth [OF ok wf, where i = 3]) (simp_all add: d)
  show "size_v.holds (file_hdr name st un gn link) (st_size st)"
    unfolding file_hdr_def by (rule size_v.holds_nth [OF ok wf, where i = 6]) (simp_all add: d)
  show "mtime_v.holds (file_hdr name st un gn link) (samTimeToPaxTime (st_mtime st))"
    unfolding file_hdr_def by (rule mtime_v.holds_nth [OF ok wf, where i = 7]) (simp_all add: d)
  show "atime_v.holds (file_hdr name st un gn link) (samTimeToPaxTime (st_atime st))"
    unfolding file_hdr_def by (rule atime_v.holds_nth [OF ok wf, where i = 8]) (simp_all add: d)
qed

lemma place_header_ok:
  assumes ok: "ring_ok ar" and room: "used ar + n < bufSize ar" and tmp: "n \<le> length tmp"
    and W: "\<And>mem. n \<le> length mem \<Longrightarrow> write mem = Some (status, B @ drop n mem, r)"
    and B: "length B = n"
  shows "place_header ar tmp n write =
      (if PXSUCCESS status then Some (put_piece ar B, r) else None)"
proof (cases "bufSize ar < bufIn ar + n")
  case True
  then show ?thesis
    using W [OF tmp] B by (simp add: place_header_def put_piece_def Let_def)
next
  case False
  have l: "length (bufFirst ar) = bufSize ar" "bufIn ar < bufSize ar"
    using ok by (simp_all add: ring_ok_def)
  then have mem: "n \<le> length (drop (bufIn ar) (bufFirst ar))"
    using False by simp
  have "copy_in ar B = ar\<lparr>bufFirst := take (bufIn ar) (bufFirst ar) @ B @ drop n (drop (bufIn ar) (bufFirst ar))\<rparr>"
    using False B l by (simp add: copy_in_def overwrite_def Let_def add.commute)
  then show ?thesis
    using W [OF mem] B False by (simp add: place_header_def put_piece_def Let_def)
qed

text \<open>What the parameters have to be: C strings, and a usable default header.\<close>

definition names_ok :: "(u32 \<Rightarrow> string option) \<Rightarrow> id_cache \<Rightarrow> bool" where
  "names_ok db cache \<longleftrightarrow> (\<forall>i s. db i = Some s \<longrightarrow> nul_free s) \<and> nul_free (snd cache) \<and> length (snd cache) \<le> 31"

definition default_ok :: "i64 \<Rightarrow> header_state \<Rightarrow> bool" where
  "default_ok now hs \<longleftrightarrow>
     (case DefaultHeader hs of
        None \<Rightarrow> num_fits F_mtime now
      | Some d \<Rightarrow> wf_hdr d \<and> xhdr_list d = [] \<and> hd (fld (hdr_blk d) F_linkname) = NUL)"

lemma nul_free_take: "nul_free s \<Longrightarrow> nul_free (take n s)"
  using in_set_takeD [of NUL n s] by (auto simp: nul_free_def)

lemma cached_name_ok:
  assumes "names_ok db cache" "cached_name db cache i = (nm, cache')"
  shows "c_name nm" "names_ok db cache'"
  using assms
  by (auto simp: names_ok_def cached_name_def c_name_def nul_free_take Let_def nul_free_def [of "[]"]
      split: if_splits option.splits)

lemma default_header:
  assumes "default_ok now hs"
  obtains d where "(if DefaultHeader hs = None then createDefaultHeader now else DefaultHeader hs) = Some d"
    "wf_hdr d" "xhdr_list d = []" "hd (fld (hdr_blk d) F_linkname) = NUL"
  using assms createDefaultHeader_ok [of now] by (cases "DefaultHeader hs") (auto simp: default_ok_def)

lemma file_hdr_writable:
  assumes "c_name name" "c_name un" "c_name gn" "c_name link" "wf_hdr d" "xhdr_list d = []"
  shows "writable (file_hdr name st un gn link) d"
proof -
  obtain N where N: "building N (file_hdr name st un gn link)" "N < 8 ^ 11"
    using file_hdr_building(1) [OF assms(1-4)] by blast
  have "std_type (type_of_mode m)" for m
    by (simp add: type_of_mode_def std_type_def)
  then show ?thesis
    using N file_hdr_building(2,3) [OF assms(1-4), of st] assms(5,6) by (simp add: writable_def building_def)
qed

text \<open>
  The bytes of a header: recognised by the first record and loaded whatever follows them, into a
  header with the values of the file.
\<close>

definition pax_bytes :: "pax_hdr \<Rightarrow> pax_hdr \<Rightarrow> string \<Rightarrow> string \<Rightarrow> bool" where
  "pax_bytes h d nm B \<longleftrightarrow> length B = padded h + 1024 \<and>
     (\<exists>l. reloaded h d l \<and> name_v.holds l nm \<and>
       (\<forall>en r. ph_is_pax_hdr en (take 512 B @ r) = (PX_SUCCESS_EXT_HEADER, padded h + 512) \<and>
         ph_load_pax_hdr en ph_create_hdr (B @ r) (padded h + 1024) = (PX_SUCCESS, l)))"

lemma buildPaxHeader_puts:
  assumes nm: "nm = dropWhile (\<lambda>c. c = CHR ''/'') name" "c_name nm" "string_ok F_name nm" "c_name link"
    and db: "names_ok pw (unames hs)" "names_ok gr (gnames hs)" and df: "default_ok now hs"
    and un: "un = fst (cached_name pw (unames hs) (st_uid st))"
    and gn: "gn = fst (cached_name gr (gnames hs) (st_gid st))"
    and h: "h = file_hdr nm st un gn link"
    and ar: "ring_ok ar" "WaitRoom ar (padded h + 1024)" "padded h + 1024 \<le> length tmp"
  shows "\<exists>d B ns'. wf_hdr d \<and> xhdr_list d = [] \<and> hd (fld (hdr_blk d) F_linkname) = NUL \<and> pax_bytes h d nm B \<and>
    (buildPaxHeader clk now pw gr tmp junk name link st hs ar = None \<or>
     buildPaxHeader clk now pw gr tmp junk name link st hs ar =
       Some (hs\<lparr>DefaultHeader := Some d, unames := snd (cached_name pw (unames hs) (st_uid st)),
         gnames := snd (cached_name gr (gnames hs) (st_gid st)), names := ns'\<rparr>, put_piece ar B))"
proof -
  let ?n = "padded h + 1024"
  obtain uc where uc: "cached_name pw (unames hs) (st_uid st) = (un, uc)"
    unfolding un by (metis prod.collapse)
  obtain gc where gc: "cached_name gr (gnames hs) (st_gid st) = (gn, gc)"
    unfolding gn by (metis prod.collapse)
  obtain d where d: "(if DefaultHeader hs = None then createDefaultHeader now else DefaultHeader hs) = Some d"
    "wf_hdr d" "xhdr_list d = []" "hd (fld (hdr_blk d) F_linkname) = NUL"
    using default_header [OF df] .
  note names = nm(2) cached_name_ok(1) [OF db(1) uc] cached_name_ok(1) [OF db(2) gc] nm(4)
  have w: "writable h d"
    unfolding h by (rule file_hdr_writable [OF names d(2,3)])
  have holds: "name_v.holds h nm"
    unfolding h by (rule file_hdr_values(1) [OF names nm(3)])
  obtain st' B h' ns' l where wr: "\<forall>buf bsize hw. ?n \<le> length buf \<longrightarrow> ?n \<le> bsize \<longrightarrow>
      ph_write_header (ph_basic_name_callback clk) (names hs) junk h buf bsize hw (Some d) =
        Some (st', B @ drop ?n buf, Some ?n, h', ns')"
    and B: "length B = ?n" "reloaded h d l" "name_v.holds l nm"
      "\<forall>en r. ph_is_pax_hdr en (take 512 B @ r) = (PX_SUCCESS_EXT_HEADER, padded h + 512) \<and>
        ph_load_pax_hdr en ph_create_hdr (B @ r) ?n = (PX_SUCCESS, l)"
    using basic.write_load [OF w holds, of clk "names hs" junk] by (elim exE conjE) (rule that; assumption)
  have fields: "fold set_next_field (pax_fields name st un gn link) (PX_SUCCESS, ph_create_hdr) = (PX_SUCCESS, h)"
    unfolding pax_fields_steps nm(1) [symmetric] h file_hdr_def
    using run_steps_fold [OF all_steps_ok [OF names]] by (simp add: ph_create_hdr_def wf_hdr_def)
  have room: "used ar + ?n < bufSize ar"
    using ar(2) WaitRoom_iff [OF ar(1)] by simp
  have "place_header ar tmp ?n (\<lambda>mem. map_option (\<lambda>(st2, m, _, _, ns'). (st2, m, ns'))
      (ph_write_header (ph_basic_name_callback clk) (names hs) junk h mem ?n False (Some d))) =
    (if PXSUCCESS st' then Some (put_piece ar B, ns') else None)"
    by (rule place_header_ok [OF ar(1) room ar(3) _ B(1)]) (simp add: wr)
  moreover have ext: "ph_has_ext_hdr (Some h) = 1"
    using writableD(3) [OF w] by (simp add: ph_has_ext_hdr_def)
  moreover have dflt: "(if ph_has_ext_hdr (Some h) \<noteq> 0 \<and> DefaultHeader hs = None
      then createDefaultHeader now else DefaultHeader hs) = Some d"
    using d(1) ext by simp
  ultimately have "buildPaxHeader clk now pw gr tmp junk name link st hs ar =
      (if PXSUCCESS st' then Some (hs\<lparr>DefaultHeader := Some d, unames := uc, gnames := gc, names := ns'\<rparr>,
         put_piece ar B) else None)"
    using ph_get_header_size_writable [OF w] fields
    unfolding buildPaxHeader_def uc gc prod.case fields dflt Let_def by (simp add: PXSUCCESS_def)
  moreover have "pax_bytes h d nm B"
    using B by (auto simp: pax_bytes_def)
  ultimately show ?thesis
    using d uc gc by (intro exI [of _ d] exI [of _ B] exI [of _ ns']) simp
qed

end
