(* ===== verification/Legacy_Header.thy ===== *)
theory Legacy_Header
  imports Archive_Header
begin

text \<open>
  The legacy tar header of the archiver: \<open>writeHeader\<close>, \<open>buildLegacyHeader\<close> and \<open>BuildHeader\<close> of
  src/src/archiver/arcopy/header.c, with the layout of src/include/aml/tar\_hdr.h. A name or a
  link target of 100 bytes or more goes before the header as the data of a member of its own;
  a sparse file has a table of extents in the header and in the records that follow it.
\<close>

section \<open>A header record\<close>

text \<open>
  Fields of the zeroed record: strncpy, and the number conversions at an offset. \<open>width\<close> is
  the field width the code passes.
\<close>

definition str_at :: "nat \<Rightarrow> nat \<Rightarrow> string \<Rightarrow> string \<Rightarrow> string" where
  "str_at off n s blk = overwrite blk off (take n (s @ replicate n NUL))"

definition num_at :: "(string \<Rightarrow> nat \<Rightarrow> string) \<Rightarrow> nat \<Rightarrow> nat \<Rightarrow> nat \<Rightarrow> string \<Rightarrow> string" where
  "num_at conv off len width blk = overwrite blk off (conv (take len (drop off blk)) width)"

text \<open>The storage of a sparse file, \<open>struct FileStoreInfo\<close>: an extent has a start and a count.\<close>

record file_store =
  f_nbytes :: u64
  f_ex :: "(u64 \<times> u64) list"

text \<open>The extents of a record, in entries of 24 bytes from the offset on.\<close>

fun sparse_fields :: "nat \<Rightarrow> (u64 \<times> u64) list \<Rightarrow> (string \<Rightarrow> string) list" where
  "sparse_fields off [] = []"
| "sparse_fields off ((start, cnt) # exs) =
     num_at (ll2str start) off 12 13 # num_at (ll2str cnt) (off + 12) 12 13 # sparse_fields (off + 24) exs"

abbreviation (input) LF_NORMAL :: char where "LF_NORMAL \<equiv> CHR ''0''"
abbreviation (input) LF_SYMLINK :: char where "LF_SYMLINK \<equiv> CHR ''2''"
abbreviation (input) LF_LONGLINK :: char where "LF_LONGLINK \<equiv> CHR ''K''"
abbreviation (input) LF_LONGNAME :: char where "LF_LONGNAME \<equiv> CHR ''L''"
abbreviation (input) LF_SPARSE :: char where "LF_SPARSE \<equiv> CHR ''S''"
abbreviation (input) LF_DIRHDR :: char where "LF_DIRHDR \<equiv> CHR ''Y''"
abbreviation (input) NAMSIZ :: nat where "NAMSIZ \<equiv> 100"
abbreviation (input) SPARSE_IN_HDR :: nat where "SPARSE_IN_HDR \<equiv> 4"
abbreviation (input) SPARSE_EXT_HDR :: nat where "SPARSE_EXT_HDR \<equiv> 21"

definition TMAGIC :: string where
  "TMAGIC = ''ustar  ''"

definition header_fields :: "string \<Rightarrow> sam_stat \<Rightarrow> char \<Rightarrow> string \<Rightarrow> string \<Rightarrow> string \<Rightarrow> file_store \<Rightarrow>
    (string \<Rightarrow> string) list" where
  "header_fields name st type linkname un gn fsip =
     [str_at 0 99 (dropWhile (\<lambda>c. c = CHR ''/'') name),
      num_at (l2oct (st_mode st)) 100 8 8, num_at (l2oct (st_uid st)) 108 8 8,
      num_at (l2oct (st_gid st)) 116 8 8,
      num_at (ll2str (if type = LF_SPARSE then f_nbytes fsip else st_size st)) 124 12 13,
      num_at (l2oct (ucast (st_mtime st))) 136 12 13,
      \<lambda>b. b[156 := type]] @
     (if type = LF_SYMLINK then [str_at 157 99 linkname] else []) @
     [str_at 257 8 TMAGIC, str_at 265 31 un, str_at 297 31 gn] @
     (if type = LF_SPARSE
      then sparse_fields 386 (take SPARSE_IN_HDR (f_ex fsip)) @
        [\<lambda>b. b[482 := (if SPARSE_IN_HDR < length (f_ex fsip) then CHR 0x01 else NUL)]]
      else []) @
     [num_at (ll2str (st_size st)) 483 12 13]"

text \<open>The checksum: the sum of the bytes of the structure, 495 of the 512, with a blank checksum.\<close>

definition header_sum :: "string \<Rightarrow> nat" where
  "header_sum blk = sum_list (map of_char (take 495 blk))"

definition put_chksum :: "string \<Rightarrow> string" where
  "put_chksum blk =
     (let blk' = overwrite blk 148 (replicate 8 (CHR '' ''))
      in (num_at (l2oct (word_of_nat (header_sum blk'))) 148 8 8 blk')[154 := NUL])"

definition legacy_record :: "string \<Rightarrow> sam_stat \<Rightarrow> char \<Rightarrow> string \<Rightarrow> string \<Rightarrow> string \<Rightarrow> file_store \<Rightarrow> string" where
  "legacy_record name st type linkname un gn fsip =
     put_chksum (fold (\<lambda>f b. f b) (header_fields name st type linkname un gn fsip) (replicate 512 NUL))"

text \<open>The records that continue the table of extents.\<close>

function ext_records :: "(u64 \<times> u64) list \<Rightarrow> string list" where
  "ext_records exs =
     (if exs = [] then []
      else (fold (\<lambda>f b. f b) (sparse_fields 0 (take SPARSE_EXT_HDR exs)) (replicate 512 NUL))
             [504 := (if SPARSE_EXT_HDR < length exs then CHR 0x01 else NUL)] #
           ext_records (drop SPARSE_EXT_HDR exs))"
  by auto
termination
  by (relation "measure length") auto

declare ext_records.simps [simp del]

section \<open>Writing\<close>

text \<open>
  A record at the address \<open>WaitRoom\<close> returns. A record that would go beyond the end of the
  buffer is \<^const>\<open>None\<close>: the code does not look for it.
\<close>

definition put_record :: "arcopy \<Rightarrow> string \<Rightarrow> arcopy option" where
  "put_record ar blk = (if bufSize ar < bufIn ar + 512 then None else Some (put_piece ar blk))"

fun put_records :: "arcopy \<Rightarrow> string list \<Rightarrow> arcopy option" where
  "put_records ar [] = Some ar"
| "put_records ar (b # bs) = Option.bind (put_record ar b) (\<lambda>ar'. put_records ar' bs)"

definition writeHeader :: "(u32 \<Rightarrow> string option) \<Rightarrow> (u32 \<Rightarrow> string option) \<Rightarrow> file_store \<Rightarrow> string \<Rightarrow>
    string \<Rightarrow> sam_stat \<Rightarrow> char \<Rightarrow> header_state \<times> arcopy \<Rightarrow> (header_state \<times> arcopy) option" where
  "writeHeader pw gr fsip linkname name st type = (\<lambda>(hs, ar).
     (case cached_name pw (unames hs) (st_uid st) of (un, uc) \<Rightarrow>
      case cached_name gr (gnames hs) (st_gid st) of (gn, gc) \<Rightarrow>
        map_option (\<lambda>ar'. (hs\<lparr>unames := uc, gnames := gc\<rparr>, ar'))
          (put_records ar (legacy_record name st type linkname un gn fsip #
             (if type = LF_SPARSE then ext_records (drop SPARSE_IN_HDR (f_ex fsip)) else [])))))"

text \<open>A member whose data is a name: \<open>writeHeader\<close> with the static status, the data, and zeros.\<close>

definition long_stat :: "nat \<Rightarrow> sam_stat" where
  "long_stat n = \<lparr>st_mode = 0, st_uid = 0, st_gid = 0, st_size = word_of_nat n, st_atime = 0, st_mtime = 0,
     st_ctime = 0\<rparr>"

definition data_and_round :: "string \<Rightarrow> header_state \<times> arcopy \<Rightarrow> (header_state \<times> arcopy) option" where
  "data_and_round data = (\<lambda>(hs, ar).
     Option.bind (WriteData ar data) (\<lambda>(_, ar1).
       Option.bind (RoundBuffer ar1 512) (\<lambda>(_, ar2). Some (hs, ar2))))"

definition long_member :: "(u32 \<Rightarrow> string option) \<Rightarrow> (u32 \<Rightarrow> string option) \<Rightarrow> file_store \<Rightarrow> string \<Rightarrow>
    char \<Rightarrow> string \<Rightarrow> header_state \<times> arcopy \<Rightarrow> (header_state \<times> arcopy) option" where
  "long_member pw gr fsip linkname type data s =
     Option.bind (writeHeader pw gr fsip linkname ''././@LongLink'' (long_stat (length data)) type s)
       (data_and_round data)"

text \<open>
  \<open>name_l\<close> counts the NUL behind the name. \<open>link\<close> is the target that \<open>readlink\<close> returns, empty
  when it fails; \<open>oldlink\<close> is the content of the global \<open>linkname\<close> before; \<open>sparse\<close> is the
  storage of a sparse file.
\<close>

definition buildLegacyHeader :: "(u32 \<Rightarrow> string option) \<Rightarrow> (u32 \<Rightarrow> string option) \<Rightarrow> file_store option \<Rightarrow>
    string \<Rightarrow> string \<Rightarrow> string \<Rightarrow> nat \<Rightarrow> sam_stat \<Rightarrow> header_state \<times> arcopy \<Rightarrow> (header_state \<times> arcopy) option" where
  "buildLegacyHeader pw gr sparse oldlink link name name_l st s =
     (let fsip = (case sparse of Some f \<Rightarrow> f | None \<Rightarrow> \<lparr>f_nbytes = 0, f_ex = []\<rparr>)
      in Option.bind
        (if NAMSIZ \<le> name_l then long_member pw gr fsip oldlink LF_LONGNAME (take name_l (name @ [NUL])) s else Some s)
        (\<lambda>s1.
          if S_ISLNK (st_mode st)
          then Option.bind
            (if NAMSIZ \<le> length link then long_member pw gr fsip link LF_LONGLINK link s1 else Some s1)
            (writeHeader pw gr fsip link name (st\<lparr>st_size := word_of_nat (length link)\<rparr>) LF_SYMLINK)
          else if S_ISDIR (st_mode st) then writeHeader pw gr fsip oldlink name st LF_DIRHDR s1
          else writeHeader pw gr fsip oldlink name st (if sparse \<noteq> None then LF_SPARSE else LF_NORMAL) s1))"

datatype archive_format = LEGACY_FORMAT | PAX_FORMAT | OTHER_FORMAT

definition BuildHeader :: "archive_format \<Rightarrow> (nat \<Rightarrow> i64) \<Rightarrow> i64 \<Rightarrow> (u32 \<Rightarrow> string option) \<Rightarrow>
    (u32 \<Rightarrow> string option) \<Rightarrow> string \<Rightarrow> string \<times> nat \<Rightarrow> file_store option \<Rightarrow> string \<Rightarrow> string \<Rightarrow> string \<Rightarrow> nat \<Rightarrow>
    sam_stat \<Rightarrow> header_state \<times> arcopy \<Rightarrow> (header_state \<times> arcopy) option" where
  "BuildHeader fmt clk now pw gr tmp junk sparse oldlink link name name_l st s =
     (case fmt of
        LEGACY_FORMAT \<Rightarrow> buildLegacyHeader pw gr sparse oldlink link name name_l st s
      | PAX_FORMAT \<Rightarrow> (case s of (hs, ar) \<Rightarrow> buildPaxHeader clk now pw gr tmp junk name link st hs ar)
      | OTHER_FORMAT \<Rightarrow> None)"

section \<open>Fields of a record: lemmas\<close>

text \<open>A change of a record that leaves the bytes from \<open>o\<close> to \<open>o + n\<close> alone.\<close>

definition keeps :: "(string \<Rightarrow> string) \<Rightarrow> nat \<Rightarrow> nat \<Rightarrow> bool" where
  "keeps f k n \<longleftrightarrow> (\<forall>b. length b = 512 \<longrightarrow> length (f b) = 512 \<and> take n (drop k (f b)) = take n (drop k b))"

lemma keeps_fold:
  "list_all (\<lambda>f. keeps f k n) fs \<Longrightarrow> length b = 512 \<Longrightarrow>
     length (fold (\<lambda>f b. f b) fs b) = 512 \<and> take n (drop k (fold (\<lambda>f b. f b) fs b)) = take n (drop k b)"
  by (induction fs arbitrary: b) (simp_all add: keeps_def)

lemma keeps_overwrite:
  assumes "\<And>b. length b = 512 \<Longrightarrow> length (g b) = len" "off + len \<le> 512" "k + n \<le> off \<or> off + len \<le> k"
  shows "keeps (\<lambda>b. overwrite b off (g b)) k n"
  unfolding keeps_def
proof (intro allI impI)
  fix b :: string
  assume b: "length b = 512"
  then have l: "length (g b) = len"
    by (rule assms(1))
  have "take n (drop k (overwrite b off (g b))) = take n (drop k b)"
    using assms(2,3) b l take_drop_overwrite_below [of off "g b" b k n] take_drop_overwrite_above [of off "g b" b k n]
    by auto
  then show "length (overwrite b off (g b)) = 512 \<and> take n (drop k (overwrite b off (g b))) = take n (drop k b)"
    using assms(2) b l by simp
qed

lemma keeps_str:
  "off + len \<le> 512 \<Longrightarrow> k + n \<le> off \<or> off + len \<le> k \<Longrightarrow> keeps (str_at off len s) k n"
  unfolding str_at_def by (rule keeps_overwrite) simp_all

lemma keeps_num:
  assumes "\<And>d. length d = len \<Longrightarrow> length (conv d width) = len" "off + len \<le> 512"
    "k + n \<le> off \<or> off + len \<le> k"
  shows "keeps (num_at conv off len width) k n"
  unfolding num_at_def using assms by (intro keeps_overwrite) simp_all

lemma keeps_update: "i < 512 \<Longrightarrow> k + n \<le> i \<or> i < k \<Longrightarrow> keeps (\<lambda>b. b[i := c]) k n"
  by (auto simp: keeps_def drop_update_swap drop_update_cancel take_update_cancel)

lemma length_oct_digits [simp]: "length (snd (oct_digits k v m)) = length m"
  by (induction k v m rule: oct_digits.induct) (simp_all add: Let_def)

lemma length_blank_fill [simp]: "length (blank_fill k m) = length m"
  by (induction k m rule: blank_fill.induct) simp_all

lemma length_l2oct [simp]: "length (l2oct v d w) = length d"
  using length_oct_digits [of "w - 2" v "d[w - 2 := CHR '' '']"]
  by (simp add: l2oct_def octal_field_def Let_def case_prod_unfold)

lemma length_hex_digits [simp]: "length (hex_digits k v m) = length m"
  by (induction k v m rule: hex_digits.induct) simp_all

lemma length_ll2str [simp]: "length (ll2str v d w) = length d"
  using length_oct_digits [of "w - 2" v "d[w - 2 := CHR '' '']"]
  by (simp add: ll2str_def ll2oct_def octal_field_def Let_def case_prod_unfold)

lemmas keeps_field = keeps_str keeps_num keeps_update

lemma keeps_sparse:
  assumes "off + 24 * length exs \<le> 512" "k + n \<le> off \<or> off + 24 * length exs \<le> k"
  shows "list_all (\<lambda>f. keeps f k n) (sparse_fields off exs)"
  using assms
proof (induction off exs rule: sparse_fields.induct)
  case (2 off start cnt exs)
  then show ?case
    by (auto intro!: keeps_num)
qed simp

lemma keeps_chksum: "k + n \<le> 148 \<or> 156 \<le> k \<Longrightarrow> keeps put_chksum k n"
  using keeps_overwrite [of "\<lambda>_. replicate 8 (CHR '' '')" 8 148 k n] keeps_update [of 154 k n NUL]
    keeps_num [of 8 "l2oct v" 8 148 k n for v]
  by (auto simp: keeps_def put_chksum_def Let_def)

text \<open>The fields before and behind a field of the list.\<close>

lemma fold_at:
  assumes "i < length fs" "list_all (\<lambda>f. keeps f k n) (take i fs)" "list_all (\<lambda>f. keeps f k n) (drop (Suc i) fs)"
    and b: "length b = 512" and f: "\<And>b. length b = 512 \<Longrightarrow> length ((fs ! i) b) = 512"
  shows "\<exists>b'. length b' = 512 \<and> length (fold (\<lambda>f b. f b) fs b) = 512 \<and>
    take n (drop k (fold (\<lambda>f b. f b) fs b)) = take n (drop k ((fs ! i) b'))"
proof -
  let ?b = "fold (\<lambda>f b. f b) (take i fs) b"
  have l: "length ?b = 512"
    using keeps_fold [OF assms(2) b] by simp
  have "fold (\<lambda>f b. f b) fs b = fold (\<lambda>f b. f b) (drop (Suc i) fs) ((fs ! i) ?b)"
    by (subst id_take_nth_drop [OF assms(1)]) simp
  then show ?thesis
    using keeps_fold [OF assms(3) f [OF l]] l by auto
qed

lemma str_at_take: "length b = 512 \<Longrightarrow> off + n \<le> 512 \<Longrightarrow> take n (drop off (str_at off n s b)) = take n (s @ replicate n NUL)"
proof -
  assume "length b = 512" "off + n \<le> 512"
  moreover define t where "t = take n (s @ replicate n NUL)"
  moreover have "length t = n"
    by (simp add: t_def)
  ultimately show ?thesis
    using take_drop_overwrite_same [of off t b] by (simp add: str_at_def flip: t_def)
qed

lemma num_at_take:
  assumes "length b = 512" "off + n \<le> 512" "\<And>d. length d = n \<Longrightarrow> length (conv d w) = n"
  shows "\<exists>d. length d = n \<and> take n (drop off (num_at conv off n w b)) = conv d w"
proof (intro exI conjI)
  let ?d = "take n (drop off b)"
  show d: "length ?d = n"
    using assms(1,2) by simp
  show "take n (drop off (num_at conv off n w b)) = conv ?d w"
    using take_drop_overwrite_same [of off "conv ?d w" b] assms(1,2) assms(3) [OF d] by (simp add: num_at_def)
qed

text \<open>The magic number and the size of a record.\<close>

lemma fields_list:
  fixes name st type linkname un gn fsip
  defines "fs \<equiv> header_fields name st type linkname un gn fsip"
  shows "list_all (\<lambda>f. keeps f 124 12) (take 4 fs)" "list_all (\<lambda>f. keeps f 124 12) (drop (Suc 4) fs)"
    "fs ! 4 = num_at (ll2str (if type = LF_SPARSE then f_nbytes fsip else st_size st)) 124 12 13"
    "4 < length fs"
  unfolding fs_def by (auto simp: header_fields_def intro!: keeps_field keeps_sparse)

lemma magic_list:
  fixes name st type linkname un gn fsip
  defines "fs \<equiv> header_fields name st type linkname un gn fsip"
    and "i \<equiv> (if type = LF_SYMLINK then 8 else 7 :: nat)"
  shows "list_all (\<lambda>f. keeps f 257 8) (take i fs)" "list_all (\<lambda>f. keeps f 257 8) (drop (Suc i) fs)"
    "fs ! i = str_at 257 8 TMAGIC" "i < length fs"
  unfolding fs_def i_def by (auto simp: header_fields_def intro!: keeps_field keeps_sparse)

lemma length_record [simp]: "length (legacy_record name st type linkname un gn fsip) = 512"
proof -
  let ?fs = "header_fields name st type linkname un gn fsip" and ?i = "if type = LF_SYMLINK then 8 else 7 :: nat"
  have "length (fold (\<lambda>f b. f b) ?fs (replicate 512 NUL)) = 512"
    using fold_at [OF magic_list(4,1,2), of "replicate 512 NUL" name st type linkname un gn fsip]
    by (auto simp: magic_list(3) str_at_def)
  then show ?thesis
    using keeps_chksum [of 0 0] by (simp add: legacy_record_def keeps_def)
qed

lemma ll2str_append:
  assumes "length d = n" "2 \<le> n"
  shows "ll2str v (d @ r) (Suc n) = ll2str v d (Suc n) @ r"
proof (cases "unat v < 8 ^ (n - 1)")
  case True
  then have "drop_bit (3 * (n - 1)) v = 0"
    by (simp add: drop_bit_0_iff power_mult)
  then show ?thesis
    using octal_field_text [OF True assms(2), of "d @ r"] octal_field_text [OF True assms(2), of d] assms
    by (simp add: ll2str_def ll2oct_def)
next
  case False
  then have "drop_bit (3 * (n - 1)) v \<noteq> 0"
    by (simp add: drop_bit_0_iff power_mult)
  moreover obtain x xs where "d = x # xs"
    using assms by (cases d) auto
  ultimately show ?thesis
    using assms by (auto simp: ll2str_def hex_digits_text)
qed

definition size_field :: "u64 \<Rightarrow> u64" where
  "size_field v = (if unat v < 8 ^ 11 then v else word_of_nat (unat v mod 2 ^ 44))"

lemma record_fields:
  fixes name st type linkname un gn fsip
  defines "r \<equiv> legacy_record name st type linkname un gn fsip"
  shows "take 8 (drop 257 r) = TMAGIC @ [NUL]"
    and "llfrom_str 12 (drop 124 r) = size_field (if type = LF_SPARSE then f_nbytes fsip else st_size st)"
proof -
  let ?fs = "header_fields name st type linkname un gn fsip"
  let ?b = "fold (\<lambda>f b. f b) ?fs (replicate 512 NUL)"
  let ?v = "if type = LF_SPARSE then f_nbytes fsip else st_size st"
  have r: "take n (drop k r) = take n (drop k ?b)" if "k + n \<le> 148 \<or> 156 \<le> k" "length ?b = 512" for k n
    using keeps_chksum [OF that(1)] that(2) by (simp add: r_def legacy_record_def keeps_def)
  obtain b' where b': "length b' = 512" "take 8 (drop 257 ?b) = take 8 (drop 257 (str_at 257 8 TMAGIC b'))"
    and l: "length ?b = 512"
    using fold_at [OF magic_list(4,1,2), of "replicate 512 NUL" name st type linkname un gn fsip]
    unfolding magic_list(3) by (auto simp: str_at_def)
  then show "take 8 (drop 257 r) = TMAGIC @ [NUL]"
    using r [of 257 8] str_at_take [OF b'(1), of 257 8] by (simp add: TMAGIC_def)
  obtain d where d: "length d = 12" "take 12 (drop 124 ?b) = ll2str ?v d 13"
    using fold_at [OF fields_list(4,1,2), of "replicate 512 NUL" name st type linkname un gn fsip]
      num_at_take [of _ 124 12 "ll2str ?v" 13] unfolding fields_list(3) by (fastforce simp: num_at_def)
  have "drop 124 r = ll2str ?v d 13 @ drop 136 r"
    using append_take_drop_id [of 12 "drop 124 r"] r [of 124 12] d(2) l by simp
  then have "drop 124 r = ll2str ?v (d @ drop 136 r) (Suc 12)"
    using ll2str_append [OF d(1)] by simp
  then show "llfrom_str 12 (drop 124 r) = size_field ?v"
    using llfrom_ll2str [of 12 "d @ drop 136 r" ?v] d(1) by (simp add: size_field_def)
qed

section \<open>Records in the buffer: lemmas\<close>

text \<open>
  \<open>ar'\<close> is \<open>ar\<close> after the bytes were copied in, in pieces that fit into the buffer. The queue
  contract of the buffer applies to the pieces.
\<close>

definition puts :: "arcopy \<Rightarrow> string \<Rightarrow> arcopy \<Rightarrow> bool" where
  "puts ar B ar' \<longleftrightarrow> (\<exists>xss. ar' = foldl put_piece ar xss \<and> concat xss = B \<and> (\<forall>xs \<in> set xss. length xs \<le> bufSize ar))"

definition aligned :: "arcopy \<Rightarrow> bool" where
  "aligned ar \<longleftrightarrow> bufIn ar < bufSize ar \<and> 512 dvd bufSize ar \<and> 512 dvd bufIn ar \<and> 512 dvd fileOffset ar \<and> 0 < ReadCount ar"

lemma puts_refl: "puts ar [] ar"
  unfolding puts_def by (rule exI [of _ "[]"]) simp

lemma foldl_put_piece_simps:
  "bufSize (foldl put_piece ar xss) = bufSize ar" "ReadCount (foldl put_piece ar xss) = ReadCount ar"
  by (induction xss arbitrary: ar) (simp_all add: put_piece_simps)

lemma put_piece_bufIn:
  "bufIn ar < bufSize ar \<Longrightarrow> length xs \<le> bufSize ar \<Longrightarrow> bufIn (put_piece ar xs) = (bufIn ar + length xs) mod bufSize ar"
  by (auto simp: put_piece_def AdvanceIn_def Let_def le_mod_geq)

lemma puts_state:
  assumes "puts ar B ar'" "bufIn ar < bufSize ar"
  shows "bufSize ar' = bufSize ar" "ReadCount ar' = ReadCount ar" "fileOffset ar' = fileOffset ar + length B"
    "bufIn ar' = (bufIn ar + length B) mod bufSize ar"
proof -
  obtain xss where xss: "ar' = foldl put_piece ar xss" "concat xss = B" "\<forall>xs \<in> set xss. length xs \<le> bufSize ar"
    using assms(1) by (auto simp: puts_def)
  show "bufSize ar' = bufSize ar" "ReadCount ar' = ReadCount ar" "fileOffset ar' = fileOffset ar + length B"
    using foldl_put_piece_simps [of ar xss] foldl_put_piece [of ar xss] xss(1,2) by simp_all
  have "bufIn (foldl put_piece ar xss) = (bufIn ar + length (concat xss)) mod bufSize ar"
    using xss(3) assms(2)
  proof (induction xss arbitrary: ar)
    case (Cons xs xss)
    then show ?case
      using Cons.IH [of "put_piece ar xs"] put_piece_simps [of ar xs] put_piece_bufIn [of ar xs]
      by (simp add: mod_add_left_eq add.assoc)
  qed simp
  then show "bufIn ar' = (bufIn ar + length B) mod bufSize ar"
    using xss by simp
qed

lemma puts_trans:
  assumes "puts ar B ar'" "puts ar' C ar''"
  shows "puts ar (B @ C) ar''"
proof -
  obtain xss yss where "ar' = foldl put_piece ar xss" "concat xss = B" "\<forall>xs \<in> set xss. length xs \<le> bufSize ar"
    "ar'' = foldl put_piece ar' yss" "concat yss = C" "\<forall>xs \<in> set yss. length xs \<le> bufSize ar'"
    using assms by (auto simp: puts_def)
  then show ?thesis
    unfolding puts_def by (intro exI [of _ "xss @ yss"]) (auto simp: foldl_put_piece_simps)
qed

lemma puts_aligned:
  assumes "puts ar B ar'" "aligned ar" "512 dvd length B"
  shows "aligned ar'"
proof -
  have "512 dvd (bufIn ar + length B) mod bufSize ar" "bufIn ar < bufSize ar"
    using assms(2,3) by (simp_all add: aligned_def dvd_mod)
  moreover have "(bufIn ar + length B) mod bufSize ar < bufSize ar"
    using calculation(2) by (intro mod_less_divisor) simp
  ultimately show ?thesis
    using puts_state [OF assms(1)] assms(2,3) by (auto simp: aligned_def)
qed

lemma put_records_puts:
  assumes "aligned ar" "\<forall>b \<in> set bs. length b = 512"
  shows "\<exists>ar'. put_records ar bs = Some ar' \<and> puts ar (concat bs) ar' \<and> aligned ar'"
  using assms
proof (induction bs arbitrary: ar)
  case (Cons b bs)
  obtain k m where k: "bufSize ar = 512 * k" "bufIn ar = 512 * m"
    using Cons.prems(1) unfolding aligned_def dvd_def by blast
  then have "Suc m \<le> k"
    using Cons.prems(1) by (simp add: aligned_def)
  then have fits: "bufIn ar + 512 \<le> bufSize ar"
    using k by simp
  have p: "puts ar b (put_piece ar b)"
    using Cons.prems fits unfolding puts_def by (intro exI [of _ "[b]"]) simp
  then have "aligned (put_piece ar b)"
    using puts_aligned Cons.prems by simp
  then obtain ar' where "put_records (put_piece ar b) bs = Some ar'" "puts (put_piece ar b) (concat bs) ar'" "aligned ar'"
    using Cons by auto
  then show ?case
    using fits puts_trans [OF p] by (simp add: put_record_def)
qed (simp add: puts_refl)

definition padded_data :: "string \<Rightarrow> string" where
  "padded_data d = d @ replicate ((512 - length d mod 512) mod 512) NUL"

lemma length_padded_data: "512 dvd length (padded_data d)" "length d \<le> length (padded_data d)"
proof -
  define q r where "q = length d div 512" and "r = length d mod 512"
  have "length d = 512 * q + r" "r < 512"
    by (simp_all add: q_def r_def)
  then have "length d + (512 - r) = 512 * (q + 1)"
    by simp
  then have "512 dvd length d + (512 - length d mod 512)"
    unfolding r_def by (metis dvd_triv_left)
  then show "512 dvd length (padded_data d)"
    by (cases "length d mod 512 = 0") (auto simp: padded_data_def)
qed (simp add: padded_data_def)

lemma RoundBuffer_puts:
  assumes io: "bufIn ar < bufSize ar" and off: "fileOffset ar mod 512 = n mod 512"
  shows "\<exists>ws ar'. RoundBuffer ar 512 = Some (ws, ar') \<and> puts ar (replicate ((512 - n mod 512) mod 512) NUL) ar'"
proof (cases "n mod 512 = 0")
  case True
  then show ?thesis
    using off puts_refl by (simp add: RoundBuffer_def)
next
  case False
  then show ?thesis
    using off round_loop_pieces [OF io, of "512 - n mod 512"] by (auto simp: RoundBuffer_def puts_def)
qed

lemma data_and_round_puts:
  assumes "aligned ar"
  shows "\<exists>ar'. data_and_round d (hs, ar) = Some (hs, ar') \<and> puts ar (padded_data d) ar' \<and> aligned ar'"
proof -
  have io: "bufIn ar < bufSize ar" "0 < ReadCount ar"
    using assms by (simp_all add: aligned_def)
  obtain ws ar1 where w: "WriteData ar d = Some (ws, ar1)" "puts ar d ar1"
    using WriteData_pieces [OF io, of d] by (auto simp: puts_def)
  note s1 = puts_state [OF w(2) io(1)]
  have io1: "bufIn ar1 < bufSize ar1"
    using s1 io by simp
  have off: "fileOffset ar1 mod 512 = length d mod 512"
    using s1(3) assms by (auto simp: aligned_def)
  obtain ws' ar2 where r: "RoundBuffer ar1 512 = Some (ws', ar2)"
    "puts ar1 (replicate ((512 - length d mod 512) mod 512) NUL) ar2"
    using RoundBuffer_puts [OF io1 off] by blast
  have "puts ar (padded_data d) ar2"
    unfolding padded_data_def by (rule puts_trans [OF w(2) r(2)])
  then show ?thesis
    using puts_aligned [OF _ assms] length_padded_data(1) w(1) r(1) by (simp add: data_and_round_def)
qed

lemma length_ext_records: "\<forall>b \<in> set (ext_records exs). length b = 512"
proof (induction exs rule: ext_records.induct)
  case (1 exs)
  have "length (fold (\<lambda>f b. f b) (sparse_fields 0 (take 21 exs)) (replicate 512 NUL)) = 512"
    using keeps_fold [OF keeps_sparse, of 0 "take 21 exs" 512 0 "replicate 512 NUL"] by simp
  then show ?case
    using 1 by (subst ext_records.simps) simp
qed

text \<open>The name of an id, and a cache that holds it.\<close>

definition id_name :: "(u32 \<Rightarrow> string option) \<Rightarrow> u32 \<Rightarrow> string" where
  "id_name db i = (case db i of None \<Rightarrow> [] | Some s \<Rightarrow> take 31 s)"

definition cache_ok :: "(u32 \<Rightarrow> string option) \<Rightarrow> id_cache \<Rightarrow> bool" where
  "cache_ok db cache \<longleftrightarrow> snd cache = id_name db (fst cache)"

lemma cached_name_eq: "cache_ok db cache \<Longrightarrow> cached_name db cache i = (id_name db i, (i, id_name db i))"
  by (cases cache) (auto simp: cached_name_def cache_ok_def id_name_def Let_def)

definition header_bytes :: "(u32 \<Rightarrow> string option) \<Rightarrow> (u32 \<Rightarrow> string option) \<Rightarrow> file_store \<Rightarrow> string \<Rightarrow>
    string \<Rightarrow> sam_stat \<Rightarrow> char \<Rightarrow> string" where
  "header_bytes pw gr fsip linkname name st type =
     legacy_record name st type linkname (id_name pw (st_uid st)) (id_name gr (st_gid st)) fsip @
     (if type = LF_SPARSE then concat (ext_records (drop SPARSE_IN_HDR (f_ex fsip))) else [])"

text \<open>The caches are right, and the buffer is at a record boundary.\<close>

definition writing :: "(u32 \<Rightarrow> string option) \<Rightarrow> (u32 \<Rightarrow> string option) \<Rightarrow> header_state \<times> arcopy \<Rightarrow> bool" where
  "writing pw gr s \<longleftrightarrow> cache_ok pw (unames (fst s)) \<and> cache_ok gr (gnames (fst s)) \<and> aligned (snd s)"

text \<open>A step of the header that writes the given bytes, in whole records.\<close>

definition writes :: "(u32 \<Rightarrow> string option) \<Rightarrow> (u32 \<Rightarrow> string option) \<Rightarrow>
    (header_state \<times> arcopy \<Rightarrow> (header_state \<times> arcopy) option) \<Rightarrow> string \<Rightarrow> bool" where
  "writes pw gr f B \<longleftrightarrow>
     (\<forall>s. writing pw gr s \<longrightarrow> (\<exists>s'. f s = Some s' \<and> writing pw gr s' \<and> puts (snd s) B (snd s')))"

lemma writes_bind:
  assumes "writes pw gr f B" "writes pw gr g C"
  shows "writes pw gr (\<lambda>s. Option.bind (f s) g) (B @ C)"
  unfolding writes_def
proof (intro allI impI)
  fix s
  assume "writing pw gr s"
  then obtain s' s'' where "f s = Some s'" "puts (snd s) B (snd s')" "g s' = Some s''" "writing pw gr s''"
    "puts (snd s') C (snd s'')"
    using assms unfolding writes_def by metis
  then show "\<exists>s'. Option.bind (f s) g = Some s' \<and> writing pw gr s' \<and> puts (snd s) (B @ C) (snd s')"
    using puts_trans by auto
qed

lemma writes_none: "writes pw gr Some []"
  by (simp add: writes_def puts_refl)

lemma writes_header: "writes pw gr (writeHeader pw gr fsip linkname name st type)
    (header_bytes pw gr fsip linkname name st type)"
  unfolding writes_def
proof (intro allI impI)
  fix s
  assume s: "writing pw gr s"
  obtain hs ar where sa: "s = (hs, ar)"
    by (cases s)
  let ?bs = "legacy_record name st type linkname (id_name pw (st_uid st)) (id_name gr (st_gid st)) fsip #
    (if type = LF_SPARSE then ext_records (drop 4 (f_ex fsip)) else [])"
  have "aligned ar" "\<forall>b \<in> set ?bs. length b = 512"
    using s sa length_ext_records by (auto simp: writing_def)
  from put_records_puts [OF this] obtain ar' where ar': "put_records ar ?bs = Some ar'" "puts ar (concat ?bs) ar'" "aligned ar'"
    by blast
  have "cached_name pw (unames hs) (st_uid st) = (id_name pw (st_uid st), (st_uid st, id_name pw (st_uid st)))"
    "cached_name gr (gnames hs) (st_gid st) = (id_name gr (st_gid st), (st_gid st, id_name gr (st_gid st)))"
    using s sa by (simp_all add: writing_def cached_name_eq)
  then have "writeHeader pw gr fsip linkname name st type s =
      Some (hs\<lparr>unames := (st_uid st, id_name pw (st_uid st)), gnames := (st_gid st, id_name gr (st_gid st))\<rparr>, ar')"
    unfolding writeHeader_def sa prod.case using ar'(1) by (simp only: prod.case option.map)
  then show "\<exists>s'. writeHeader pw gr fsip linkname name st type s = Some s' \<and> writing pw gr s' \<and>
      puts (snd s) (header_bytes pw gr fsip linkname name st type) (snd s')"
    using ar'(2,3) sa by (auto simp: writing_def cache_ok_def header_bytes_def)
qed

lemma writes_data: "writes pw gr (data_and_round d) (padded_data d)"
  unfolding writes_def writing_def using data_and_round_puts [of _ d] by fastforce

lemma writes_if:
  "(P \<Longrightarrow> writes pw gr f B) \<Longrightarrow> (\<not> P \<Longrightarrow> writes pw gr g C) \<Longrightarrow>
     writes pw gr (\<lambda>s. if P then f s else g s) (if P then B else C)"
  by simp

text \<open>The bytes of a whole header: the long name, the long link target, and the header record.\<close>

definition long_bytes :: "(u32 \<Rightarrow> string option) \<Rightarrow> (u32 \<Rightarrow> string option) \<Rightarrow> file_store \<Rightarrow> string \<Rightarrow> char \<Rightarrow> string \<Rightarrow> string" where
  "long_bytes pw gr fsip linkname type data =
     header_bytes pw gr fsip linkname ''././@LongLink'' (long_stat (length data)) type @ padded_data data"

definition legacy_prefix :: "(u32 \<Rightarrow> string option) \<Rightarrow> (u32 \<Rightarrow> string option) \<Rightarrow> file_store \<Rightarrow> string \<Rightarrow> string \<Rightarrow>
    string \<Rightarrow> nat \<Rightarrow> sam_stat \<Rightarrow> string" where
  "legacy_prefix pw gr fsip oldlink link name name_l st =
     (if NAMSIZ \<le> name_l then long_bytes pw gr fsip oldlink LF_LONGNAME (take name_l (name @ [NUL])) else []) @
     (if S_ISLNK (st_mode st) \<and> NAMSIZ \<le> length link then long_bytes pw gr fsip link LF_LONGLINK link else [])"

definition legacy_type :: "file_store option \<Rightarrow> u32 \<Rightarrow> char" where
  "legacy_type sparse mode =
     (if S_ISLNK mode then LF_SYMLINK else if S_ISDIR mode then LF_DIRHDR
      else if sparse \<noteq> None then LF_SPARSE else LF_NORMAL)"

definition legacy_stat :: "string \<Rightarrow> sam_stat \<Rightarrow> sam_stat" where
  "legacy_stat link st = (if S_ISLNK (st_mode st) then st\<lparr>st_size := word_of_nat (length link)\<rparr> else st)"

definition legacy_bytes :: "(u32 \<Rightarrow> string option) \<Rightarrow> (u32 \<Rightarrow> string option) \<Rightarrow> file_store option \<Rightarrow> string \<Rightarrow> string \<Rightarrow>
    string \<Rightarrow> nat \<Rightarrow> sam_stat \<Rightarrow> string" where
  "legacy_bytes pw gr sparse oldlink link name name_l st =
     (let fsip = (case sparse of Some f \<Rightarrow> f | None \<Rightarrow> \<lparr>f_nbytes = 0, f_ex = []\<rparr>)
      in legacy_prefix pw gr fsip oldlink link name name_l st @
         header_bytes pw gr fsip (if S_ISLNK (st_mode st) then link else oldlink) name (legacy_stat link st)
           (legacy_type sparse (st_mode st)))"

lemma writes_long: "writes pw gr (long_member pw gr fsip linkname type data) (long_bytes pw gr fsip linkname type data)"
  unfolding long_member_def [abs_def] long_bytes_def by (rule writes_bind [OF writes_header writes_data])

lemma writes_legacy:
  "writes pw gr (buildLegacyHeader pw gr sparse oldlink link name name_l st)
     (legacy_bytes pw gr sparse oldlink link name name_l st)"
proof -
  define fsip where "fsip = (case sparse of Some f \<Rightarrow> f | None \<Rightarrow> \<lparr>f_nbytes = 0, f_ex = []\<rparr>)"
  have first: "writes pw gr
      (\<lambda>s. if 100 \<le> name_l then long_member pw gr fsip oldlink LF_LONGNAME (take name_l (name @ [NUL])) s else Some s)
      (if 100 \<le> name_l then long_bytes pw gr fsip oldlink LF_LONGNAME (take name_l (name @ [NUL])) else [])"
    by (rule writes_if [OF writes_long]) (use writes_none in \<open>simp add: eta_contract_eq\<close>)
  have link: "writes pw gr (\<lambda>s. if 100 \<le> length link then long_member pw gr fsip link LF_LONGLINK link s else Some s)
      (if 100 \<le> length link then long_bytes pw gr fsip link LF_LONGLINK link else [])"
    by (rule writes_if [OF writes_long]) (use writes_none in \<open>simp add: eta_contract_eq\<close>)
  note lw = writes_bind [OF link writes_header [of pw gr fsip link name "st\<lparr>st_size := word_of_nat (length link)\<rparr>" LF_SYMLINK]]
  note d = buildLegacyHeader_def [abs_def] legacy_bytes_def legacy_prefix_def Let_def fsip_def [symmetric]
  show ?thesis
  proof (cases "S_ISLNK (st_mode st)")
    case True
    then show ?thesis
      unfolding d using writes_bind [OF first lw] by (simp add: legacy_stat_def legacy_type_def)
  next
    case False
    then show ?thesis
      unfolding d using writes_bind [OF first writes_header [of pw gr fsip oldlink name st "legacy_type sparse (st_mode st)"]]
      by (cases "S_ISDIR (st_mode st)"; cases "sparse = None") (simp_all add: legacy_stat_def legacy_type_def)
  qed
qed

lemma header_sum_less: "header_sum blk < 8 ^ 6"
proof -
  have "sum_list (map of_char xs) \<le> 255 * length xs" for xs :: string
  proof (induction xs)
    case (Cons x xs)
    have "(of_char x :: nat) mod 256 = of_char x"
      by (rule of_char_mod_256)
    then have "(of_char x :: nat) \<le> 255"
      using mod_less_divisor [of 256 "of_char x :: nat"] by linarith
    then show ?case
      using Cons by (simp only: list.map sum_list.Cons length_Cons mult_Suc_right)
  qed simp
  from this [of "take 495 blk"] show ?thesis
    by (simp add: header_sum_def min_def split: if_splits)
qed

text \<open>
  The checksum field is the sum of the record with blanks in the field, as tar prescribes it:
  octal digits, a NUL, a blank.
\<close>

definition blanked :: "string \<Rightarrow> string" where
  "blanked blk = overwrite blk 148 (replicate 8 (CHR '' ''))"

lemma length_blanked [simp]: "length blk = 512 \<Longrightarrow> length (blanked blk) = 512"
  by (simp add: blanked_def)

lemma put_chksum_text:
  assumes blk: "length blk = 512"
  defines "t \<equiv> to_base 8 (header_sum (blanked blk))"
  shows "put_chksum blk = overwrite blk 148 (replicate (6 - length t) (CHR '' '') @ t @ [NUL, CHR '' ''])"
    and "length t \<le> 6"
proof -
  let ?n = "header_sum (blanked blk)"
  have n: "unat (word_of_nat ?n :: u32) = ?n"
    using header_sum_less [of "blanked blk"] by (simp add: unat_of_nat take_bit_nat_eq_self)
  show t: "length t \<le> 6"
    using length_to_base_le [of 8 6 ?n] header_sum_less [of "blanked blk"] by (simp add: t_def)
  have "take 8 (drop 148 (blanked blk)) = replicate 8 (CHR '' '')"
    using blk by (simp add: blanked_def overwrite_def)
  then have "num_at (l2oct (word_of_nat ?n)) 148 8 8 (blanked blk) =
      overwrite (blanked blk) 148 (replicate (6 - length t) (CHR '' '') @ t @ [CHR '' '', CHR '' ''])"
    using octal_field_text [of "word_of_nat ?n :: u32" 7 "replicate 8 (CHR '' '')"] n header_sum_less [of "blanked blk"]
    by (simp add: num_at_def l2oct_def t_def)
  also have "\<dots> = overwrite blk 148 (replicate (6 - length t) (CHR '' '') @ t @ [CHR '' '', CHR '' ''])"
    using blk t by (simp add: overwrite_def blanked_def)
  finally have "put_chksum blk =
      (overwrite blk 148 (replicate (6 - length t) (CHR '' '') @ t @ [CHR '' '', CHR '' '']))[154 := NUL]"
    by (simp add: put_chksum_def Let_def flip: blanked_def)
  also have "\<dots> = overwrite blk 148 (replicate (6 - length t) (CHR '' '') @ t @ [NUL, CHR '' ''])"
    using blk t by (simp add: overwrite_def list_update_append)
  finally show "put_chksum blk = overwrite blk 148 (replicate (6 - length t) (CHR '' '') @ t @ [NUL, CHR '' ''])" .
qed

lemma chksum_field:
  assumes blk: "length blk = 512"
  defines "t \<equiv> to_base 8 (header_sum (blanked (put_chksum blk)))"
  shows "take 8 (drop 148 (put_chksum blk)) = replicate (6 - length t) (CHR '' '') @ t @ [NUL, CHR '' '']"
proof -
  note p = put_chksum_text [OF blk]
  have "blanked (put_chksum blk) = blanked blk"
    using p blk by (simp add: blanked_def overwrite_def)
  then show ?thesis
    using p blk by (simp add: t_def overwrite_def)
qed

lemma length_fields:
  "length (fold (\<lambda>f b. f b) (header_fields name st type linkname un gn fsip) (replicate 512 NUL)) = 512"
  using fold_at [OF magic_list(4,1,2), of "replicate 512 NUL" name st type linkname un gn fsip]
  by (auto simp: magic_list(3) str_at_def)

lemma length_concat_512: "\<forall>b \<in> set bs. length b = 512 \<Longrightarrow> 512 dvd length (concat bs)"
  by (induction bs) auto

lemma header_bytes_512: "512 dvd length (header_bytes pw gr fsip linkname name st type)"
  using length_concat_512 [OF length_ext_records] by (auto simp: header_bytes_def)

lemma legacy_bytes_512: "512 dvd length (legacy_bytes pw gr sparse oldlink link name name_l st)"
  using header_bytes_512 length_padded_data(1)
  by (auto simp: legacy_bytes_def legacy_prefix_def long_bytes_def Let_def intro!: dvd_add)

lemma legacy_record_written:
  assumes "writing pw gr s"
  shows "\<exists>s' B r. buildLegacyHeader pw gr None oldlink link name name_l st s = Some s' \<and>
    puts (snd s) (B @ r) (snd s') \<and> aligned (snd s') \<and> 512 dvd length B \<and> length r = 512 \<and>
    take 8 (drop 257 r) = TMAGIC @ [NUL] \<and>
    llfrom_str 12 (drop 124 r) = size_field (if S_ISLNK (st_mode st) then word_of_nat (length link) else st_size st) \<and>
    (let t = to_base 8 (header_sum (blanked r))
     in take 8 (drop 148 r) = replicate (6 - length t) (CHR '' '') @ t @ [NUL, CHR '' ''])"
proof -
  let ?f = "\<lparr>f_nbytes = 0, f_ex = []\<rparr>"
  define r where "r = legacy_record name (legacy_stat link st) (legacy_type None (st_mode st))
    (if S_ISLNK (st_mode st) then link else oldlink) (id_name pw (st_uid (legacy_stat link st)))
    (id_name gr (st_gid (legacy_stat link st))) ?f"
  define B where "B = legacy_prefix pw gr ?f oldlink link name name_l st"
  have t: "legacy_type None (st_mode st) \<noteq> LF_SPARSE"
    by (simp add: legacy_type_def)
  then have bytes: "legacy_bytes pw gr None oldlink link name name_l st = B @ r"
    by (simp add: legacy_bytes_def header_bytes_def B_def r_def Let_def)
  obtain s' where s': "buildLegacyHeader pw gr None oldlink link name name_l st s = Some s'"
    "writing pw gr s'" "puts (snd s) (B @ r) (snd s')"
    using writes_legacy [of pw gr None oldlink link name name_l st] assms unfolding writes_def bytes by blast
  have r: "length r = 512" "take 8 (drop 257 r) = TMAGIC @ [NUL]"
    "llfrom_str 12 (drop 124 r) = size_field (st_size (legacy_stat link st))"
    using t record_fields unfolding r_def by simp_all
  moreover have "512 dvd length B"
    using legacy_bytes_512 [of pw gr None oldlink link name name_l st] r(1) unfolding bytes
    by (simp add: dvd_add_left_iff)
  moreover have "let t = to_base 8 (header_sum (blanked r))
      in take 8 (drop 148 r) = replicate (6 - length t) (CHR '' '') @ t @ [NUL, CHR '' '']"
    unfolding r_def legacy_record_def Let_def by (rule chksum_field [OF length_fields])
  moreover have "st_size (legacy_stat link st) = (if S_ISLNK (st_mode st) then word_of_nat (length link) else st_size st)"
    by (simp add: legacy_stat_def)
  moreover have "aligned (snd s')"
    using s'(2) by (simp add: writing_def)
  ultimately show ?thesis
    using s'(1,3) by (intro exI [of _ s'] exI [of _ B] exI [of _ r]) simp
qed

section \<open>Properties\<close>

text \<open>
  C11.
  The legacy header of a file that is not sparse. \<open>buildLegacyHeader\<close> returns when the buffer
  is at a record boundary, and copies whole records into the buffer. The last one, directly
  before the data, is a record with the magic number, with a size field that reads back as the
  size of the file below \<open>2 ^ 44\<close> and otherwise modulo \<open>2 ^ 44\<close>, and with a checksum in the form
  tar prescribes, of the record with blanks in place of the checksum.
\<close>

theorem legacy_header_written:
  assumes "writing pw gr s"
  shows "\<exists>s' B r. buildLegacyHeader pw gr None oldlink link name name_l st s = Some s' \<and>
    puts (snd s) (B @ r) (snd s') \<and> aligned (snd s') \<and> 512 dvd length B \<and> length r = 512 \<and>
    take 8 (drop 257 r) = TMAGIC @ [NUL] \<and>
    llfrom_str 12 (drop 124 r) = size_field (if S_ISLNK (st_mode st) then word_of_nat (length link) else st_size st) \<and>
    (let t = to_base 8 (header_sum (blanked r))
     in take 8 (drop 148 r) = replicate (6 - length t) (CHR '' '') @ t @ [NUL, CHR '' ''])"
  by (rule legacy_record_written [OF assms])

definition start_state :: "header_state \<times> arcopy" where
  "start_state =
     (\<lparr>DefaultHeader = None, unames = (- 1, []), gnames = (- 1, []),
        names = \<lparr>id_num = 0, last_arch_time = 0, ticks = 0\<rparr>\<rparr>,
      \<lparr>bufFirst = replicate 4096 NUL, bufSize = 4096, bufIn = 0, bufOut = 0, fileOffset = 0, bufEndArchive = False,
        bufEmpty = True, bufFull = False, blockCount = 4, WriteCount = 1024, ReadCount = 2048\<rparr>)"

lemma start_writing: "writing (\<lambda>_. None) (\<lambda>_. None) start_state"
  by (simp add: writing_def start_state_def cache_ok_def id_name_def aligned_def)

theorem legacy_header_written_witness:
  "\<exists>s' B r. buildLegacyHeader (\<lambda>_. None) (\<lambda>_. None) None [] [] ''a'' 2
      \<lparr>st_mode = 0x81a4, st_uid = 0, st_gid = 0, st_size = 700, st_atime = 0, st_mtime = 0, st_ctime = 0\<rparr> start_state = Some s' \<and>
    puts (snd start_state) (B @ r) (snd s') \<and> llfrom_str 12 (drop 124 r) = 700"
proof -
  let ?st = "\<lparr>st_mode = 0x81a4, st_uid = 0, st_gid = 0, st_size = 700, st_atime = 0, st_mtime = 0, st_ctime = 0\<rparr>"
  have "size_field (if S_ISLNK (st_mode ?st) then word_of_nat (length ([] :: string)) else st_size ?st) = 700"
    by (simp add: S_ISLNK_def size_field_def)
  then show ?thesis
    using legacy_header_written [OF start_writing, of "[]" "[]" "''a''" 2 ?st] by auto
qed

end
