(* ===== verification/Archive_Copy.thy ===== *)
theory Archive_Copy
  imports Legacy_Header
begin

text \<open>
  Copying one file to the archive: the part of \<open>CopyFile\<close> after the file was opened, with
  \<open>copyRegular\<close>, \<open>copyDir\<close>, \<open>copyLink\<close>, \<open>copyRmMedia\<close> and \<open>copySegment\<close>
  (src/src/archiver/arcopy/copyfile.c). The file system is a parameter: the results of the
  calls of read at every position of the file, and of the ioctls. Sparse files are not modelled:
  \<open>SparseFile\<close> is never set outside of \<open>GetFileStoreInfo\<close>, which has no caller.
\<close>

section \<open>State\<close>

text \<open>
  The archive file and the buffer, the position in the file that is read, and the pieces of
  data that were given to \<open>ChecksumData\<close>.
\<close>

record copying =
  buf :: arcopy
  hstate :: header_state
  AfFileSize :: nat
  AfOffset :: nat
  AF_error :: bool
  AF_csummed :: bool
  position :: nat
  summed :: "string list"

text \<open>
  A read: the position and the count to the return value and the bytes it stored, as many as
  it returns.
\<close>

type_synonym reader = "nat \<Rightarrow> nat \<Rightarrow> int \<times> string"

definition reader_ok :: "reader \<Rightarrow> bool" where
  "reader_ok rd \<longleftrightarrow> (\<forall>k l. fst (rd k l) \<le> int l \<and> length (snd (rd k l)) = nat (fst (rd k l)))"

section \<open>Regular files\<close>

text \<open>
  The loop of \<open>copyRegular\<close>. After an error the rest of the file is filled with zeros, to give
  it the length of its header; \<open>dataRead\<close> is not set in this branch, and \<open>unset\<close> is its value
  there by the number of the iteration \<open>i\<close>. A loop that does not end is \<^const>\<open>None\<close>.
\<close>

partial_function (option) copy_loop ::
    "reader \<Rightarrow> (nat \<Rightarrow> bool) \<Rightarrow> bool \<Rightarrow> nat \<Rightarrow> nat \<Rightarrow> copying \<Rightarrow> copying option" where
  "copy_loop rd unset doCsum i left c =
     (if left = 0 then Some c
      else
        (let l = piece (buf c) (min (ReadCount (buf c)) left);
             (n, xs) = (if AF_error c then (int l, replicate l NUL) else rd (position c) l);
             dataRead = (if AF_error c then unset i else True);
             c1 = (if AF_error c then c else c\<lparr>position := position c + nat n, AF_error := n < int l\<rparr>);
             c2 = (if doCsum \<and> 0 < n then c1\<lparr>summed := summed c1 @ [xs]\<rparr> else c1)
         in if dataRead
            then copy_loop rd unset doCsum (i + 1) (left - nat n) (c2\<lparr>buf := put_piece (buf c) xs\<rparr>)
            else copy_loop rd unset doCsum (i + 1) left (c2\<lparr>buf := copy_in (buf c) xs\<rparr>)))"

text \<open>
  \<open>cs_gen\<close> and \<open>cs_algo\<close> are the checksum attributes of the inode, \<open>stagesim\<close> the flag of the
  file. Behind the last byte a read has to return 0.
\<close>

definition copyRegular :: "reader \<Rightarrow> (nat \<Rightarrow> bool) \<Rightarrow> bool \<Rightarrow> nat \<Rightarrow> bool \<Rightarrow> copying \<Rightarrow> copying option" where
  "copyRegular rd unset cs_gen cs_algo stagesim c =
     (let doCsum = cs_gen \<and> cs_algo \<le> 2
      in map_option (\<lambda>c'.
           if \<not> AF_error c' \<and> \<not> stagesim
           then c'\<lparr>position := position c' + nat (fst (rd (position c') 1)),
                    AF_error := fst (rd (position c') 1) \<noteq> 0\<rparr>
           else c')
         (copy_loop rd unset doCsum 0 (AfFileSize c) (if doCsum then c\<lparr>AF_csummed := True\<rparr> else c)))"

section \<open>Directories, links, removable media files and segments\<close>

text \<open>A number in the byte order of the machine, and the validation record of a directory block.\<close>

definition c_num :: "bool \<Rightarrow> string \<Rightarrow> nat" where
  "c_num big s = foldr (\<lambda>c n. of_char c + 256 * n) (if big then rev s else s) 0"

abbreviation (input) DIR_BLK :: nat where
  "DIR_BLK \<equiv> 4096"

definition dirval_ok :: "bool \<Rightarrow> nat \<times> nat \<Rightarrow> string \<Rightarrow> bool" where
  "dirval_ok big ino_gen blk =
     (let v = drop (DIR_BLK - 16) blk
      in c_num big (take 4 (drop 4 v)) = fst ino_gen \<and> c_num big (take 4 (drop 8 v)) = snd ino_gen \<and>
         c_num big (take 2 v) = 1)"

fun dir_blocks :: "string \<Rightarrow> string list" where
  "dir_blocks xs = (if DIR_BLK \<le> length xs then take DIR_BLK xs # dir_blocks (drop DIR_BLK xs) else [])"

declare dir_blocks.simps [simp del]

definition write_data :: "string \<Rightarrow> copying \<Rightarrow> copying option" where
  "write_data xs c = map_option (\<lambda>(_, ar). c\<lparr>buf := ar\<rparr>) (WriteData (buf c) xs)"

partial_function (option) dir_loop :: "reader \<Rightarrow> bool \<Rightarrow> nat \<times> nat \<Rightarrow> int \<Rightarrow> copying \<Rightarrow> copying option" where
  "dir_loop rd big ino_gen left c =
     (if left \<le> 0 then Some c
      else
        (let (n, xs) = rd (position c) (4 * DIR_BLK); c1 = c\<lparr>position := position c + nat n\<rparr>
         in if n \<le> 0 then Some (c1\<lparr>AF_error := True\<rparr>)
            else Option.bind
              (write_data xs (c1\<lparr>AF_error := AF_error c1 \<or> (\<exists>b \<in> set (dir_blocks xs). \<not> dirval_ok big ino_gen b)\<rparr>))
              (dir_loop rd big ino_gen (left - n))))"

definition copyDir :: "reader \<Rightarrow> bool \<Rightarrow> nat \<times> nat \<Rightarrow> copying \<Rightarrow> copying option" where
  "copyDir rd big ino_gen c = dir_loop rd big ino_gen (int (AfFileSize c)) c"

definition copyLink :: "string \<Rightarrow> copying \<Rightarrow> copying option" where
  "copyLink link c = write_data link (c\<lparr>AfFileSize := length link\<rparr>)"

text \<open>
  The records the ioctls F\_IDRESOURCE and F\_IDSEGINFO store in the zeroed buffer, \<^const>\<open>None\<close>
  when they fail.
\<close>

definition copyRmMedia :: "string option \<Rightarrow> copying \<Rightarrow> copying option" where
  "copyRmMedia res c =
     (case res of
        None \<Rightarrow> Some (c\<lparr>AF_error := True\<rparr>)
      | Some xs \<Rightarrow> write_data (take (AfFileSize c) (xs @ replicate (AfFileSize c) NUL)) c)"

definition copySegment :: "string option \<Rightarrow> bool \<Rightarrow> copying \<Rightarrow> copying option" where
  "copySegment res cs_gen c =
     (let c1 = (if cs_gen then c\<lparr>AF_csummed := True\<rparr> else c)
      in case res of
           None \<Rightarrow> Some (c1\<lparr>AF_error := True\<rparr>)
         | Some xs \<Rightarrow> write_data (take (AfFileSize c) (xs @ replicate (AfFileSize c) NUL)) c1)"

section \<open>A file\<close>

text \<open>The format of the archive and \<open>ZeroOffset\<close> from the flags of the defaults.\<close>

definition select_format :: "bool \<Rightarrow> bool \<Rightarrow> archive_format \<times> bool" where
  "select_format legacy pax = (if legacy then (LEGACY_FORMAT, False) else if pax then (PAX_FORMAT, True) else (LEGACY_FORMAT, False))"

text \<open>What \<open>CopyFile\<close> uses of the inode.\<close>

record disk_inode =
  di_mode :: u32
  di_uid :: u32
  di_gid :: u32
  di_size :: nat
  rmfile :: nat
  seg_fsize :: nat
  seg_file :: bool
  access_time :: i64
  modify_time :: i64
  change_time :: i64
  cs_gen :: bool
  cs_algo :: nat
  di_id :: "nat \<times> nat"

definition S_ISREQ :: "u32 \<Rightarrow> bool" where
  "S_ISREQ mode \<longleftrightarrow> mode AND 0xf000 = 0xe000"

definition S_ISREG :: "u32 \<Rightarrow> bool" where
  "S_ISREG mode \<longleftrightarrow> mode AND 0xf000 = 0x8000"

definition S_ISSEGI :: "disk_inode \<Rightarrow> bool" where
  "S_ISSEGI dp \<longleftrightarrow> S_ISREG (di_mode dp) \<and> seg_file dp"

definition SAM_RM_SIZE :: "nat \<Rightarrow> nat" where
  "SAM_RM_SIZE n = (n + 4096 - 1) div 4096 * 4096"

definition file_size :: "disk_inode \<Rightarrow> nat" where
  "file_size dp = (if S_ISREQ (di_mode dp) then SAM_RM_SIZE (rmfile dp)
     else if S_ISSEGI dp then seg_fsize dp else di_size dp)"

text \<open>
  The parameters: the format, the clock, the user and group databases, the temporary memory
  of a pax header, the results of the system calls, the name of the file, and flags of the
  file. \<open>simread\<close> is the pseudo size of a simulated read, \<open>dev_zero\<close> the success of
  opening /dev/zero.
\<close>

record copy_env =
  format :: "archive_format \<times> bool"
  clock :: "nat \<Rightarrow> i64"
  now :: i64
  passwd :: "u32 \<Rightarrow> string option"
  group :: "u32 \<Rightarrow> string option"
  hdr_mem :: string
  hdr_junk :: "string \<times> nat"
  big_endian :: bool
  reads :: reader
  unset_flag :: "nat \<Rightarrow> bool"
  old_link :: string
  link_target :: string
  record_data :: "string option"
  file_name :: string
  tarheader :: bool
  stagesim :: bool
  simread :: "nat option"
  dev_zero :: bool

definition copy_stat :: "disk_inode \<Rightarrow> nat \<Rightarrow> sam_stat" where
  "copy_stat dp sz =
     \<lparr>st_mode = di_mode dp, st_uid = di_uid dp, st_gid = di_gid dp, st_size = word_of_nat sz,
      st_atime = access_time dp, st_mtime = modify_time dp, st_ctime = change_time dp\<rparr>"

definition copy_header :: "copy_env \<Rightarrow> disk_inode \<Rightarrow> copying \<Rightarrow> copying option" where
  "copy_header e dp c =
     map_option (\<lambda>(hs, ar).
         c\<lparr>hstate := hs, buf := ar, AfOffset := fileOffset (if snd (format e) then buf c else ar)\<rparr>)
       (BuildHeader (fst (format e)) (clock e) (now e) (passwd e) (group e) (hdr_mem e) (hdr_junk e) None
          (old_link e) (link_target e) (file_name e) (length (file_name e) + 1) (copy_stat dp (AfFileSize c))
          (hstate c, buf c))"

definition copy_data :: "copy_env \<Rightarrow> disk_inode \<Rightarrow> copying \<Rightarrow> copying option" where
  "copy_data e dp c =
     (if S_ISLNK (di_mode dp) then copyLink (link_target e) c
      else if S_ISSEGI dp then copySegment (record_data e) (cs_gen dp) c
      else if S_ISREQ (di_mode dp) then copyRmMedia (record_data e) c
      else if S_ISDIR (di_mode dp) then copyDir (reads e) (big_endian e) (di_id dp) c
      else copyRegular (reads e) (unset_flag e) (cs_gen dp) (cs_algo dp) (stagesim e) c)"

definition round_file :: "copying \<Rightarrow> copying option" where
  "round_file c = map_option (\<lambda>(_, ar). c\<lparr>buf := ar\<rparr>) (RoundBuffer (buf c) 512)"

text \<open>The result says whether the mutex \<open>bufInuse\<close> is still locked.\<close>

definition CopyFile :: "copy_env \<Rightarrow> disk_inode \<Rightarrow> copying \<Rightarrow> (bool \<times> copying) option" where
  "CopyFile e dp c =
     (let c1 = (if fileOffset (buf c) = 0 then c\<lparr>buf := beginArchiveFile (buf c)\<rparr> else c);
          c2 = c1\<lparr>AfFileSize := (if simread e \<noteq> None \<and> dev_zero e then the (simread e) else file_size dp)\<rparr>
      in if simread e \<noteq> None \<and> \<not> dev_zero e then Some (True, c2\<lparr>AF_error := True\<rparr>)
         else map_option (Pair False)
           (Option.bind (if tarheader e then copy_header e dp c2 else Some c2)
             (\<lambda>c3. Option.bind (copy_data e dp c3)
               (\<lambda>c4. if tarheader e then round_file c4 else Some c4))))"

section \<open>Lemmas: the data of a file\<close>

text \<open>A file with the content \<open>F\<close>: reads may fail or be short, but what they return is right.\<close>

definition reads_file :: "string \<Rightarrow> reader \<Rightarrow> bool" where
  "reads_file F rd \<longleftrightarrow>
     (\<forall>p l. fst (rd p l) \<le> int l \<and> snd (rd p l) = take (nat (fst (rd p l))) (drop p F) \<and>
       length (snd (rd p l)) = nat (fst (rd p l)) \<and> (0 < l \<and> fst (rd p l) = 0 \<longrightarrow> length F \<le> p))"

lemma puts_piece: "length xs \<le> bufSize ar \<Longrightarrow> puts ar xs (put_piece ar xs)"
  unfolding puts_def by (intro exI [of _ "[xs]"]) simp

lemma copy_loop_step:
  assumes "left \<noteq> 0" "piece (buf c) (min (ReadCount (buf c)) left) = l"
  shows "AF_error c \<Longrightarrow> unset i \<Longrightarrow> copy_loop rd unset doCsum i left c =
      copy_loop rd unset doCsum (i + 1) (left - l)
        (c\<lparr>summed := summed c @ (if doCsum \<and> 0 < l then [replicate l NUL] else []),
           buf := put_piece (buf c) (replicate l NUL)\<rparr>)"
    and "\<not> AF_error c \<Longrightarrow> rd (position c) l = (n, xs) \<Longrightarrow> copy_loop rd unset doCsum i left c =
      copy_loop rd unset doCsum (i + 1) (left - nat n)
        (c\<lparr>position := position c + nat n, AF_error := n < int l,
           summed := summed c @ (if doCsum \<and> 0 < n then [xs] else []), buf := put_piece (buf c) xs\<rparr>)"
proof -
  show "copy_loop rd unset doCsum i left c =
      copy_loop rd unset doCsum (i + 1) (left - l)
        (c\<lparr>summed := summed c @ (if doCsum \<and> 0 < l then [replicate l NUL] else []),
           buf := put_piece (buf c) (replicate l NUL)\<rparr>)" if "AF_error c" "unset i"
    using that assms(1) by (subst copy_loop.simps) (simp add: assms(2) Let_def)
  show "copy_loop rd unset doCsum i left c =
      copy_loop rd unset doCsum (i + 1) (left - nat n)
        (c\<lparr>position := position c + nat n, AF_error := n < int l,
           summed := summed c @ (if doCsum \<and> 0 < n then [xs] else []), buf := put_piece (buf c) xs\<rparr>)"
    if "\<not> AF_error c" "rd (position c) l = (n, xs)"
    using that assms(1) by (subst copy_loop.simps) (simp add: assms(2) Let_def)
qed

lemma copy_loop_zeros:
  assumes "AF_error c" "\<And>i. unset i" "bufIn (buf c) < bufSize (buf c)" "0 < ReadCount (buf c)"
  shows "\<exists>ps ar'. copy_loop rd unset doCsum i left c = Some (c\<lparr>summed := summed c @ ps, buf := ar'\<rparr>) \<and>
    puts (buf c) (replicate left NUL) ar' \<and> concat ps = (if doCsum then replicate left NUL else [])"
  using assms(1,3,4)
proof (induction left arbitrary: c i rule: less_induct)
  case (less left)
  show ?case
  proof (cases "left = 0")
    case True
    then show ?thesis
      using puts_refl by (subst copy_loop.simps) (auto intro!: exI [of _ "[]"] exI [of _ "buf c"])
  next
    case False
    define l where "l = piece (buf c) (min (ReadCount (buf c)) left)"
    have l: "0 < l" "l \<le> left" "l \<le> bufSize (buf c)"
      using piece_bounds [OF less.prems(2), of "min (ReadCount (buf c)) left"] False less.prems(3)
      by (simp_all add: l_def)
    let ?z = "replicate l NUL"
    let ?c = "c\<lparr>summed := summed c @ (if doCsum \<and> 0 < l then [?z] else []), buf := put_piece (buf c) ?z\<rparr>"
    have p: "puts (buf c) ?z (put_piece (buf c) ?z)"
      using l(3) by (intro puts_piece) simp
    have "AF_error ?c" "bufIn (buf ?c) < bufSize (buf ?c)" "0 < ReadCount (buf ?c)" "left - l < left"
      using less.prems puts_state [OF p] l by auto
    with less.IH [of "left - l" ?c "i + 1"] obtain ps ar' where r:
      "copy_loop rd unset doCsum (i + 1) (left - l) ?c = Some (?c\<lparr>summed := summed ?c @ ps, buf := ar'\<rparr>)"
      "puts (buf ?c) (replicate (left - l) NUL) ar'" "concat ps = (if doCsum then replicate (left - l) NUL else [])"
      by blast
    have z: "?z @ replicate (left - l) NUL = replicate left NUL"
      using l(2) by (simp flip: replicate_add)
    have "copy_loop rd unset doCsum i left c =
        Some (c\<lparr>summed := summed c @ ((if doCsum then [?z] else []) @ ps), buf := ar'\<rparr>)"
      using copy_loop_step(1) [OF False l_def [symmetric] less.prems(1) assms(2)] r(1) l(1) by simp
    moreover have "puts (buf c) (replicate left NUL) ar'"
      using puts_trans [OF p, of "replicate (left - l) NUL" ar'] r(2) z by simp
    moreover have "concat ((if doCsum then [?z] else []) @ ps) = (if doCsum then replicate left NUL else [])"
      using r(3) z by simp
    ultimately show ?thesis
      by blast
  qed
qed

text \<open>
  The loop without an error before: the first \<open>e\<close> bytes are those of the file, the rest is
  zeros, and the error flag tells both cases apart. The pieces that are given to the checksum
  are multiples of 16 bytes except the last, as long as there is no error.
\<close>

definition sums_16 :: "arcopy \<Rightarrow> bool" where
  "sums_16 ar \<longleftrightarrow> 16 dvd ReadCount ar \<and> 16 dvd bufIn ar \<and> 16 dvd bufSize ar"

definition loop_result :: "string \<Rightarrow> bool \<Rightarrow> nat \<Rightarrow> copying \<Rightarrow> copying option \<Rightarrow> nat \<Rightarrow> string list \<Rightarrow> arcopy \<Rightarrow> bool" where
  "loop_result F doCsum left c r e ps ar' \<longleftrightarrow>
     r = Some (c\<lparr>position := position c + e, AF_error := e \<noteq> left, summed := summed c @ ps, buf := ar'\<rparr>) \<and>
     e \<le> left \<and> length (take e (drop (position c) F)) = e \<and>
     puts (buf c) (take e (drop (position c) F) @ replicate (left - e) NUL) ar' \<and>
     concat ps = (if doCsum then take e (drop (position c) F) @ replicate (left - e) NUL else []) \<and>
     (e = left \<and> sums_16 (buf c) \<longrightarrow> (\<forall>x \<in> set (butlast ps). 16 dvd length x))"

lemma loop_result_read:
  assumes r: "loop_result F doCsum (left - l) c1 (copy_loop rd unset doCsum (i + 1) (left - l) c1) e ps ar'"
    and c1: "c1 = c\<lparr>position := position c + l, AF_error := False,
      summed := summed c @ (if doCsum \<and> 0 < l then [xs] else []), buf := put_piece (buf c) xs\<rparr>"
    and l: "l = piece (buf c) (min (ReadCount (buf c)) left)" "0 < l" "l \<le> left"
    and xs: "xs = take l (drop (position c) F)" "length xs = l"
    and p: "puts (buf c) xs (put_piece (buf c) xs)" and io: "bufIn (buf c) < bufSize (buf c)"
  shows "loop_result F doCsum left c (copy_loop rd unset doCsum (i + 1) (left - l) c1) (l + e)
    ((if doCsum then [xs] else []) @ ps) ar'"
proof -
  note r = r [unfolded loop_result_def c1]
  have t: "take (l + e) (drop (position c) F) = xs @ take e (drop (position c + l) F)"
    by (simp only: take_add drop_drop xs(1)) (simp add: add.commute)
  have bytes: "take (l + e) (drop (position c) F) @ replicate (left - (l + e)) NUL =
      xs @ (take e (drop (position c + l) F) @ replicate (left - l - e) NUL)"
    using t by simp
  have "puts (buf c) (take (l + e) (drop (position c) F) @ replicate (left - (l + e)) NUL) ar'"
    unfolding bytes using r by (intro puts_trans [OF p]) simp
  moreover have "\<forall>x \<in> set (butlast ((if doCsum then [xs] else []) @ ps)). 16 dvd length x"
    if "l + e = left" "sums_16 (buf c)"
  proof (cases "l = left")
    case True
    then have "copy_loop rd unset doCsum (i + 1) (left - l) c1 = Some c1"
      by (subst copy_loop.simps) simp
    then have "ps = []"
      using r [folded c1] by (auto dest: arg_cong [where f = summed])
    then show ?thesis
      by simp
  next
    case False
    then have "16 dvd l"
      using that(2) l(1) by (auto simp: sums_16_def piece_def min_def split: if_splits)
    moreover have "sums_16 (put_piece (buf c) xs)"
      using that(2) puts_state [OF p io] \<open>16 dvd l\<close> xs(2) by (auto simp: sums_16_def dvd_mod)
    ultimately show ?thesis
      using r that(1) xs(2) by (auto simp: butlast_append)
  qed
  moreover have "concat ((if doCsum then [xs] else []) @ ps) =
      (if doCsum then take (l + e) (drop (position c) F) @ replicate (left - (l + e)) NUL else [])"
    unfolding bytes using r by simp
  moreover have "length (take (l + e) (drop (position c) F)) = l + e"
    unfolding t using r xs(2) by simp
  moreover have "copy_loop rd unset doCsum (i + 1) (left - l) c1 =
      Some (c\<lparr>position := position c + (l + e), AF_error := l + e \<noteq> left,
        summed := summed c @ ((if doCsum then [xs] else []) @ ps), buf := ar'\<rparr>)" "l + e \<le> left"
  proof -
    have eq: "(e \<noteq> left - l) = (l + e \<noteq> left)"
      using l(3) by auto
    show "copy_loop rd unset doCsum (i + 1) (left - l) c1 =
      Some (c\<lparr>position := position c + (l + e), AF_error := l + e \<noteq> left,
        summed := summed c @ ((if doCsum then [xs] else []) @ ps), buf := ar'\<rparr>)"
      using conjunct1 [OF r] l(2) unfolding c1 eq by (simp add: add.assoc)
    show "l + e \<le> left"
      using r l(3) by linarith
  qed
  ultimately show ?thesis
    unfolding loop_result_def by blast
qed

lemma copy_loop_file:
  assumes rd: "reads_file F rd" and u: "\<And>i. unset i"
    and "\<not> AF_error c" "bufIn (buf c) < bufSize (buf c)" "0 < ReadCount (buf c)"
  shows "\<exists>e ps ar'. loop_result F doCsum left c (copy_loop rd unset doCsum i left c) e ps ar'"
  using assms(3-5)
proof (induction left arbitrary: c i rule: less_induct)
  case (less left)
  show ?case
  proof (cases "left = 0")
    case True
    then have "loop_result F doCsum left c (copy_loop rd unset doCsum i left c) 0 [] (buf c)"
      using puts_refl less.prems(1) by (subst copy_loop.simps) (simp add: loop_result_def)
    then show ?thesis
      by blast
  next
    case False
    define l where "l = piece (buf c) (min (ReadCount (buf c)) left)"
    have l: "0 < l" "l \<le> left" "l \<le> bufSize (buf c)"
      using piece_bounds [OF less.prems(2), of "min (ReadCount (buf c)) left"] False less.prems(3)
      by (simp_all add: l_def)
    obtain n xs where n: "rd (position c) l = (n, xs)"
      by fastforce
    have xs: "n \<le> int l" "xs = take (nat n) (drop (position c) F)" "length xs = nat n"
      using rd n by (metis fst_conv snd_conv reads_file_def)+
    define c1 where "c1 = c\<lparr>position := position c + nat n, AF_error := n < int l,
      summed := summed c @ (if doCsum \<and> 0 < n then [xs] else []), buf := put_piece (buf c) xs\<rparr>"
    have p: "puts (buf c) xs (put_piece (buf c) xs)"
      using l(3) xs(1,3) by (intro puts_piece) simp
    have step: "copy_loop rd unset doCsum i left c = copy_loop rd unset doCsum (i + 1) (left - nat n) c1"
      unfolding c1_def by (rule copy_loop_step(2) [where rd = rd, OF False l_def [symmetric] less.prems(1) n])
    have io: "bufIn (buf c1) < bufSize (buf c1)" "0 < ReadCount (buf c1)"
      using puts_state [OF p less.prems(2)] less.prems by (simp_all add: c1_def)
    show ?thesis
    proof (cases "n < int l")
      case True
      then obtain ps ar' where z: "copy_loop rd unset doCsum (i + 1) (left - nat n) c1 =
          Some (c1\<lparr>summed := summed c1 @ ps, buf := ar'\<rparr>)" "puts (buf c1) (replicate (left - nat n) NUL) ar'"
        "concat ps = (if doCsum then replicate (left - nat n) NUL else [])"
        using copy_loop_zeros [of c1 unset rd doCsum "i + 1" "left - nat n"] u io by (auto simp: c1_def)
      have "puts (buf c) (xs @ replicate (left - nat n) NUL) ar'"
        using z(2) by (intro puts_trans [OF p]) (simp add: c1_def)
      moreover have "nat n < left"
        using True l by linarith
      ultimately have "loop_result F doCsum left c (copy_loop rd unset doCsum i left c) (nat n)
          ((if doCsum \<and> 0 < n then [xs] else []) @ ps) ar'"
        unfolding step using z xs True l(2) by (auto simp: loop_result_def c1_def)
      then show ?thesis
        by blast
    next
      case False
      then have nl: "n = int l" "nat n = l"
        using xs(1) by simp_all
      have c1: "c1 = c\<lparr>position := position c + l, AF_error := False,
          summed := summed c @ (if doCsum \<and> 0 < l then [xs] else []), buf := put_piece (buf c) xs\<rparr>"
        using nl by (simp add: c1_def)
      obtain e ps ar' where r: "loop_result F doCsum (left - l) c1 (copy_loop rd unset doCsum (i + 1) (left - l) c1) e ps ar'"
        using less.IH [of "left - l" c1 "i + 1"] l io c1 by auto
      show ?thesis
        using loop_result_read [OF r c1 l_def l(1,2) _ _ p less.prems(2)] xs(2,3) step nl by auto
    qed
  qed
qed

text \<open>The data of a regular file and the zeros behind it, when the buffer is at a record boundary.\<close>

definition regular :: "disk_inode \<Rightarrow> bool" where
  "regular dp \<longleftrightarrow> S_ISREG (di_mode dp) \<and> \<not> seg_file dp"

lemma regular_kind:
  assumes "regular dp"
  shows "\<not> S_ISLNK (di_mode dp)" "\<not> S_ISSEGI dp" "\<not> S_ISREQ (di_mode dp)" "\<not> S_ISDIR (di_mode dp)"
    "file_size dp = di_size dp"
  using assms by (auto simp: regular_def S_ISREG_def S_ISLNK_def S_ISSEGI_def S_ISREQ_def S_ISDIR_def file_size_def)

text \<open>
  What is in the archive of a file with content \<open>F\<close>: the file, or after an error a part of it and zeros,
  in any case as many bytes as the header says.
\<close>

definition copied_data :: "string \<Rightarrow> disk_inode \<Rightarrow> nat \<Rightarrow> bool \<Rightarrow> copying \<Rightarrow> string \<Rightarrow> bool" where
  "copied_data F dp n whole c' D \<longleftrightarrow>
     length D = n \<and> (\<exists>k \<le> length F. D = take k F @ replicate (n - k) NUL) \<and>
     (\<not> AF_error c' \<longrightarrow> D = F \<and>
       (cs_gen dp \<and> cs_algo dp \<le> 2 \<longrightarrow> AF_csummed c' \<and> concat (summed c') = F \<and>
         (whole \<longrightarrow> (\<forall>x \<in> set (butlast (summed c')). 16 dvd length x))))"

lemma copyRegular_data:
  assumes rd: "reads_file F rd" and u: "\<And>i. unset i" and c: "\<not> AF_error c" "position c = 0" "summed c = []"
    and io: "bufIn (buf c) < bufSize (buf c)" "0 < ReadCount (buf c)"
  shows "\<exists>c' D. copyRegular rd unset (cs_gen dp) (cs_algo dp) False c = Some c' \<and> puts (buf c) D (buf c') \<and>
    copied_data F dp (AfFileSize c) (sums_16 (buf c)) c' D \<and> AfOffset c' = AfOffset c \<and> AfFileSize c' = AfFileSize c \<and> hstate c' = hstate c"
proof -
  define doCsum where "doCsum = (cs_gen dp \<and> cs_algo dp \<le> 2)"
  define c0 where "c0 = (if doCsum then c\<lparr>AF_csummed := True\<rparr> else c)"
  have c0: "\<not> AF_error c0" "position c0 = 0" "summed c0 = []" "buf c0 = buf c" "AfOffset c0 = AfOffset c"
    "AfFileSize c0 = AfFileSize c" "hstate c0 = hstate c" "doCsum \<Longrightarrow> AF_csummed c0"
    using c by (simp_all add: c0_def)
  obtain e ps ar' where r: "loop_result F doCsum (AfFileSize c) c0 (copy_loop rd unset doCsum 0 (AfFileSize c) c0) e ps ar'"
    using copy_loop_file [where F = F and rd = rd and unset = unset and c = c0 and doCsum = doCsum
        and left = "AfFileSize c" and i = 0] rd u c0(1) io c0(4) by auto
  let ?D = "take e F @ replicate (AfFileSize c - e) NUL"
  define c1 where "c1 = c0\<lparr>position := e, AF_error := e \<noteq> AfFileSize c, summed := ps, buf := ar'\<rparr>"
  define c' where "c' = (if e = AfFileSize c
    then c1\<lparr>position := e + nat (fst (rd e 1)), AF_error := fst (rd e 1) \<noteq> 0\<rparr> else c1)"
  have res: "copyRegular rd unset (cs_gen dp) (cs_algo dp) False c = Some c'"
    using r c0 by (simp add: copyRegular_def loop_result_def c'_def c1_def Let_def flip: doCsum_def c0_def)
  have D: "length ?D = AfFileSize c" "e \<le> length F" "puts (buf c) ?D ar'" "concat ps = (if doCsum then ?D else [])"
    using r c0 by (auto simp: loop_result_def)
  have "?D = F" if "\<not> AF_error c'"
  proof -
    have "e = AfFileSize c" "fst (rd e 1) = 0"
      using that by (auto simp: c'_def c1_def split: if_splits)
    moreover have "length F \<le> e"
      using rd calculation(2) unfolding reads_file_def by (metis zero_less_one)
    ultimately show ?thesis
      by simp
  qed
  moreover have "\<forall>x \<in> set (butlast ps). 16 dvd length x" if "\<not> AF_error c'" "sums_16 (buf c)"
    using that r c0(4) by (auto simp: c'_def c1_def loop_result_def split: if_splits)
  moreover have "summed c' = ps" "buf c' = ar'" "AfOffset c' = AfOffset c" "AfFileSize c' = AfFileSize c"
    "hstate c' = hstate c" "doCsum \<Longrightarrow> AF_csummed c'"
    using c0 by (simp_all add: c'_def c1_def)
  ultimately have "copied_data F dp (AfFileSize c) (sums_16 (buf c)) c' ?D"
    using D by (auto simp: copied_data_def simp flip: doCsum_def)
  then show ?thesis
    using res D(3) \<open>buf c' = ar'\<close> \<open>AfOffset c' = AfOffset c\<close> \<open>AfFileSize c' = AfFileSize c\<close> \<open>hstate c' = hstate c\<close>
    by blast
qed

lemma round_file_puts:
  assumes a: "aligned ar" and p: "puts ar D (buf c)"
  shows "\<exists>ar'. round_file c = Some (c\<lparr>buf := ar'\<rparr>) \<and> puts ar (padded_data D) ar' \<and> aligned ar'"
proof -
  have io: "bufIn ar < bufSize ar"
    using a by (simp add: aligned_def)
  note s1 = puts_state [OF p io]
  have io1: "bufIn (buf c) < bufSize (buf c)"
    using s1 io by simp
  have off: "fileOffset (buf c) mod 512 = length D mod 512"
    using s1(3) a by (auto simp: aligned_def)
  obtain ws ar' where r: "RoundBuffer (buf c) 512 = Some (ws, ar')"
    "puts (buf c) (replicate ((512 - length D mod 512) mod 512) NUL) ar'"
    using RoundBuffer_puts [OF io1 off] by blast
  have "puts ar (padded_data D) ar'"
    unfolding padded_data_def by (rule puts_trans [OF p r(2)])
  then show ?thesis
    using puts_aligned [OF _ a] length_padded_data(1) r(1)
    by (intro exI [of _ ar']) (simp add: round_file_def)
qed

text \<open>The buffer after \<open>beginArchiveFile\<close>, and the state in which \<open>CopyFile\<close> starts.\<close>

definition begun :: "copying \<Rightarrow> arcopy" where
  "begun c = (if fileOffset (buf c) = 0 then beginArchiveFile (buf c) else buf c)"

definition copy_ready :: "copy_env \<Rightarrow> copying \<Rightarrow> bool" where
  "copy_ready e c \<longleftrightarrow> \<not> AF_error c \<and> position c = 0 \<and> summed c = [] \<and>
     writing (passwd e) (group e) (hstate c, buf c)"

lemma begun_aligned: "copy_ready e c \<Longrightarrow> aligned (begun c)"
  by (auto simp: copy_ready_def writing_def begun_def aligned_def beginArchiveFile_def)

lemma fileOffset_begun: "fileOffset (begun c) = fileOffset (buf c)"
  by (simp add: begun_def beginArchiveFile_def)

text \<open>The data behind a header.\<close>

lemma copy_rest:
  assumes rd: "reads_file F (reads e)" and u: "\<And>i. unset_flag e i" and dp: "regular dp" and f: "\<not> stagesim e"
    and c: "\<not> AF_error c" "position c = 0" "summed c = []" and a: "aligned (buf c)"
  shows "\<exists>c' D. Option.bind (copy_data e dp c) round_file = Some c' \<and> puts (buf c) (padded_data D) (buf c') \<and>
    aligned (buf c') \<and> copied_data F dp (AfFileSize c) (sums_16 (buf c)) c' D \<and> AfOffset c' = AfOffset c \<and> hstate c' = hstate c"
proof -
  have io: "bufIn (buf c) < bufSize (buf c)" "0 < ReadCount (buf c)"
    using a by (simp_all add: aligned_def)
  obtain c1 D where c1: "copyRegular (reads e) (unset_flag e) (cs_gen dp) (cs_algo dp) False c = Some c1"
    "puts (buf c) D (buf c1)" "copied_data F dp (AfFileSize c) (sums_16 (buf c)) c1 D" "AfOffset c1 = AfOffset c" "hstate c1 = hstate c"
    using copyRegular_data [OF rd _ c io, of "unset_flag e" dp] u by blast
  obtain ar' where "round_file c1 = Some (c1\<lparr>buf := ar'\<rparr>)" "puts (buf c) (padded_data D) ar'" "aligned ar'"
    using round_file_puts [OF a c1(2)] by blast
  then show ?thesis
    using c1 regular_kind [OF dp] f
    by (intro exI [of _ "c1\<lparr>buf := ar'\<rparr>"] exI [of _ D]) (simp add: copy_data_def copied_data_def)
qed

section \<open>Properties\<close>


definition sample_reads :: "string \<Rightarrow> reader" where
  "sample_reads F p l = (let xs = take l (drop p F) in (int (length xs), xs))"

lemma sample_reads_file: "reads_file F (sample_reads F)"
  by (auto simp: reads_file_def sample_reads_def Let_def min_def)

definition sample_env :: copy_env where
  "sample_env =
     \<lparr>format = (LEGACY_FORMAT, False), clock = (\<lambda>_. 0), now = 0, passwd = (\<lambda>_. None), group = (\<lambda>_. None),
      hdr_mem = [], hdr_junk = ([], 0), big_endian = False, reads = sample_reads ''abc'', unset_flag = (\<lambda>_. True),
      old_link = [], link_target = [], record_data = None, file_name = ''f'', tarheader = True, stagesim = False,
      simread = None, dev_zero = True\<rparr>"

definition sample_inode :: disk_inode where
  "sample_inode =
     \<lparr>di_mode = 0x81a4, di_uid = 0, di_gid = 0, di_size = 3, rmfile = 0, seg_fsize = 0, seg_file = False,
      access_time = 0, modify_time = 0, change_time = 0, cs_gen = True, cs_algo = 1, di_id = (7, 1)\<rparr>"

definition sample_copying :: copying where
  "sample_copying =
     \<lparr>buf = snd start_state, hstate = fst start_state, AfFileSize = 0, AfOffset = 0, AF_error = False,
      AF_csummed = False, position = 0, summed = []\<rparr>"


definition stuck_copy :: "(nat \<Rightarrow> bool) \<Rightarrow> nat \<Rightarrow> copying \<Rightarrow> bool" where
  "stuck_copy unset left c \<longleftrightarrow> (\<forall>i. \<not> unset i) \<and> AF_error c \<and> left \<noteq> 0"

lemma copy_loop_stuck:
  assumes "copy_loop rd unset doCsum i left c = Some y"
  shows "\<not> stuck_copy unset left c"
proof (rule copy_loop.raw_induct [where P = "\<lambda>rd unset doCsum i left c y. \<not> stuck_copy unset left c", OF _ assms])
  fix f :: "reader \<Rightarrow> (nat \<Rightarrow> bool) \<Rightarrow> bool \<Rightarrow> nat \<Rightarrow> nat \<Rightarrow> copying \<Rightarrow> copying option"
  fix rd unset doCsum i left and c y :: copying
  assume IH: "\<And>rd unset doCsum i left c y. f rd unset doCsum i left c = Some y \<Longrightarrow> \<not> stuck_copy unset left c"
  let ?z = "replicate (piece (buf c) (min (ReadCount (buf c)) left)) NUL"
  let ?c = "(if doCsum \<and> 0 < int (length ?z) then c\<lparr>summed := summed c @ [?z]\<rparr> else c)\<lparr>buf := copy_in (buf c) ?z\<rparr>"
  assume "(if left = 0 then Some c else
      (let l = piece (buf c) (min (ReadCount (buf c)) left);
           (n, xs) = (if AF_error c then (int l, replicate l NUL) else rd (position c) l);
           dataRead = (if AF_error c then unset i else True);
           c1 = (if AF_error c then c else c\<lparr>position := position c + nat n, AF_error := n < int l\<rparr>);
           c2 = (if doCsum \<and> 0 < n then c1\<lparr>summed := summed c1 @ [xs]\<rparr> else c1)
       in if dataRead then f rd unset doCsum (i + 1) (left - nat n) (c2\<lparr>buf := put_piece (buf c) xs\<rparr>)
          else f rd unset doCsum (i + 1) left (c2\<lparr>buf := copy_in (buf c) xs\<rparr>))) = Some y"
  then have "f rd unset doCsum (i + 1) left ?c = Some y" if "stuck_copy unset left c"
    using that by (simp add: stuck_copy_def Let_def)
  moreover have "stuck_copy unset left ?c" if "stuck_copy unset left c"
    using that by (simp add: stuck_copy_def)
  ultimately show "\<not> stuck_copy unset left c"
    using IH by blast
qed

text \<open>
  C40.
  The flag that is not set in the error branch of \<open>copyRegular\<close>. If it is false, the loop
  never ends once a read of a file has failed: there is no result, whatever the file and
  the buffer.
\<close>

theorem copy_error_never_returns:
  assumes "AF_error c" and "left \<noteq> 0"
  shows "copy_loop rd (\<lambda>_. False) doCsum i left c = None"
  using copy_loop_stuck [of rd "\<lambda>_. False" doCsum i left c] assms
  by (cases "copy_loop rd (\<lambda>_. False) doCsum i left c") (simp_all add: stuck_copy_def)

theorem copy_error_never_returns_witness:
  "copy_loop (\<lambda>_ _. (- 1, [])) (\<lambda>_. False) True 0 5 (sample_copying\<lparr>AF_error := True\<rparr>) = None"
  using copy_error_never_returns [of "sample_copying\<lparr>AF_error := True\<rparr>" 5] by simp

end
