(* ===== verification/Stage_Read.thy ===== *)
theory Stage_Read
  imports Archive_Copy
begin

text \<open>
  How the stager reads a copy (src/src/stager/copy/archive\_read.c, error\_retry.c): the block and
  the offset at which \<open>ArchiveRead\<close> starts, \<open>readBlock\<close> with its retries, and
  \<open>validateTarHeader\<close> with the functions it calls, which checks the header of the copy against
  the request and moves the offset behind it. The theorems connect it to the archiver: the headers
  that \<open>buildPaxHeader\<close> and \<open>buildLegacyHeader\<close> write are accepted, also when they continue
  in the next block.
\<close>

section \<open>The request\<close>

text \<open>The flags of a request that the reader looks at.\<close>

abbreviation (input) FI_NO_TARHDR :: u32 where "FI_NO_TARHDR \<equiv> 0x4"
abbreviation (input) FI_MULTIVOL :: u32 where "FI_MULTIVOL \<equiv> 0x8"
abbreviation (input) FI_RETRY :: u32 where "FI_RETRY \<equiv> 0x20"
abbreviation (input) FI_TAR_ERROR :: u32 where "FI_TAR_ERROR \<equiv> 0x2000"
abbreviation (input) FI_STAGE_NEVER :: u32 where "FI_STAGE_NEVER \<equiv> 0x8000"
abbreviation (input) FI_STAGE_PARTIAL :: u32 where "FI_STAGE_PARTIAL \<equiv> 0x10000"
abbreviation (input) FI_PAX_TARHDR :: u32 where "FI_PAX_TARHDR \<equiv> 0x200000"

definition GET_FLAG :: "u32 \<Rightarrow> u32 \<Rightarrow> bool" where
  "GET_FLAG flags f \<longleftrightarrow> flags AND f \<noteq> 0"

text \<open>
  The file being staged and its copy: \<open>section_position\<close> is the block at which the archive
  file starts on the medium, \<open>section_offset\<close> counts records of 512 bytes. All numbers are
  below \<open>2 ^ 63\<close>.
\<close>

record stage_file =
  file_flags :: u32
  file_len :: nat
  file_offset :: nat
  residlen :: nat
  write_off :: nat
  file_retry :: int
  n_vsns :: nat
  section_length :: nat
  section_position :: nat
  section_offset :: nat

section \<open>The first block\<close>

text \<open>The static variables of the reader, and what it changes of the file.\<close>

record reader_vars =
  filePos :: int
  fileOff :: int
  noTarhdr :: bool
  paxTarhdr :: bool
  dataToRead :: int
  rflags :: u32
  retry :: int
  bytes_read :: int

text \<open>Conversion to a 32-bit int, and division as C has it.\<close>

definition c_int :: "int \<Rightarrow> int" where
  "c_int n = sint (word_of_int n :: u32)"

definition c_div :: "int \<Rightarrow> int \<Rightarrow> int" where
  "c_div a b = (if a < 0 then - (- a div b) else a div b)"

text \<open>
  The amount to read. A request of a multivolume file with the stage -n attribute skips the
  sections before its offset. The result is the amount and the changed request.
\<close>

definition data_to_read :: "stage_file \<Rightarrow> int \<times> stage_file" where
  "data_to_read file =
     (if 1 < n_vsns file \<and> GET_FLAG (file_flags file) FI_STAGE_NEVER
      then (if section_length file \<le> file_offset file
            then (0, file\<lparr>file_offset := file_offset file - section_length file\<rparr>)
            else (let n = (if section_length file < file_offset file + residlen file
                           then section_length file - file_offset file else residlen file)
                  in (int n, file\<lparr>residlen := residlen file - n\<rparr>)))
      else (int (if section_length file < file_len file then section_length file else file_len file), file))"

text \<open>
  After a failure of another copy the data that was already written is skipped, and there is no
  header to validate.
\<close>

definition skip_written :: "int \<Rightarrow> stage_file \<Rightarrow> int \<times> bool \<times> stage_file" where
  "skip_written n file =
     (if GET_FLAG (file_flags file) FI_RETRY \<and> 0 < write_off file
      then ((if section_length file < file_len file
             then (if write_off file \<le> file_len file \<and> file_len file - write_off file \<le> section_length file
                   then int (file_len file - write_off file) else int (section_length file))
             else n - int (write_off file)),
            True, file\<lparr>file_offset := file_offset file + write_off file\<rparr>)
      else (n, GET_FLAG (file_flags file) FI_NO_TARHDR, file))"

text \<open>
  The first block and the offset in it. The offset of a copy is that of the data for a star
  header and that of the header for a pax header.
\<close>

definition start_vars :: "bool \<Rightarrow> nat \<Rightarrow> int \<Rightarrow> bool \<Rightarrow> stage_file \<Rightarrow> reader_vars" where
  "start_vars diskarch blockSize n nohdr file =
     (let pax = GET_FLAG (file_flags file) FI_PAX_TARHDR;
          star = (\<not> nohdr \<and> \<not> pax);
          so = int (section_offset file);
          blockOff = c_div ((if star then so - 1 else so) * 512 + int (file_offset file)) (int blockSize);
          off = c_int (so * 512 + int (file_offset file) - blockOff * int blockSize)
      in \<lparr>filePos = c_int (if diskarch then blockOff else c_int (int (section_position file)) + blockOff),
          fileOff = (if star then off - 512 else off),
          noTarhdr = nohdr, paxTarhdr = pax, dataToRead = n, rflags = file_flags file,
          retry = file_retry file, bytes_read = 0\<rparr>)"

text \<open>There is nothing to do (\<^const>\<open>None\<close>) for an empty section.\<close>

definition ArchiveRead_start :: "bool \<Rightarrow> nat \<Rightarrow> stage_file \<Rightarrow> reader_vars option \<times> stage_file" where
  "ArchiveRead_start diskarch blockSize file =
     (case data_to_read file of (n, file1) \<Rightarrow>
        if n = 0 then (None, file1)
        else (case skip_written n file1 of (n', nohdr, file2) \<Rightarrow>
          (Some (start_vars diskarch blockSize n' nohdr file2), file2)))"

section \<open>Reading a block\<close>

text \<open>
  Error numbers of the system. A read of the device is a function of the block and of the number
  of attempts: the return value, \<open>errno\<close> and the bytes it has stored.
\<close>

abbreviation (input) EPERM :: int where "EPERM \<equiv> 1"
abbreviation (input) EINTR :: int where "EINTR \<equiv> 4"
abbreviation (input) EIO :: int where "EIO \<equiv> 5"
abbreviation (input) ENODEV :: int where "ENODEV \<equiv> 19"
abbreviation (input) ENOSPC :: int where "ENOSPC \<equiv> 28"
abbreviation (input) EREMCHG :: int where "EREMCHG \<equiv> 78"
abbreviation (input) ENOTSUP :: int where "ENOTSUP \<equiv> 95"
abbreviation (input) ECANCELED :: int where "ECANCELED \<equiv> 125"

type_synonym device = "int \<Rightarrow> nat \<Rightarrow> int \<times> int \<times> string"

definition isRetryError :: "int \<Rightarrow> bool" where
  "isRetryError error \<longleftrightarrow> error \<notin> {ECANCELED, EINTR, EREMCHG, ENOSPC, EPERM, ENOTSUP, ENODEV}"

definition IfRetry :: "bool \<Rightarrow> int \<Rightarrow> int \<Rightarrow> bool \<times> int" where
  "IfRetry stk5800 left errorNum =
     (if stk5800 then (False, left)
      else if isRetryError errorNum then (0 \<le> left - 1, left - 1)
      else (False, left))"

text \<open>
  \<open>readBlock\<close>: \<open>old\<close> is the place in the buffer. The result is the return value, \<open>errno\<close>,
  the variables and what is then in the buffer.
\<close>

function readBlock :: "device \<Rightarrow> bool \<Rightarrow> nat \<Rightarrow> reader_vars \<Rightarrow> string \<Rightarrow> int \<times> int \<times> reader_vars \<times> string" where
  "readBlock dev stk5800 i rv old =
     (case dev (filePos rv) i of (ngot, e, xs) \<Rightarrow>
        let new = overwrite old 0 (take (nat ngot) xs)
        in if ngot = int (length old) \<or> 0 < ngot \<and> dataToRead rv \<le> ngot \<and> e = 0
           then (0, e, rv\<lparr>bytes_read := bytes_read rv + ngot\<rparr>, new)
           else (let e' = (if e = 0 then EIO else e); (again, left) = IfRetry stk5800 (retry rv) e'
                 in if again then readBlock dev stk5800 (i + 1) (rv\<lparr>retry := left\<rparr>) new
                    else (- 1, e', rv\<lparr>retry := left\<rparr>, new)))"
  by pat_completeness auto

termination
  by (relation "measure (\<lambda>(dev, stk5800, i, rv, old). nat (retry rv))")
    (auto simp: IfRetry_def split: if_splits)

declare readBlock.simps [simp del]

section \<open>The header\<close>

definition ifVerifyFileSizeInTarhdr :: "u32 \<Rightarrow> bool" where
  "ifVerifyFileSizeInTarhdr fl \<longleftrightarrow>
     \<not> (GET_FLAG fl FI_MULTIVOL \<or> GET_FLAG fl FI_STAGE_NEVER \<or> GET_FLAG fl FI_STAGE_PARTIAL)"

abbreviation (input) OLDHDRMAX :: int where
  "OLDHDRMAX \<equiv> 0x3fffffff"

text \<open>The size in the header is unsigned; the comparison with the request converts the request.\<close>

definition validateStarFileSize :: "u32 \<Rightarrow> string \<Rightarrow> int \<Rightarrow> bool" where
  "validateStarFileSize fl hdr reqSize =
     (if \<not> ifVerifyFileSizeInTarhdr fl then True
      else
        (let tarFileSize = llfrom_str 12 (drop 124 hdr)
         in if tarFileSize \<noteq> word_of_int reqSize
            then (if reqSize \<le> OLDHDRMAX then False else tarFileSize = word_of_int (reqSize AND OLDHDRMAX))
            else True))"

definition isStarHeader :: "u32 \<Rightarrow> string \<Rightarrow> int \<Rightarrow> bool" where
  "isStarHeader fl ptr reqSize \<longleftrightarrow> take 8 (drop 257 ptr) = TMAGIC @ [NUL] \<and> validateStarFileSize fl ptr reqSize"

definition isPaxTarHeader :: "c_errno option \<Rightarrow> u32 \<Rightarrow> string \<Rightarrow> int \<Rightarrow> bool" where
  "isPaxTarHeader en fl buffer reqSize =
     (case ph_is_pax_hdr en buffer of (type, hdrSize) \<Rightarrow>
        if type \<noteq> PX_SUCCESS_EXT_HEADER then False
        else if ifVerifyFileSizeInTarhdr fl
        then (case ph_load_pax_hdr en ph_create_hdr buffer (hdrSize + 512) of (rval, hdr) \<Rightarrow>
                rval = PX_SUCCESS \<and>
                (case ph_get_size hdr of (rval', tarFileSize, _) \<Rightarrow>
                   rval' = PX_SUCCESS \<and> sint tarFileSize = reqSize))
        else True)"

definition isTarHeader :: "c_errno option \<Rightarrow> reader_vars \<Rightarrow> string \<Rightarrow> bool \<times> reader_vars" where
  "isTarHeader en rv buffer =
     (let valid = (if paxTarhdr rv then isPaxTarHeader en (rflags rv) buffer (dataToRead rv)
                   else isStarHeader (rflags rv) buffer (dataToRead rv))
      in (valid, if valid then rv else rv\<lparr>rflags := rflags rv OR FI_TAR_ERROR\<rparr>))"

definition getTarHeaderSize :: "c_errno option \<Rightarrow> reader_vars \<Rightarrow> string \<Rightarrow> nat" where
  "getTarHeaderSize en rv buffer =
     (if noTarhdr rv then 0
      else if paxTarhdr rv then snd (ph_is_pax_hdr en buffer) + 512 else 512)"

text \<open>
  \<open>blk\<close> is the block in the buffer and \<open>again\<close> reads the next one to the same place. The result
  is the return value, the residual, the variables and what is then in the buffer. It is
  \<^const>\<open>None\<close> when the header does not start in the block, when its first record is not
  complete, and when its size is no int or needs more than the next block: the code then works on
  memory outside of the block.
\<close>

definition validateTarHeader :: "c_errno option \<Rightarrow> (reader_vars \<Rightarrow> string \<Rightarrow> int \<times> int \<times> reader_vars \<times> string) \<Rightarrow>
    reader_vars \<Rightarrow> string \<Rightarrow> (int \<times> int \<times> reader_vars \<times> string) option" where
  "validateTarHeader en again rv blk =
     (if noTarhdr rv then Some (0, int (length blk) - fileOff rv, rv, blk)
      else if fileOff rv < 0 \<or> int (length blk) < fileOff rv + 512 \<and> paxTarhdr rv then None
      else
        (let buffer = drop (nat (fileOff rv)) blk;
             bufLen = length buffer;
             hsize = getTarHeaderSize en rv buffer
         in if 2 ^ 31 \<le> hsize then None
            else if bufLen < hsize
            then (case again (rv\<lparr>filePos := filePos rv + 1\<rparr>) blk of (retval, _, rv1, blk') \<Rightarrow>
                    let rv2 = rv1\<lparr>fileOff := 0\<rparr>; rest = hsize - bufLen
                    in if retval \<noteq> 0 then Some (retval, int (length blk), rv2, blk')
                       else if length blk < rest then None
                       else (case isTarHeader en rv2 (buffer @ take rest blk') of (valid, rv3) \<Rightarrow>
                         if valid then Some (0, int (length blk) - int rest, rv3\<lparr>fileOff := int rest\<rparr>, blk')
                         else Some (- 1, int (length blk), rv3, blk')))
            else (case isTarHeader en rv buffer of (valid, rv1) \<Rightarrow>
              if valid then Some (0, int bufLen - int hsize, rv1\<lparr>fileOff := fileOff rv + int hsize\<rparr>, blk)
              else Some (- 1, int bufLen, rv1, blk))))"

section \<open>Blocks of the medium: lemmas\<close>

text \<open>
  What is in the buffer after a block of the medium \<open>M\<close> was read: the end of the medium may cut
  the block. A device that reads the medium returns nothing, an error or the block.
\<close>

definition holds_block :: "nat \<Rightarrow> string \<Rightarrow> nat \<Rightarrow> string \<Rightarrow> bool" where
  "holds_block bs M p blk \<longleftrightarrow> length blk = bs \<and> take (length M - p * bs) blk = take bs (drop (p * bs) M)"

definition reads_medium :: "nat \<Rightarrow> string \<Rightarrow> device \<Rightarrow> bool" where
  "reads_medium bs M dev \<longleftrightarrow> (\<forall>p i. case dev p i of (ngot, e, xs) \<Rightarrow>
     ngot \<le> 0 \<or> 0 \<le> p \<and> ngot = int (length xs) \<and> xs = take bs (drop (nat p * bs) M))"

lemma holds_block_part:
  assumes "holds_block bs M p blk" "off + k \<le> bs" "p * bs + off + k \<le> length M"
  shows "take k (drop off blk) = take k (drop (p * bs + off) M)"
proof -
  have "take k (drop off (take (length M - p * bs) blk)) = take k (drop off (take bs (drop (p * bs) M)))"
    using assms(1) by (simp add: holds_block_def)
  moreover have "min k (length M - p * bs - off) = k" "min k (bs - off) = k"
    using assms(2,3) by linarith+
  ultimately show ?thesis
    by (simp add: drop_take add.commute [of off])
qed

text \<open>Reading a block changes only these variables of the reader.\<close>

definition read_only :: "reader_vars \<Rightarrow> reader_vars \<Rightarrow> bool" where
  "read_only rv rv' \<longleftrightarrow> rv' = rv\<lparr>retry := retry rv', bytes_read := bytes_read rv'\<rparr>"

lemma read_only_simps [simp]:
  "read_only (rv :: reader_vars) rv" "read_only (rv :: reader_vars) (rv\<lparr>retry := r\<rparr>)"
  "read_only (rv :: reader_vars) (rv\<lparr>bytes_read := b\<rparr>)"
  "read_only (rv\<lparr>retry := r\<rparr>) rv' \<longleftrightarrow> read_only rv rv'"
  by (cases rv; simp add: read_only_def)+

lemma read_onlyD:
  assumes "read_only rv rv'"
  shows "filePos rv' = filePos rv" "fileOff rv' = fileOff rv" "noTarhdr rv' = noTarhdr rv"
    "paxTarhdr rv' = paxTarhdr rv" "dataToRead rv' = dataToRead rv" "rflags rv' = rflags rv"
proof -
  note e = assms [unfolded read_only_def]
  show "filePos rv' = filePos rv" "fileOff rv' = fileOff rv" "noTarhdr rv' = noTarhdr rv"
    "paxTarhdr rv' = paxTarhdr rv" "dataToRead rv' = dataToRead rv" "rflags rv' = rflags rv"
    using arg_cong [OF e, of filePos] arg_cong [OF e, of fileOff] arg_cong [OF e, of noTarhdr]
      arg_cong [OF e, of paxTarhdr] arg_cong [OF e, of dataToRead] arg_cong [OF e, of rflags] by simp_all
qed

lemma readBlock_medium:
  assumes "reads_medium bs M dev" "length old = bs" "0 < bs" "readBlock dev stk i rv old = (r, e, rv', new)"
  shows "length new = bs \<and> read_only rv rv' \<and>
    (r = 0 \<and> 0 \<le> filePos rv \<and> holds_block bs M (nat (filePos rv)) new \<or> r = - 1 \<and> e \<noteq> 0)"
  using assms
proof (induction dev stk i rv old arbitrary: r e rv' new rule: readBlock.induct)
  case (1 dev stk i rv old)
  obtain ngot en xs where d: "dev (filePos rv) i = (ngot, en, xs)"
    by (metis prod_cases3)
  let ?new = "overwrite old 0 (take (nat ngot) xs)" and ?e = "if en = 0 then EIO else en"
  obtain again left where ir: "IfRetry stk (retry rv) ?e = (again, left)"
    by (metis prod.collapse)
  have got: "ngot \<le> 0 \<or> 0 \<le> filePos rv \<and> ngot = int (length xs) \<and> xs = take bs (drop (nat (filePos rv) * bs) M)"
    using spec [OF spec [OF 1(2) [unfolded reads_medium_def], of "filePos rv"], of i] d by simp
  then have l: "length (take (nat ngot) xs) \<le> bs"
    by (auto simp: min_def)
  then have len: "length ?new = bs"
    using 1(3) by simp
  show ?case
  proof (cases "ngot = int (length old) \<or> 0 < ngot \<and> dataToRead rv \<le> ngot \<and> en = 0")
    case True
    then have pos: "0 < ngot"
      using 1(3,4) by auto
    then have xs: "0 \<le> filePos rv" "nat ngot = length xs" "xs = take bs (drop (nat (filePos rv) * bs) M)"
      using got by auto
    have "holds_block bs M (nat (filePos rv)) ?new"
    proof (cases "bs \<le> length M - nat (filePos rv) * bs")
      case True
      then show ?thesis
        using xs 1(3) len by (simp add: holds_block_def overwrite_def)
    next
      case False
      then show ?thesis
        using xs 1(3) len by (simp add: holds_block_def overwrite_def)
    qed
    then show ?thesis
      using True 1(5) xs(1) len unfolding readBlock.simps [of dev stk i rv old] d
      by (auto simp: Let_def)
  next
    case False
    show ?thesis
    proof (cases again)
      case True
      have "length new = bs \<and> read_only (rv\<lparr>retry := left\<rparr>) rv' \<and>
        (r = 0 \<and> 0 \<le> filePos (rv\<lparr>retry := left\<rparr>) \<and> holds_block bs M (nat (filePos (rv\<lparr>retry := left\<rparr>))) new \<or> r = - 1 \<and> e \<noteq> 0)"
        using 1(5) False True d ir unfolding readBlock.simps [of dev stk i rv old]
        by (intro 1(1) [OF d [symmetric] refl refl False refl refl ir [symmetric] True 1(2) len 1(4)])
          (simp add: Let_def)
      then show ?thesis
        by simp
    next
      case no: False
      then show ?thesis
        using 1(5) False d ir len unfolding readBlock.simps [of dev stk i rv old]
        by (auto simp: Let_def split: if_splits)
    qed
  qed
qed

section \<open>Skipping a header: lemmas\<close>

text \<open>The reader has a block in the buffer and stands at the byte \<open>x\<close> of the medium.\<close>

definition reader_at :: "nat \<Rightarrow> string \<Rightarrow> reader_vars \<Rightarrow> string \<Rightarrow> nat \<Rightarrow> bool" where
  "reader_at bs M rv blk x \<longleftrightarrow> 0 \<le> filePos rv \<and> 0 \<le> fileOff rv \<and> fileOff rv \<le> int bs \<and>
     x = nat (filePos rv) * bs + nat (fileOff rv) \<and> holds_block bs M (nat (filePos rv)) blk"

text \<open>
  A format of headers: the size is found in what is left of the first block, and the complete
  header is accepted for a request of the right size.
\<close>

locale header_format =
  fixes pax :: bool and is_header :: "string \<Rightarrow> int \<Rightarrow> bool"
  assumes header_size: "is_header H n \<Longrightarrow> \<not> noTarhdr rv \<Longrightarrow> paxTarhdr rv = pax \<Longrightarrow> (pax \<longrightarrow> 512 \<le> k) \<Longrightarrow>
      getTarHeaderSize en rv (take k H @ r) = length H"
    and header_accepted: "is_header H (dataToRead rv) \<Longrightarrow> paxTarhdr rv = pax \<Longrightarrow> isTarHeader en rv (H @ r) = (True, rv)"
begin

lemma header_here:
  assumes H: "is_header H (dataToRead rv)" and rv: "\<not> noTarhdr rv" "paxTarhdr rv = pax" "fileOff rv = int off"
    and M: "take (length H) (drop (p * bs + off) M) = H" "p * bs + off + length H \<le> length M"
    and blk: "holds_block bs M p blk" "off + length H \<le> bs" "length H < 2 ^ 31" "pax \<longrightarrow> off + 512 \<le> bs"
  shows "validateTarHeader en again rv blk =
    Some (0, int bs - int (off + length H), rv\<lparr>fileOff := int (off + length H)\<rparr>, blk)"
proof -
  have l: "length blk = bs"
    using blk(1) by (simp add: holds_block_def)
  have b: "drop off blk = H @ drop (length H) (drop off blk)"
    using holds_block_part [OF blk(1,2) M(2)] M(1) append_take_drop_id [of "length H" "drop off blk"] by simp
  then have ok: "isTarHeader en rv (drop off blk) = (True, rv)"
    using header_accepted [OF H rv(2)] by metis
  have "getTarHeaderSize en rv (take (max 512 (length H)) H @ drop (length H) (drop off blk)) = length H"
    by (rule header_size [OF H rv(1,2)]) simp
  then have "getTarHeaderSize en rv (drop off blk) = length H"
    using b by simp
  moreover have "\<not> (int bs < int off + 512 \<and> pax)" "\<not> bs - off < length H" "int (bs - off) = int bs - int off"
    using blk(2,4) by auto
  ultimately show ?thesis
    using ok rv blk(3) l by (simp add: validateTarHeader_def Let_def)
qed

lemma header_begins:
  assumes H: "is_header H (dataToRead rv)" and rv: "\<not> noTarhdr rv" "paxTarhdr rv = pax"
    and M: "take (length H) (drop (p * bs + off) M) = H" "p * bs + off + length H \<le> length M"
    and blk: "holds_block bs M p blk" "off \<le> bs" "bs < off + length H" "pax \<longrightarrow> off + 512 \<le> bs"
  shows "drop off blk = take (bs - off) H" "getTarHeaderSize en rv (drop off blk) = length H"
proof -
  let ?k = "bs - off"
  have k: "?k \<le> length H" "pax \<longrightarrow> 512 \<le> ?k"
    using blk(3,4) by auto
  have "take ?k (drop off blk) = take ?k (drop (p * bs + off) M)"
    by (rule holds_block_part [OF blk(1)]) (use blk M(2) in linarith)+
  moreover have "take ?k H = take ?k (drop (p * bs + off) M)"
    using arg_cong [OF M(1), of "take ?k"] k(1) by (simp add: min_absorb1)
  ultimately show b: "drop off blk = take ?k H"
    using blk(1) by (simp add: holds_block_def)
  show "getTarHeaderSize en rv (drop off blk) = length H"
    using header_size [OF H rv k(2), of en "[]"] b by simp
qed

lemma header_across:
  assumes H: "is_header H (dataToRead rv)" and rv: "\<not> noTarhdr rv" "paxTarhdr rv = pax" "filePos rv = int p" "fileOff rv = int off"
    and M: "take (length H) (drop (p * bs + off) M) = H" "p * bs + off + length H \<le> length M"
    and blk: "holds_block bs M p blk" "off \<le> bs" "bs < off + length H" "off + length H \<le> 2 * bs" "length H < 2 ^ 31" "pax \<longrightarrow> off + 512 \<le> bs"
    and again: "again (rv\<lparr>filePos := int p + 1\<rparr>) blk = (0, e, rv1, blk')" "read_only (rv\<lparr>filePos := int p + 1\<rparr>) rv1"
      "holds_block bs M (p + 1) blk'"
  shows "validateTarHeader en again rv blk =
    Some (0, 2 * int bs - int (off + length H), rv1\<lparr>fileOff := int (off + length H) - int bs\<rparr>, blk')"
proof -
  let ?k = "bs - off" and ?r = "off + length H - bs"
  have l: "length blk = bs" "length blk' = bs"
    using blk(1) again(3) by (simp_all add: holds_block_def)
  have k: "?k < length H" "\<not> (int bs < int off + 512 \<and> pax)"
    using blk(2,3,6) by auto
  note b = header_begins [OF H rv(1,2) M blk(1-3,6)]
  have "take ?r (drop 0 blk') = take ?r (drop ((p + 1) * bs + 0) M)"
    by (rule holds_block_part [OF again(3)]) (use blk M(2) in \<open>simp_all add: algebra_simps\<close>)
  moreover have "drop ?k H = take ?r (drop ((p + 1) * bs) M)"
    using arg_cong [OF M(1), of "drop ?k"] blk(2,3) by (simp add: drop_take algebra_simps)
  ultimately have "drop off blk @ take ?r blk' = H"
    using b(1) append_take_drop_id [of ?k H] by simp
  moreover have "length H - (bs - off) = ?r"
    using blk(2,3) by simp
  moreover have rv1: "paxTarhdr (rv1\<lparr>fileOff := 0\<rparr>) = pax" "dataToRead (rv1\<lparr>fileOff := 0\<rparr>) = dataToRead rv"
    using read_onlyD [OF again(2)] rv(2) by simp_all
  then have "isTarHeader en (rv1\<lparr>fileOff := 0\<rparr>) H = (True, rv1\<lparr>fileOff := 0\<rparr>)"
    using header_accepted [of H "rv1\<lparr>fileOff := 0\<rparr>" en "[]"] H by simp
  moreover have "int bs - int ?r = 2 * int bs - int (off + length H)" "int ?r = int (off + length H) - int bs"
    using blk(3) by simp_all
  ultimately show ?thesis
    using rv blk(4,5) k l again(1) b(2) by (simp add: validateTarHeader_def Let_def del: of_nat_add)
qed

lemma header_skipped:
  assumes H: "is_header H (dataToRead rv)" and rv: "\<not> noTarhdr rv" "paxTarhdr rv = pax" "reader_at bs M rv blk x"
    and M: "take (length H) (drop x M) = H" "x + length H \<le> length M"
    and fit: "length H < 2 ^ 31" "pax \<longrightarrow> fileOff rv + 512 \<le> int bs" "fileOff rv + int (length H) \<le> 2 * int bs"
    and dev: "reads_medium bs M dev" "0 < bs"
  shows "\<exists>r res rv' blk'. validateTarHeader en (readBlock dev stk 0) rv blk = Some (r, res, rv', blk') \<and>
    length blk' = bs \<and> 0 \<le> filePos rv' \<and> 0 \<le> fileOff rv' \<and> fileOff rv' \<le> int bs \<and> dataToRead rv' = dataToRead rv \<and>
    (r = 0 \<and> reader_at bs M rv' blk' (x + length H) \<and> res = int bs - fileOff rv' \<and> rflags rv' = rflags rv \<or>
     r = - 1 \<and> fst (readBlock dev stk 0 (rv\<lparr>filePos := filePos rv + 1\<rparr>) blk) = - 1)"
proof -
  obtain p off where p: "filePos rv = int p" "fileOff rv = int off" "x = p * bs + off" "off \<le> bs" "holds_block bs M p blk"
    using rv(3) unfolding reader_at_def by (metis nat_0_le of_nat_le_iff)
  then have l: "length blk = bs"
    by (simp add: holds_block_def)
  have fit': "pax \<longrightarrow> off + 512 \<le> bs" "off + length H \<le> 2 * bs"
    using fit(2,3) p(2) by auto
  show ?thesis
  proof (cases "off + length H \<le> bs")
    case True
    show ?thesis
      using header_here [OF H rv(1,2) p(2) _ _ p(5) True fit(1) fit'(1), where again = "readBlock dev stk 0"] M p True l
      by (simp add: reader_at_def)
  next
    case False
    obtain r e rv1 blk' where rb: "readBlock dev stk 0 (rv\<lparr>filePos := int p + 1\<rparr>) blk = (r, e, rv1, blk')"
      by (metis prod_cases4)
    note med = readBlock_medium [OF dev(1) l dev(2) rb]
    show ?thesis
    proof (cases "r = 0")
      case True
      then have m: "holds_block bs M (p + 1) blk'" "read_only (rv\<lparr>filePos := int p + 1\<rparr>) rv1" "length blk' = bs"
        using med by (simp_all add: nat_add_distrib)
      have "filePos rv1 = int p + 1" "dataToRead rv1 = dataToRead rv" "rflags rv1 = rflags rv"
        using read_onlyD [OF m(2)] by simp_all
      moreover have "validateTarHeader en (readBlock dev stk 0) rv blk =
          Some (0, 2 * int bs - int (off + length H), rv1\<lparr>fileOff := int (off + length H) - int bs\<rparr>, blk')"
        using False M p fit' fit(1) rb True m by (intro header_across [OF H rv(1,2)]) auto
      moreover have "nat (int p + 1) = p + 1" "nat (int (off + length H) - int bs) = off + length H - bs"
        by linarith+
      then have "reader_at bs M (rv1\<lparr>fileOff := int (off + length H) - int bs\<rparr>) blk' (x + length H)"
        using m(1) False fit'(2) p(3) calculation(1) by (simp add: reader_at_def)
      ultimately show ?thesis
        using m(3) by (simp add: reader_at_def)
    next
      case fail: False
      have "getTarHeaderSize en rv (drop off blk) = length H"
        using header_begins(2) [OF H rv(1,2) _ _ p(5,4)] M p(3) False fit'(1) by simp
      then show ?thesis
        using fail rb med l p rv(1,2) fit(1) fit'(1) False read_onlyD(1,5) [of "rv\<lparr>filePos := int p + 1\<rparr>" rv1]
        by (auto simp: validateTarHeader_def Let_def)
    qed
  qed
qed

end

section \<open>The formats of the archiver: lemmas\<close>

text \<open>Numbers of a header are read from the field and at most one byte behind it.\<close>

lemma skip_spaces_append:
  "0 < digs \<Longrightarrow> digs \<le> length s \<Longrightarrow>
   skip_spaces digs (s @ r) = map_option (\<lambda>(d, t). (d, t @ r)) (skip_spaces digs s) \<and>
   (\<forall>d t. skip_spaces digs s = Some (d, t) \<longrightarrow> d \<le> length t)"
  by (induction digs s rule: skip_spaces.induct) auto

lemma oct_scan_append:
  "d \<le> length s \<Longrightarrow> oct_scan d v (s @ r) = (case oct_scan d v s of (d', v', t) \<Rightarrow> (d', v', t @ r)) \<and>
   (case oct_scan d v s of (d', v', t) \<Rightarrow> d' \<le> length t)"
  by (induction d v s rule: oct_scan.induct) auto

lemma hex_scan_append:
  "d \<le> length s \<Longrightarrow> hex_scan d v (s @ r) = (case hex_scan d v s of (d', v', t) \<Rightarrow> (d', v', t @ r)) \<and>
   (case hex_scan d v s of (d', v', t) \<Rightarrow> d' \<le> length t)"
  by (induction d v s rule: hex_scan.induct) auto

lemma bad_end_append: "d \<le> length t \<Longrightarrow> bad_end d (t @ r) = bad_end d t"
  by (cases t) (auto simp: bad_end_def)

lemma scans_append:
  assumes "d \<le> length t"
  shows "(case oct_scan d 0 (t @ r) of (d', v, q) \<Rightarrow> if bad_end d' q then - 1 else v) =
      (case oct_scan d 0 t of (d', v, q) \<Rightarrow> if bad_end d' q then - 1 else v)"
    and "(case hex_scan d 0 (t @ r) of (d', v, q) \<Rightarrow> if bad_end d' q then - 1 else v) =
      (case hex_scan d 0 t of (d', v, q) \<Rightarrow> if bad_end d' q then - 1 else v)"
  using oct_scan_append [OF assms, of 0 r] hex_scan_append [OF assms, of 0 r]
  by (auto simp: bad_end_append split: prod.splits)

lemma llfrom_str_append:
  assumes "1 < digs" "digs \<le> length s"
  shows "llfrom_str digs (s @ r) = llfrom_str digs s"
proof -
  obtain c cs where s: "s = c # cs"
    using assms by (cases s) auto
  show ?thesis
  proof (cases "c = CHR ''x''")
    case True
    then show ?thesis
      using skip_spaces_append [of "digs - 1" cs r] assms s
      by (cases "skip_spaces (digs - 1) cs") (auto simp: llfrom_str_def scans_append)
  next
    case False
    then show ?thesis
      using skip_spaces_append [of digs s r] assms s
      by (cases "skip_spaces digs s") (auto simp: llfrom_str_def llfrom_oct_def scans_append)
  qed
qed

definition star_header :: "string \<Rightarrow> int \<Rightarrow> bool" where
  "star_header H n \<longleftrightarrow> length H = 512 \<and> take 8 (drop 257 H) = TMAGIC @ [NUL] \<and> llfrom_str 12 (drop 124 H) = word_of_int n"

interpretation star: header_format False star_header
proof unfold_locales
  fix H n k en r and rv :: reader_vars
  assume "star_header H n" "\<not> noTarhdr rv" "paxTarhdr rv = False"
  then show "getTarHeaderSize en rv (take k H @ r) = length H"
    by (simp add: getTarHeaderSize_def star_header_def)
next
  fix H en r and rv :: reader_vars
  assume H: "star_header H (dataToRead rv)" "paxTarhdr rv = False"
  then have "llfrom_str 12 (drop 124 (H @ r)) = word_of_int (dataToRead rv)"
    using llfrom_str_append [of 12 "drop 124 H" r] by (simp add: star_header_def)
  then show "isTarHeader en rv (H @ r) = (True, rv)"
    using H by (simp add: star_header_def isTarHeader_def isStarHeader_def validateStarFileSize_def)
qed

definition pax_header :: "string \<Rightarrow> int \<Rightarrow> bool" where
  "pax_header H n \<longleftrightarrow> (\<exists>h d nm. writable h d \<and> pax_bytes h d nm H \<and>
     size_v.holds h (word_of_int n) \<and> - (2 ^ 63) \<le> n \<and> n < 2 ^ 63)"

interpretation pax: header_format True pax_header
proof unfold_locales
  fix H n k en r and rv :: reader_vars
  assume H: "pax_header H n" "\<not> noTarhdr rv" "paxTarhdr rv = True" "True \<longrightarrow> 512 \<le> (k :: nat)"
  then obtain h where h: "length H = padded h + 1024"
    "\<And>en r. ph_is_pax_hdr en (take 512 H @ r) = (PX_SUCCESS_EXT_HEADER, padded h + 512)"
    by (auto simp: pax_header_def pax_bytes_def)
  have "take k H @ r = take 512 H @ (drop 512 (take k H) @ r)"
    using H(4) append_take_drop_id [of 512 "take k H"] by (simp add: min_def)
  then have "ph_is_pax_hdr en (take k H @ r) = (PX_SUCCESS_EXT_HEADER, padded h + 512)"
    by (simp only: h(2))
  then show "getTarHeaderSize en rv (take k H @ r) = length H"
    using H(2,3) h(1) by (simp add: getTarHeaderSize_def)
next
  fix H en r and rv :: reader_vars
  assume H: "pax_header H (dataToRead rv)" "paxTarhdr rv = True"
  then obtain h d l where h: "length H = padded h + 1024" "writable h d" "reloaded h d l"
    "ph_is_pax_hdr en (take 512 H @ (drop 512 H @ r)) = (PX_SUCCESS_EXT_HEADER, padded h + 512)"
    "ph_load_pax_hdr en ph_create_hdr (H @ r) (padded h + 1024) = (PX_SUCCESS, l)"
    "size_v.holds h (word_of_int (dataToRead rv))" "- (2 ^ 63) \<le> dataToRead rv" "dataToRead rv < 2 ^ 63"
    unfolding pax_header_def pax_bytes_def by blast
  have "take 512 H @ (drop 512 H @ r) = H @ r"
    by (metis append_assoc append_take_drop_id)
  then have "ph_is_pax_hdr en (H @ r) = (PX_SUCCESS_EXT_HEADER, padded h + 512)"
    using h(4) by (simp only:)
  moreover have "sint (word_of_int (dataToRead rv) :: i64) = dataToRead rv"
    using h(7,8) by (simp add: signed_of_int signed_take_bit_int_eq_self)
  moreover obtain l' where "ph_get_size l = (PX_SUCCESS, word_of_int (dataToRead rv), l')"
    using size_v.get_holds [OF reloaded_values(1) [OF h(2,3,6)]] by auto
  ultimately show "isTarHeader en rv (H @ r) = (True, rv)"
    using h(5) H(2) by (simp add: isTarHeader_def isPaxTarHeader_def Let_def add.commute [of 1024])
qed

section \<open>Properties\<close>


definition sample_stat :: sam_stat where
  "sample_stat = copy_stat sample_inode 3"

definition sample_pax :: pax_hdr where
  "sample_pax = file_hdr ''f'' sample_stat [] [] []"

definition sample_ring :: arcopy where
  "sample_ring = (snd start_state)\<lparr>bufFirst := replicate (padded sample_pax + 1026) NUL, bufSize := padded sample_pax + 1026\<rparr>"

lemma sample_pax_ready:
  "c_name ''f''" "string_ok F_name ''f''" "c_name []" "names_ok (\<lambda>_. None) (unames (fst start_state))"
  "names_ok (\<lambda>_. None) (gnames (fst start_state))" "default_ok 0 (fst start_state)" "ring_ok sample_ring"
  "WaitRoom sample_ring (padded sample_pax + 1024)" "padded sample_pax < 2000"
  "fst (cached_name (\<lambda>_. None) (unames (fst start_state)) (st_uid sample_stat)) = []"
  "fst (cached_name (\<lambda>_. None) (gnames (fst start_state)) (st_gid sample_stat)) = []" "sint (st_size sample_stat) = 3"
  using file_hdr_size [of "''f''" "[]" "[]" "[]" sample_stat]
  by (simp_all add: c_name_def nul_free_def string_ok_def names_ok_def start_state_def default_ok_def num_fits_def
      sample_ring_def ring_ok_def WaitRoom_def cached_name_def sample_stat_def copy_stat_def sample_inode_def sample_pax_def)

definition sample_reader :: reader_vars where
  "sample_reader = \<lparr>filePos = 0, fileOff = 0, noTarhdr = False, paxTarhdr = True, dataToRead = 3, rflags = FI_PAX_TARHDR,
     retry = 0, bytes_read = 0\<rparr>"

definition two_blocks :: "string \<Rightarrow> device" where
  "two_blocks B p i = (if p = 0 \<or> p = 1 then (int (length B), 0, B) else (0, 0, []))"

lemma two_blocks_ready:
  assumes "0 < length B"
  shows "reads_medium (length B) (B @ B) (two_blocks B)" "reader_at (length B) (B @ B) sample_reader B 0"
    "fst (readBlock (two_blocks B) False 0 (sample_reader\<lparr>filePos := 1\<rparr>) B) = 0"
  using assms
  by (auto simp: reads_medium_def two_blocks_def reader_at_def sample_reader_def holds_block_def readBlock.simps)


end
