(* ===== verification/Circular_Io.thy ===== *)
theory Circular_Io
  imports Prelude
begin

text \<open>
  The circular buffers of the stager (src/src/stager/copy/circular\_io.c): blocks of memory
  between two threads, with the number of a block and an error for each. The operations are the
  critical sections of the lock; \<open>CircularIoWait\<close> and \<open>CircularIoAvail\<close> are one pass through
  their loops, with \<^const>\<open>None\<close> for \<open>PthreadCondWait\<close>. The lemmas show that a buffer is a
  queue of at most \<open>cb_numBuffers - 1\<close> blocks, and are the contract the threads of the
  stager rely on.
\<close>

section \<open>The buffer\<close>

record block_state =
  bs_blkno :: int
  bs_errno :: int

text \<open>\<open>cb_mem\<close> is the memory at \<open>cb_first\<close>; pointers into it are offsets.\<close>

record circular =
  cb_mem :: string
  cb_blockSize :: nat
  cb_numBuffers :: nat
  cb_bufSize :: nat
  cb_in :: nat
  cb_out :: nat
  cb_notEmpty :: bool
  cb_notFull :: bool
  cb_state :: "block_state list"

definition CircularIoReset :: "circular \<Rightarrow> circular" where
  "CircularIoReset b =
     b\<lparr>cb_notEmpty := True, cb_notFull := True, cb_in := 0, cb_out := 0,
       cb_state := replicate (cb_numBuffers b) \<lparr>bs_blkno = - 1, bs_errno = 0\<rparr> @ drop (cb_numBuffers b) (cb_state b)\<rparr>"

text \<open>
  The number of buffers is halved until the size is below \<open>SIZE_MAX\<close>. The size itself is a
  product of ints, which is then extended to 64 bits.
\<close>

abbreviation (input) SIZE_MAX :: nat where
  "SIZE_MAX \<equiv> 2 ^ 64 - 1"

function fit_buffers :: "nat \<Rightarrow> nat \<Rightarrow> nat" where
  "fit_buffers numBuffs blockSize =
     (if SIZE_MAX \<le> numBuffs * blockSize then fit_buffers (numBuffs div 2) blockSize else numBuffs)"
  by pat_completeness auto

termination
proof (relation "measure fst")
  fix n b :: nat
  assume "SIZE_MAX \<le> n * b"
  then have "n \<noteq> 0"
    by (intro notI) simp
  then show "((n div 2, b), (n, b)) \<in> measure fst"
    by simp
qed simp

declare fit_buffers.simps [simp del]

definition buffer_size :: "nat \<Rightarrow> nat \<Rightarrow> nat" where
  "buffer_size n blockSize = unat (scast (word_of_nat (n * blockSize) :: u32) :: u64)"

text \<open>\<open>locked\<close> is the memory of \<open>valloc\<close> if the buffer is to be locked and \<open>mlock\<close> succeeds.\<close>

definition CircularIoConstructor :: "nat \<Rightarrow> nat \<Rightarrow> string option \<Rightarrow> circular" where
  "CircularIoConstructor numBuffers blockSize locked =
     (let n = fit_buffers numBuffers blockSize; sz = buffer_size n blockSize
      in CircularIoReset
        \<lparr>cb_mem = (case locked of Some m \<Rightarrow> m | None \<Rightarrow> replicate sz NUL),
         cb_blockSize = blockSize, cb_numBuffers = n, cb_bufSize = sz, cb_in = 0, cb_out = 0,
         cb_notEmpty = True, cb_notFull = True, cb_state = replicate n \<lparr>bs_blkno = 0, bs_errno = 0\<rparr>\<rparr>)"

text \<open>The number and the error of the block at a pointer.\<close>

definition CircularIoSlot :: "circular \<Rightarrow> nat \<Rightarrow> nat" where
  "CircularIoSlot b ptr = ptr div cb_blockSize b"

definition CircularIoSetBlock :: "circular \<Rightarrow> nat \<Rightarrow> int \<Rightarrow> circular" where
  "CircularIoSetBlock b ptr blockNumber =
     (let slot = ptr div cb_blockSize b
      in b\<lparr>cb_state := (cb_state b)[slot := (cb_state b ! slot)\<lparr>bs_blkno := blockNumber\<rparr>]\<rparr>)"

definition CircularIoSetError :: "circular \<Rightarrow> nat \<Rightarrow> int \<Rightarrow> circular" where
  "CircularIoSetError b ptr err =
     (let slot = ptr div cb_blockSize b
      in b\<lparr>cb_state := (cb_state b)[slot := (cb_state b ! slot)\<lparr>bs_errno := err\<rparr>]\<rparr>)"

definition CircularIoGetBlock :: "circular \<Rightarrow> nat \<Rightarrow> int" where
  "CircularIoGetBlock b ptr = bs_blkno (cb_state b ! (ptr div cb_blockSize b))"

definition CircularIoGetError :: "circular \<Rightarrow> nat \<Rightarrow> int" where
  "CircularIoGetError b ptr = bs_errno (cb_state b ! (ptr div cb_blockSize b))"

section \<open>The producer\<close>

definition CircularIoWait :: "circular \<Rightarrow> nat option \<times> circular" where
  "CircularIoWait b =
     (let e = int (cb_out b) - int (cb_in b);
          free = (if e \<le> 0 then e + int (cb_bufSize b) else e)
      in if int (cb_blockSize b) < free - 1 then (Some (cb_in b), CircularIoSetError b (cb_in b) 0)
         else (None, b\<lparr>cb_notFull := False\<rparr>))"

definition CircularIoAdvanceIn :: "circular \<Rightarrow> circular" where
  "CircularIoAdvanceIn b =
     (let i = cb_in b + cb_blockSize b
      in b\<lparr>cb_in := (if cb_bufSize b \<le> i then i - cb_bufSize b else i), cb_notEmpty := True\<rparr>)"

definition CircularIoGetIn :: "circular \<Rightarrow> nat \<Rightarrow> nat" where
  "CircularIoGetIn b residual = cb_in b + (cb_blockSize b - residual)"

section \<open>The consumer\<close>

text \<open>The result is the pointer and the error.\<close>

definition CircularIoAvail :: "circular \<Rightarrow> (nat \<times> int) option \<times> circular" where
  "CircularIoAvail b =
     (let n = int (cb_in b) - int (cb_out b);
          nbytes = (if n < 0 then n + int (cb_bufSize b) else n)
      in if int (cb_blockSize b) \<le> nbytes then (Some (cb_out b, CircularIoGetError b (cb_out b)), b)
         else (None, b\<lparr>cb_notEmpty := False\<rparr>))"

definition CircularIoAdvanceOut :: "circular \<Rightarrow> circular" where
  "CircularIoAdvanceOut b =
     (let i = cb_out b + cb_blockSize b
      in b\<lparr>cb_out := (if i = cb_bufSize b then 0 else i), cb_notFull := True\<rparr>)"

definition CircularIoGetOut :: "circular \<Rightarrow> nat \<Rightarrow> nat" where
  "CircularIoGetOut b residual = cb_out b + (cb_blockSize b - residual)"

section \<open>Finding a block\<close>

text \<open>The first slot from \<open>slot\<close> on with the number, or the number of buffers.\<close>

fun find_slot :: "block_state list \<Rightarrow> int \<Rightarrow> nat" where
  "find_slot [] blockNumber = 0"
| "find_slot (s # ss) blockNumber = (if bs_blkno s = blockNumber then 0 else Suc (find_slot ss blockNumber))"

definition CircularIoStartBlockSearch :: "circular \<Rightarrow> int \<Rightarrow> nat option \<times> circular" where
  "CircularIoStartBlockSearch b blockNumber =
     (let slot = find_slot (take (cb_numBuffers b) (cb_state b)) blockNumber; out = slot * cb_blockSize b
      in if slot < cb_numBuffers b \<and> bs_errno (cb_state b ! slot) = 0
         then (let i = out + cb_blockSize b
               in (Some out, b\<lparr>cb_out := out, cb_in := (if cb_bufSize b \<le> i then i - cb_bufSize b else i),
                 cb_notEmpty := True\<rparr>))
         else (None, CircularIoReset b))"

text \<open>Accesses to the memory.\<close>

definition store_at :: "circular \<Rightarrow> nat \<Rightarrow> string \<Rightarrow> circular" where
  "store_at b ptr xs = b\<lparr>cb_mem := overwrite (cb_mem b) ptr xs\<rparr>"

definition load_at :: "circular \<Rightarrow> nat \<Rightarrow> nat \<Rightarrow> string" where
  "load_at b ptr n = take n (drop ptr (cb_mem b))"

section \<open>The queue of blocks\<close>

text \<open>
  What a client may rely on. \<open>items\<close> are the blocks the consumer can take, each with its error,
  and \<open>filling\<close> is the block the producer works on.
\<close>

locale block_queue =
  fixes ok :: "'q \<Rightarrow> bool" and cap :: "'q \<Rightarrow> nat" and width :: "'q \<Rightarrow> nat" and items :: "'q \<Rightarrow> (string \<times> int) list"
    and filling :: "'q \<Rightarrow> string \<times> int" and wait :: "'q \<Rightarrow> nat option \<times> 'q" and store :: "'q \<Rightarrow> nat \<Rightarrow> string \<Rightarrow> 'q"
    and set_err :: "'q \<Rightarrow> int \<Rightarrow> 'q" and advance_in :: "'q \<Rightarrow> 'q" and avail :: "'q \<Rightarrow> (nat \<times> int) option \<times> 'q"
    and fetch :: "'q \<Rightarrow> nat \<Rightarrow> nat \<Rightarrow> string" and advance_out :: "'q \<Rightarrow> 'q"
  assumes wait_room: "ok q \<Longrightarrow> fst (wait q) \<noteq> None \<longleftrightarrow> length (items q) < cap q"
    and wait_keeps: "ok q \<Longrightarrow> ok (snd (wait q)) \<and> items (snd (wait q)) = items q \<and> cap (snd (wait q)) = cap q \<and> width (snd (wait q)) = width q"
    and store_in: "ok q \<Longrightarrow> length (items q) < cap q \<Longrightarrow> k + length xs \<le> width q \<Longrightarrow>
      ok (store q k xs) \<and> items (store q k xs) = items q \<and> cap (store q k xs) = cap q \<and> width (store q k xs) = width q \<and>
      filling (store q k xs) = (overwrite (fst (filling q)) k xs, snd (filling q))"
    and set_err_in: "ok q \<Longrightarrow> length (items q) < cap q \<Longrightarrow>
      ok (set_err q e) \<and> items (set_err q e) = items q \<and> cap (set_err q e) = cap q \<and> width (set_err q e) = width q \<and>
      filling (set_err q e) = (fst (filling q), e)"
    and advance_in_items: "ok q \<Longrightarrow> length (items q) < cap q \<Longrightarrow>
      ok (advance_in q) \<and> items (advance_in q) = items q @ [filling q] \<and> cap (advance_in q) = cap q \<and> width (advance_in q) = width q"
    and avail_items: "ok q \<Longrightarrow> map_option snd (fst (avail q)) = (if items q = [] then None else Some (snd (hd (items q))))"
    and avail_keeps: "ok q \<Longrightarrow> ok (snd (avail q)) \<and> items (snd (avail q)) = items q \<and> cap (snd (avail q)) = cap q \<and>
      width (snd (avail q)) = width q \<and> filling (snd (avail q)) = filling q"
    and fetch_item: "ok q \<Longrightarrow> items q \<noteq> [] \<Longrightarrow> k + n \<le> width q \<Longrightarrow> fetch q k n = take n (drop k (fst (hd (items q))))"
    and advance_out_items: "ok q \<Longrightarrow> items q \<noteq> [] \<Longrightarrow>
      ok (advance_out q) \<and> items (advance_out q) = tl (items q) \<and> cap (advance_out q) = cap q \<and> width (advance_out q) = width q \<and>
      filling (advance_out q) = filling q"
    and items_le: "ok q \<Longrightarrow> length (items q) \<le> cap q" and filling_width: "ok q \<Longrightarrow> length (fst (filling q)) = width q"
begin

text \<open>
  The queue holds the blocks \<open>g\<close> to \<open>p - 1\<close> of a sequence: \<open>R k\<close> says what the block \<open>k\<close>
  may be.
\<close>

definition carries :: "(nat \<Rightarrow> string \<times> int \<Rightarrow> bool) \<Rightarrow> nat \<Rightarrow> nat \<Rightarrow> 'q \<Rightarrow> bool" where
  "carries R g p q \<longleftrightarrow> ok q \<and> g \<le> p \<and> length (items q) = p - g \<and> (\<forall>k < p - g. R (g + k) (items q ! k))"

lemma carries_mono:
  assumes "carries R g p q" "\<And>k it. g \<le> k \<Longrightarrow> k < p \<Longrightarrow> R k it \<Longrightarrow> R' k it"
  shows "carries R' g p q"
proof -
  have "R' (g + k) (items q ! k)" if "k < p - g" for k
    using assms(1) that by (intro assms(2)) (auto simp: carries_def)
  then show ?thesis
    using assms(1) unfolding carries_def by blast
qed

lemma carries_room: "carries R g p q \<Longrightarrow> fst (wait q) \<noteq> None \<longleftrightarrow> p < g + cap q"
  using wait_room [of q] by (auto simp: carries_def)

lemma carries_wait: "carries R g p q \<Longrightarrow> carries R g p (snd (wait q))"
  using wait_keeps [of q] by (simp add: carries_def)

lemma carries_store: "carries R g p q \<Longrightarrow> p < g + cap q \<Longrightarrow> k + length xs \<le> width q \<Longrightarrow> carries R g p (store q k xs)"
  using store_in [of q k xs] by (auto simp: carries_def)

lemma carries_set_err: "carries R g p q \<Longrightarrow> p < g + cap q \<Longrightarrow> carries R g p (set_err q e)"
  using set_err_in [of q e] by (auto simp: carries_def)

lemma carries_advance_in:
  assumes "carries R g p q" "p < g + cap q" "R p (filling q)"
  shows "carries R g (Suc p) (advance_in q)"
proof -
  have l: "ok q" "g \<le> p" "length (items q) = p - g"
    using assms(1) by (simp_all add: carries_def)
  then have a: "ok (advance_in q)" "items (advance_in q) = items q @ [filling q]"
    using advance_in_items [of q] assms(2) by auto
  have "R (g + k) ((items q @ [filling q]) ! k)" if "k < Suc p - g" for k
  proof (cases "k < p - g")
    case True
    then show ?thesis
      using assms(1) l(3) by (simp add: carries_def nth_append)
  next
    case False
    then have "k = p - g"
      using that l(2) by simp
    then show ?thesis
      using assms(3) l by (simp add: nth_append)
  qed
  then show ?thesis
    using a l by (simp add: carries_def Suc_diff_le)
qed

lemma carries_hd: "carries R g p q \<Longrightarrow> g < p \<Longrightarrow> items q \<noteq> [] \<and> R g (hd (items q))"
  by (cases "items q") (auto simp: carries_def dest: spec [of _ 0])

lemma carries_avail:
  assumes "carries R g p q"
  shows "fst (avail q) = None \<longleftrightarrow> g = p" "carries R g p (snd (avail q))"
    "fst (avail q) = Some (ptr, e) \<Longrightarrow> R g (hd (items q)) \<and> e = snd (hd (items q)) \<and> g < p"
proof -
  have l: "ok q" "g \<le> p" "length (items q) = p - g"
    using assms by (simp_all add: carries_def)
  then have nil: "items q = [] \<longleftrightarrow> g = p"
    by (cases "items q") auto
  show "fst (avail q) = None \<longleftrightarrow> g = p"
    using avail_items [OF l(1)] nil by (auto split: if_splits)
  show "carries R g p (snd (avail q))"
    using avail_keeps [OF l(1)] assms by (simp add: carries_def)
  assume s: "fst (avail q) = Some (ptr, e)"
  then have "items q \<noteq> []" "e = snd (hd (items q))"
    using avail_items [OF l(1)] by (auto split: if_splits)
  then show "R g (hd (items q)) \<and> e = snd (hd (items q)) \<and> g < p"
    using nil l(2) carries_hd [OF assms] by auto
qed

lemma carries_advance_out:
  assumes "carries R g p q" "g < p"
  shows "carries R (Suc g) p (advance_out q)"
proof -
  have l: "ok q" "length (items q) = p - g" "items q \<noteq> []"
    using assms carries_hd by (auto simp: carries_def)
  have "R (Suc g + k) (tl (items q) ! k)" if "k < p - Suc g" for k
    using assms that l(2,3) by (auto simp: carries_def nth_tl dest: spec [of _ "Suc k"])
  then show ?thesis
    using advance_out_items [OF l(1,3)] assms l by (simp add: carries_def)
qed

end

section \<open>The circular buffer is a queue: lemmas\<close>

definition circ_ok :: "circular \<Rightarrow> bool" where
  "circ_ok b \<longleftrightarrow> 1 < cb_blockSize b \<and> 1 < cb_numBuffers b \<and> cb_bufSize b = cb_numBuffers b * cb_blockSize b \<and>
     length (cb_mem b) = cb_bufSize b \<and> length (cb_state b) = cb_numBuffers b \<and>
     cb_blockSize b dvd cb_in b \<and> cb_blockSize b dvd cb_out b \<and> cb_in b < cb_bufSize b \<and> cb_out b < cb_bufSize b"

definition slot_item :: "circular \<Rightarrow> nat \<Rightarrow> string \<times> int" where
  "slot_item b j = (load_at b (j * cb_blockSize b) (cb_blockSize b), bs_errno (cb_state b ! j))"

definition in_slot :: "circular \<Rightarrow> nat" where
  "in_slot b = cb_in b div cb_blockSize b"

definition out_slot :: "circular \<Rightarrow> nat" where
  "out_slot b = cb_out b div cb_blockSize b"

definition cb_count :: "circular \<Rightarrow> nat" where
  "cb_count b = (if out_slot b \<le> in_slot b then in_slot b - out_slot b else in_slot b + cb_numBuffers b - out_slot b)"

definition cb_cap :: "circular \<Rightarrow> nat" where
  "cb_cap b = cb_numBuffers b - 1"

definition cb_items :: "circular \<Rightarrow> (string \<times> int) list" where
  "cb_items b = map (\<lambda>k. slot_item b ((out_slot b + k) mod cb_numBuffers b)) [0..<cb_count b]"

definition cb_filling :: "circular \<Rightarrow> string \<times> int" where
  "cb_filling b = slot_item b (in_slot b)"

lemma circ_slots:
  assumes "circ_ok b"
  shows "cb_in b = in_slot b * cb_blockSize b" "cb_out b = out_slot b * cb_blockSize b"
    "in_slot b < cb_numBuffers b" "out_slot b < cb_numBuffers b" "cb_count b < cb_numBuffers b"
    "(out_slot b + cb_count b) mod cb_numBuffers b = in_slot b"
proof -
  have d: "1 < cb_blockSize b" "cb_bufSize b = cb_numBuffers b * cb_blockSize b"
    "cb_blockSize b dvd cb_in b" "cb_blockSize b dvd cb_out b" "cb_in b < cb_bufSize b" "cb_out b < cb_bufSize b"
    using assms by (simp_all add: circ_ok_def)
  show "cb_in b = in_slot b * cb_blockSize b" "cb_out b = out_slot b * cb_blockSize b"
    using d by (simp_all add: in_slot_def out_slot_def)
  show i: "in_slot b < cb_numBuffers b" and o: "out_slot b < cb_numBuffers b"
    using d by (simp_all add: in_slot_def out_slot_def less_mult_imp_div_less)
  show "cb_count b < cb_numBuffers b"
    using i o by (auto simp: cb_count_def)
  show "(out_slot b + cb_count b) mod cb_numBuffers b = in_slot b"
    using i o by (auto simp: cb_count_def)
qed

lemma slot_other:
  assumes "circ_ok b" "k < cb_count b"
  shows "(out_slot b + k) mod cb_numBuffers b \<noteq> in_slot b" "(out_slot b + k) mod cb_numBuffers b < cb_numBuffers b"
proof -
  note s = circ_slots [OF assms(1)]
  show "(out_slot b + k) mod cb_numBuffers b < cb_numBuffers b"
    using s(3) by simp
  show "(out_slot b + k) mod cb_numBuffers b \<noteq> in_slot b"
  proof (cases "out_slot b + k < cb_numBuffers b")
    case True
    then show ?thesis
      using assms(2) s(3,4) by (auto simp: cb_count_def split: if_splits)
  next
    case False
    then have "(out_slot b + k) mod cb_numBuffers b = out_slot b + k - cb_numBuffers b"
      using s(4,5) assms(2) by (simp add: mod_if)
    then show ?thesis
      using assms(2) s(3,4) False by (auto simp: cb_count_def split: if_splits)
  qed
qed

lemma length_cb_items [simp]: "length (cb_items b) = cb_count b"
  by (simp add: cb_items_def)

lemma wait_iff:
  assumes "circ_ok b"
  shows "fst (CircularIoWait b) \<noteq> None \<longleftrightarrow> cb_count b < cb_numBuffers b - 1"
proof -
  let ?B = "cb_blockSize b" and ?n = "cb_numBuffers b" and ?c = "cb_count b"
  note s = circ_slots [OF assms]
  have d: "1 < ?B" "cb_bufSize b = ?n * ?B"
    using assms by (simp_all add: circ_ok_def)
  have "fst (CircularIoWait b) \<noteq> None \<longleftrightarrow> int ?B < int ((?n - ?c) * ?B) - 1"
    using s d by (auto simp: CircularIoWait_def Let_def cb_count_def diff_mult_distrib of_nat_diff algebra_simps)
  moreover have "?B + 1 < (?n - ?c) * ?B \<longleftrightarrow> ?c < ?n - 1"
  proof (cases "?n - ?c \<le> 1")
    case True
    then have "(?n - ?c) * ?B \<le> ?B"
      by (cases "?n - ?c") auto
    then show ?thesis
      using True by linarith
  next
    case False
    then have "2 * ?B \<le> (?n - ?c) * ?B"
      by (intro mult_le_mono1) simp
    then show ?thesis
      using False d(1) by linarith
  qed
  ultimately show ?thesis
    by linarith
qed

lemma avail_iff:
  assumes "circ_ok b"
  shows "fst (CircularIoAvail b) = (if cb_count b = 0 then None else Some (cb_out b, snd (slot_item b (out_slot b))))"
proof -
  let ?B = "cb_blockSize b" and ?n = "cb_numBuffers b" and ?c = "cb_count b"
  note s = circ_slots [OF assms]
  have d: "1 < ?B" "cb_bufSize b = ?n * ?B"
    using assms by (simp_all add: circ_ok_def)
  have e: "CircularIoGetError b (cb_out b) = snd (slot_item b (out_slot b))"
    by (simp add: CircularIoGetError_def slot_item_def out_slot_def)
  have n: "(if int (cb_in b) - int (cb_out b) < 0 then int (cb_in b) - int (cb_out b) + int (cb_bufSize b)
      else int (cb_in b) - int (cb_out b)) = int (?c * ?B)"
  proof (cases "out_slot b \<le> in_slot b")
    case True
    then have "cb_out b \<le> cb_in b" "?c * ?B = cb_in b - cb_out b"
      using s(1,2) by (auto simp: cb_count_def diff_mult_distrib)
    then show ?thesis
      by simp
  next
    case False
    then have "in_slot b * ?B < out_slot b * ?B"
      using d(1) by simp
    then have "cb_in b < cb_out b" "?c * ?B = cb_in b + cb_bufSize b - cb_out b" "cb_out b \<le> cb_in b + cb_bufSize b"
      using s(1,2,4) d(2) False by (simp_all add: cb_count_def diff_mult_distrib add_mult_distrib trans_le_add2)
    then show ?thesis
      by simp
  qed
  have "int ?B \<le> int (?c * ?B) \<longleftrightarrow> ?c \<noteq> 0"
    using d(1) by (cases ?c) auto
  then show ?thesis
    unfolding CircularIoAvail_def Let_def n e by simp
qed

text \<open>What an operation keeps of the other slots.\<close>

lemma cb_items_cong:
  assumes "circ_ok b" "out_slot b' = out_slot b" "in_slot b' = in_slot b" "cb_numBuffers b' = cb_numBuffers b"
    "\<And>j. j < cb_numBuffers b \<Longrightarrow> j \<noteq> in_slot b \<Longrightarrow> slot_item b' j = slot_item b j"
  shows "cb_items b' = cb_items b"
  using assms slot_other [OF assms(1)] by (simp add: cb_items_def cb_count_def)

lemma overwrite_within:
  assumes "k + length xs \<le> w" "a + w \<le> length m"
  shows "take w (drop a (overwrite m (a + k) xs)) = overwrite (take w (drop a m)) k xs"
proof -
  have "m = take a m @ take w (drop a m) @ drop (a + w) m"
    by (metis append_take_drop_id drop_drop add.commute)
  then obtain p q r where m: "m = p @ q @ r" "length p = a" "length q = w"
    using that [of "take a m" "take w (drop a m)" "drop (a + w) m"] assms(2) by simp
  then show ?thesis
    using assms(1) by (simp add: overwrite_def)
qed

lemma slot_disjoint:
  assumes "i \<noteq> j" "1 < (w :: nat)"
  shows "Suc i * w \<le> j * w \<or> Suc j * w \<le> i * w"
  using assms by (cases "i < j") (auto simp del: mult_Suc intro: mult_le_mono1)

lemma circ_store:
  assumes "circ_ok b" "k + length xs \<le> cb_blockSize b"
  shows "circ_ok (store_at b (cb_in b + k) xs)" "cb_items (store_at b (cb_in b + k) xs) = cb_items b"
    "cb_filling (store_at b (cb_in b + k) xs) = (overwrite (fst (cb_filling b)) k xs, snd (cb_filling b))"
proof -
  let ?B = "cb_blockSize b" and ?b = "store_at b (cb_in b + k) xs"
  note s = circ_slots [OF assms(1)]
  have d: "1 < ?B" "cb_bufSize b = cb_numBuffers b * ?B" "length (cb_mem b) = cb_bufSize b"
    using assms by (simp_all add: circ_ok_def)
  have "Suc (in_slot b) * ?B \<le> cb_numBuffers b * ?B"
    using s(3) by (intro mult_le_mono1) simp
  then have l: "cb_in b + ?B \<le> length (cb_mem b)"
    using s(1) d by simp
  then show "circ_ok ?b"
    using assms by (simp add: circ_ok_def store_at_def)
  have f: "out_slot ?b = out_slot b" "in_slot ?b = in_slot b" "cb_numBuffers ?b = cb_numBuffers b"
    by (simp_all add: store_at_def out_slot_def in_slot_def)
  have "slot_item ?b j = slot_item b j" if j: "j < cb_numBuffers b" "j \<noteq> in_slot b" for j
  proof -
    have "cb_in b + ?B \<le> j * ?B \<or> j * ?B + ?B \<le> cb_in b"
      using slot_disjoint [OF j(2) d(1)] s(1) by auto
    then have "take ?B (drop (j * ?B) (overwrite (cb_mem b) (cb_in b + k) xs)) = take ?B (drop (j * ?B) (cb_mem b))"
      using take_drop_overwrite_below [of "cb_in b + k" xs "cb_mem b" "j * ?B" ?B]
        take_drop_overwrite_above [of "cb_in b + k" xs "cb_mem b" "j * ?B" ?B] l assms(2) by auto
    then show ?thesis
      by (simp add: slot_item_def load_at_def store_at_def)
  qed
  then show "cb_items ?b = cb_items b"
    by (rule cb_items_cong [OF assms(1) f])
  have "take ?B (drop (cb_in b) (overwrite (cb_mem b) (cb_in b + k) xs)) = overwrite (take ?B (drop (cb_in b) (cb_mem b))) k xs"
    by (rule overwrite_within [OF assms(2) l])
  then show "cb_filling ?b = (overwrite (fst (cb_filling b)) k xs, snd (cb_filling b))"
    using f s(1) by (simp add: cb_filling_def slot_item_def load_at_def store_at_def)
qed

lemma circ_state:
  assumes "circ_ok b" "b' = b\<lparr>cb_state := (cb_state b)[in_slot b := x], cb_notFull := f, cb_notEmpty := e\<rparr>"
  shows "circ_ok b'" "cb_items b' = cb_items b" "cb_filling b' = (fst (cb_filling b), bs_errno x)"
proof -
  note s = circ_slots [OF assms(1)]
  have f: "out_slot b' = out_slot b" "in_slot b' = in_slot b" "cb_numBuffers b' = cb_numBuffers b"
    by (simp_all add: assms(2) out_slot_def in_slot_def)
  show "circ_ok b'"
    using assms by (simp add: circ_ok_def)
  show "cb_items b' = cb_items b"
    by (rule cb_items_cong [OF assms(1) f]) (simp add: assms(2) slot_item_def load_at_def)
  have "length (cb_state b) = cb_numBuffers b"
    using assms(1) by (simp add: circ_ok_def)
  then show "cb_filling b' = (fst (cb_filling b), bs_errno x)"
    using f s(3) by (simp add: cb_filling_def) (simp add: assms(2) slot_item_def load_at_def)
qed

lemma circ_set:
  assumes "circ_ok b"
  shows "circ_ok (CircularIoSetError b (cb_in b) e)" "cb_items (CircularIoSetError b (cb_in b) e) = cb_items b"
    "cb_filling (CircularIoSetError b (cb_in b) e) = (fst (cb_filling b), e)"
    and "circ_ok (CircularIoSetBlock b (cb_in b) n)" "cb_items (CircularIoSetBlock b (cb_in b) n) = cb_items b"
    "cb_filling (CircularIoSetBlock b (cb_in b) n) = cb_filling b"
proof -
  have e: "CircularIoSetError b (cb_in b) e =
      b\<lparr>cb_state := (cb_state b)[in_slot b := (cb_state b ! in_slot b)\<lparr>bs_errno := e\<rparr>], cb_notFull := cb_notFull b, cb_notEmpty := cb_notEmpty b\<rparr>"
    by (simp add: CircularIoSetError_def in_slot_def Let_def)
  have n: "CircularIoSetBlock b (cb_in b) n =
      b\<lparr>cb_state := (cb_state b)[in_slot b := (cb_state b ! in_slot b)\<lparr>bs_blkno := n\<rparr>], cb_notFull := cb_notFull b, cb_notEmpty := cb_notEmpty b\<rparr>"
    by (simp add: CircularIoSetBlock_def in_slot_def Let_def)
  show "circ_ok (CircularIoSetError b (cb_in b) e)" "cb_items (CircularIoSetError b (cb_in b) e) = cb_items b"
    "cb_filling (CircularIoSetError b (cb_in b) e) = (fst (cb_filling b), e)"
    using circ_state [OF assms e] by simp_all
  show "circ_ok (CircularIoSetBlock b (cb_in b) n)" "cb_items (CircularIoSetBlock b (cb_in b) n) = cb_items b"
    "cb_filling (CircularIoSetBlock b (cb_in b) n) = cb_filling b"
    using circ_state [OF assms n] by (simp_all add: cb_filling_def slot_item_def)
qed

lemma circ_advance_in:
  assumes "circ_ok b" "cb_count b < cb_numBuffers b - 1"
  shows "circ_ok (CircularIoAdvanceIn b)" "cb_items (CircularIoAdvanceIn b) = cb_items b @ [cb_filling b]"
proof -
  let ?B = "cb_blockSize b" and ?n = "cb_numBuffers b" and ?b = "CircularIoAdvanceIn b"
  note s = circ_slots [OF assms(1)]
  have d: "1 < ?B" "cb_bufSize b = ?n * ?B" "1 < ?n"
    using assms by (simp_all add: circ_ok_def)
  have "cb_bufSize b \<le> cb_in b + ?B \<longleftrightarrow> Suc (in_slot b) = ?n"
  proof -
    have "cb_bufSize b \<le> cb_in b + ?B \<longleftrightarrow> ?n * ?B \<le> Suc (in_slot b) * ?B"
      using s(1) d(2) by (simp add: add.commute)
    also have "\<dots> \<longleftrightarrow> ?n \<le> Suc (in_slot b)"
      using d(1) by (simp del: mult_Suc)
    finally show ?thesis
      using s(3) by linarith
  qed
  moreover have "cb_in b + ?B = Suc (in_slot b) * ?B"
    using s(1) by simp
  ultimately have i: "cb_in ?b = (if Suc (in_slot b) = ?n then 0 else Suc (in_slot b)) * ?B"
    using d(2) by (auto simp: CircularIoAdvanceIn_def Let_def simp del: mult_Suc)
  have f: "cb_out ?b = cb_out b" "cb_numBuffers ?b = ?n" "cb_blockSize ?b = ?B" "cb_bufSize ?b = cb_bufSize b"
    "cb_mem ?b = cb_mem b" "cb_state ?b = cb_state b"
    by (simp_all add: CircularIoAdvanceIn_def Let_def)
  have "Suc (in_slot b) * ?B < ?n * ?B" if "Suc (in_slot b) \<noteq> ?n"
    using that s(3) d(1) by (intro mult_less_mono1) auto
  then show "circ_ok ?b"
    using assms(1) i f d s(3,4) by (auto simp: circ_ok_def)
  have o: "out_slot ?b = out_slot b" "in_slot ?b = (if Suc (in_slot b) = ?n then 0 else Suc (in_slot b))"
    using f i d(1) by (auto simp: out_slot_def in_slot_def simp del: mult_Suc)
  have c: "cb_count ?b = Suc (cb_count b)"
    using s(3,4) o f(2) assms(2) by (auto simp: cb_count_def split: if_splits)
  have "slot_item ?b = slot_item b"
    using f by (simp add: fun_eq_iff slot_item_def load_at_def)
  then show "cb_items ?b = cb_items b @ [cb_filling b]"
    using c o(1) f(2) s(6) by (simp add: cb_items_def cb_filling_def)
qed

lemma circ_advance_out:
  assumes "circ_ok b" "cb_count b \<noteq> 0"
  shows "circ_ok (CircularIoAdvanceOut b)" "cb_items (CircularIoAdvanceOut b) = tl (cb_items b)"
    "cb_filling (CircularIoAdvanceOut b) = cb_filling b"
proof -
  let ?B = "cb_blockSize b" and ?n = "cb_numBuffers b" and ?b = "CircularIoAdvanceOut b"
  note s = circ_slots [OF assms(1)]
  have d: "1 < ?B" "cb_bufSize b = ?n * ?B" "1 < ?n"
    using assms by (simp_all add: circ_ok_def)
  have "cb_out b + ?B = Suc (out_slot b) * ?B"
    using s(2) by simp
  then have "cb_out b + ?B = cb_bufSize b \<longleftrightarrow> Suc (out_slot b) = ?n"
    using d by (simp del: mult_Suc)
  then have i: "cb_out ?b = (if Suc (out_slot b) = ?n then 0 else Suc (out_slot b)) * ?B"
    using s(2) by (auto simp: CircularIoAdvanceOut_def Let_def)
  have f: "cb_in ?b = cb_in b" "cb_numBuffers ?b = ?n" "cb_blockSize ?b = ?B" "cb_bufSize ?b = cb_bufSize b"
    "cb_mem ?b = cb_mem b" "cb_state ?b = cb_state b"
    by (simp_all add: CircularIoAdvanceOut_def Let_def)
  have "Suc (out_slot b) * ?B < ?n * ?B" if "Suc (out_slot b) \<noteq> ?n"
    using that s(4) d(1) by (intro mult_less_mono1) auto
  then show "circ_ok ?b"
    using assms(1) i f d s(3,4) by (auto simp: circ_ok_def)
  have o: "in_slot ?b = in_slot b" "out_slot ?b = (if Suc (out_slot b) = ?n then 0 else Suc (out_slot b))"
    using f i d(1) by (auto simp: out_slot_def in_slot_def simp del: mult_Suc)
  have c: "cb_count b = Suc (cb_count ?b)"
    using s(3,4) o f(2) assms(2) by (auto simp: cb_count_def split: if_splits)
  have it: "slot_item ?b = slot_item b"
    using f by (simp add: fun_eq_iff slot_item_def load_at_def)
  then show "cb_filling ?b = cb_filling b"
    using o by (simp add: cb_filling_def)
  have "(out_slot ?b + k) mod ?n = (Suc (out_slot b) + k) mod ?n" for k
    using o(2) by (auto simp del: add_Suc)
  then have "(out_slot ?b + k) mod ?n = (out_slot b + Suc k) mod ?n" for k
    by simp
  then show "cb_items ?b = tl (cb_items b)"
    unfolding cb_items_def c it f(2) by (intro nth_equalityI) (simp_all add: nth_tl del: upt_Suc)
qed

lemma cb_items_hd: "cb_items b \<noteq> [] \<longleftrightarrow> cb_count b \<noteq> 0" "cb_count b \<noteq> 0 \<Longrightarrow> circ_ok b \<Longrightarrow> hd (cb_items b) = slot_item b (out_slot b)"
  using circ_slots(4) [of b] by (auto simp: cb_items_def upt_rec)

interpretation cq: block_queue circ_ok cb_cap cb_blockSize cb_items cb_filling CircularIoWait
  "\<lambda>b k xs. store_at b (cb_in b + k) xs" "\<lambda>b e. CircularIoSetError b (cb_in b) e" CircularIoAdvanceIn CircularIoAvail
  "\<lambda>b k n. load_at b (cb_out b + k) n" CircularIoAdvanceOut
proof (unfold_locales, goal_cases)
  case (1 q)
  then show ?case
    using wait_iff by (simp add: cb_cap_def)
next
  case (2 q)
  have "circ_ok (q\<lparr>cb_notFull := False\<rparr>) \<and> cb_items (q\<lparr>cb_notFull := False\<rparr>) = cb_items q"
    using circ_state(1,2) [OF 2, where x = "cb_state q ! in_slot q" and f = False and e = "cb_notEmpty q"] by simp
  then show ?case
    using circ_set(1,2) [OF 2, of 0] by (auto simp: CircularIoWait_def Let_def CircularIoSetError_def cb_cap_def)
next
  case (3 q k xs)
  then show ?case
    using circ_store [of q k xs] by (simp add: store_at_def cb_cap_def)
next
  case (4 q e)
  then show ?case
    using circ_set(1-3) [of q e] by (simp add: CircularIoSetError_def Let_def cb_cap_def)
next
  case (5 q)
  then show ?case
    using circ_advance_in [of q] by (simp add: CircularIoAdvanceIn_def Let_def cb_cap_def)
next
  case (6 q)
  then show ?case
    using avail_iff [of q] cb_items_hd [of q] by (simp split: if_splits)
next
  case (7 q)
  have "circ_ok (q\<lparr>cb_notEmpty := False\<rparr>) \<and> cb_items (q\<lparr>cb_notEmpty := False\<rparr>) = cb_items q \<and>
      cb_filling (q\<lparr>cb_notEmpty := False\<rparr>) = cb_filling q"
    using circ_state [OF 7, where x = "cb_state q ! in_slot q" and f = "cb_notFull q" and e = False]
    by (simp add: cb_filling_def slot_item_def)
  then show ?case
    using 7 by (auto simp: CircularIoAvail_def Let_def cb_cap_def)
next
  case (8 q k n)
  then show ?case
    using cb_items_hd [of q] circ_slots(2) [of q] by (simp add: slot_item_def load_at_def take_drop min_def ac_simps)
next
  case (9 q)
  then show ?case
    using circ_advance_out [of q] cb_items_hd(1) [of q] by (simp add: CircularIoAdvanceOut_def Let_def cb_cap_def)
next
  case (10 q)
  then show ?case
    using circ_slots(5) [of q] by (simp add: cb_cap_def)
next
  case (11 q)
  let ?B = "cb_blockSize q"
  have "Suc (in_slot q) * ?B \<le> cb_numBuffers q * ?B"
    using circ_slots(3) [OF 11] by (intro mult_le_mono1) simp
  then show ?case
    using 11 by (simp add: cb_filling_def slot_item_def load_at_def circ_ok_def)
qed

text \<open>Also the number of a block and the flags do not matter to the queue.\<close>

lemma carries_more:
  "cq.carries R g p b \<Longrightarrow> cq.carries R g p (CircularIoSetBlock b (cb_in b) n)"
  using circ_set(4-6) [of b n] by (simp add: cq.carries_def)

lemma circ_sizes [simp]:
  "cb_blockSize (CircularIoSetError b q e) = cb_blockSize b" "cb_numBuffers (CircularIoSetError b q e) = cb_numBuffers b"
  "cb_in (CircularIoSetError b q e) = cb_in b" "cb_out (CircularIoSetError b q e) = cb_out b"
  "cb_notFull (CircularIoSetError b q e) = cb_notFull b" "cb_notEmpty (CircularIoSetError b q e) = cb_notEmpty b"
  "cb_blockSize (CircularIoSetBlock b q n) = cb_blockSize b" "cb_numBuffers (CircularIoSetBlock b q n) = cb_numBuffers b"
  "cb_in (CircularIoSetBlock b q n) = cb_in b" "cb_out (CircularIoSetBlock b q n) = cb_out b"
  "cb_notFull (CircularIoSetBlock b q n) = cb_notFull b" "cb_notEmpty (CircularIoSetBlock b q n) = cb_notEmpty b"
  "cb_blockSize (store_at b q xs) = cb_blockSize b" "cb_numBuffers (store_at b q xs) = cb_numBuffers b"
  "cb_in (store_at b q xs) = cb_in b" "cb_out (store_at b q xs) = cb_out b"
  "cb_notFull (store_at b q xs) = cb_notFull b" "cb_notEmpty (store_at b q xs) = cb_notEmpty b"
  "cb_blockSize (CircularIoAdvanceIn b) = cb_blockSize b" "cb_numBuffers (CircularIoAdvanceIn b) = cb_numBuffers b"
  "cb_out (CircularIoAdvanceIn b) = cb_out b" "cb_notFull (CircularIoAdvanceIn b) = cb_notFull b" "cb_notEmpty (CircularIoAdvanceIn b)"
  "cb_blockSize (CircularIoAdvanceOut b) = cb_blockSize b" "cb_numBuffers (CircularIoAdvanceOut b) = cb_numBuffers b"
  "cb_in (CircularIoAdvanceOut b) = cb_in b" "cb_notEmpty (CircularIoAdvanceOut b) = cb_notEmpty b" "cb_notFull (CircularIoAdvanceOut b)"
  "cb_blockSize (CircularIoReset b) = cb_blockSize b" "cb_numBuffers (CircularIoReset b) = cb_numBuffers b"
  "cb_notFull (CircularIoReset b)" "cb_notEmpty (CircularIoReset b)" "cb_in (CircularIoReset b) = 0" "cb_out (CircularIoReset b) = 0"
  by (simp_all add: CircularIoSetError_def CircularIoSetBlock_def store_at_def CircularIoAdvanceIn_def CircularIoAdvanceOut_def
      CircularIoReset_def Let_def)

lemma circ_caps [simp]:
  "cb_cap (CircularIoSetError b q e) = cb_cap b" "cb_cap (CircularIoSetBlock b q n) = cb_cap b" "cb_cap (store_at b q xs) = cb_cap b"
  "cb_cap (CircularIoAdvanceIn b) = cb_cap b" "cb_cap (CircularIoAdvanceOut b) = cb_cap b" "cb_cap (CircularIoReset b) = cb_cap b"
  "cb_cap (b\<lparr>cb_notFull := f\<rparr>) = cb_cap b" "cb_cap (b\<lparr>cb_notEmpty := f\<rparr>) = cb_cap b"
  by (simp_all add: cb_cap_def)

lemma cap_pos: "circ_ok b \<Longrightarrow> 0 < cb_cap b"
  by (simp add: circ_ok_def cb_cap_def)

lemma wait_cases:
  assumes "CircularIoWait b = (q, b')"
  obtains (room) "q = Some (cb_in b)" "b' = CircularIoSetError b (cb_in b) 0"
    | (full) "q = None" "b' = b\<lparr>cb_notFull := False\<rparr>"
  using assms that unfolding CircularIoWait_def Let_def by (metis Pair_inject)

lemma avail_cases:
  assumes "CircularIoAvail b = (q, b')"
  obtains (data) "q = Some (cb_out b, CircularIoGetError b (cb_out b))" "b' = b"
    | (none) "q = None" "b' = b\<lparr>cb_notEmpty := False\<rparr>"
  using assms that unfolding CircularIoAvail_def Let_def by (metis Pair_inject)

lemma reset_ok:
  assumes "circ_ok b"
  shows "cq.carries R 0 0 (CircularIoReset b)"
proof -
  have "circ_ok (CircularIoReset b)"
    using assms by (auto simp: circ_ok_def CircularIoReset_def)
  moreover have "cb_count (CircularIoReset b) = 0"
    by (simp add: cb_count_def in_slot_def out_slot_def)
  ultimately show ?thesis
    by (simp add: cq.carries_def)
qed

lemma filling_load: "circ_ok b \<Longrightarrow> load_at b (cb_in b) (cb_blockSize b) = fst (cb_filling b)"
  using circ_slots(1) [of b] by (simp add: cb_filling_def slot_item_def)

lemma filling_store:
  assumes "circ_ok b" "length blk = cb_blockSize b"
  shows "cb_filling (store_at b (cb_in b) blk) = (blk, snd (cb_filling b))"
  using circ_store(3) [OF assms(1), of 0 blk] assms cq.filling_width [OF assms(1)] by (simp add: overwrite_def)

lemma carries_store_all:
  assumes "cq.carries R g p b" "length blk = cb_blockSize b" "p < g + cb_cap b"
  shows "cq.carries R g p (store_at b (cb_in b) blk)"
  using cq.carries_store [OF assms(1,3), of 0 blk] assms(2) by simp

lemma circ_flags [simp]:
  "in_slot (b\<lparr>cb_notEmpty := f\<rparr>) = in_slot b" "in_slot (b\<lparr>cb_notFull := f\<rparr>) = in_slot b"
  "cb_filling (b\<lparr>cb_notEmpty := f\<rparr>) = cb_filling b" "cb_filling (b\<lparr>cb_notFull := f\<rparr>) = cb_filling b"
  "cq.carries R g p (b\<lparr>cb_notEmpty := f\<rparr>) \<longleftrightarrow> cq.carries R g p b" "cq.carries R g p (b\<lparr>cb_notFull := f\<rparr>) \<longleftrightarrow> cq.carries R g p b"
  by (simp_all add: cq.carries_def circ_ok_def cb_items_def cb_count_def cb_filling_def in_slot_def out_slot_def slot_item_def load_at_def)

end
