(* ===== verification/Stage_Pipeline.thy ===== *)
theory Stage_Pipeline
  imports Stage_Read Circular_Io
begin

text \<open>
  The three threads of a stage: \<open>ArchiveRead\<close> reads blocks of the medium into one circular buffer
  (src/src/stager/copy/archive\_read.c), \<open>DoubleBuffer\<close> moves the data of the file to a second one
  (double\_buffer.c), and \<open>DiskCacheWrite\<close> writes it to the disk cache (disk\_cache.c). Every
  critical section of a buffer and every access to its memory is a step of its own; a thread
  in \<open>PthreadCondWait\<close> sleeps until the flag it waits for is set. A
  schedule is shown for which a failed write leaves the reading thread asleep for ever.
\<close>

section \<open>The reading thread\<close>

datatype reading_pc =
    R_loop             \<comment> \<open>at the condition of the loop\<close>
  | R_wait             \<comment> \<open>in CircularIoWait\<close>
  | R_sleep            \<comment> \<open>waiting for cb\_full there\<close>
  | R_read nat         \<comment> \<open>about to read to the pointer\<close>
  | R_advance nat int  \<comment> \<open>the bytes are in the buffer\<close>
  | R_check            \<comment> \<open>about to look for a cancel\<close>
  | R_end              \<comment> \<open>waiting for io\_moveDone\<close>
  | R_done
  | R_fault            \<comment> \<open>memory outside of the block was used\<close>

record reading =
  rpc :: reading_pc
  rvars :: reader_vars
  firstRead :: bool
  readError :: bool
  rcancel :: bool

datatype moving_pc =
    M_idle             \<comment> \<open>waiting for io\_moveReady\<close>
  | M_loop
  | M_avail            \<comment> \<open>in CircularIoAvail\<close>
  | M_empty            \<comment> \<open>waiting for cb\_empty there\<close>
  | M_room             \<comment> \<open>in CircularIoWait\<close>
  | M_full             \<comment> \<open>waiting for cb\_full there\<close>
  | M_copy
  | M_out              \<comment> \<open>the data is copied\<close>
  | M_in
  | M_check
  | M_wait             \<comment> \<open>waiting for io\_writeDone\<close>
  | M_done
  | M_fault            \<comment> \<open>FatalInternalError\<close>

record moving =
  mpc :: moving_pc
  from_ptr :: nat
  to_ptr :: nat
  fromResidual :: nat
  toResidual :: nat
  dataToMove :: int
  move_offset :: int
  firstMove :: bool
  move_errno :: int
  mcancel :: bool

datatype caching_pc =
    W_idle             \<comment> \<open>waiting for io\_writeReady\<close>
  | W_loop
  | W_avail            \<comment> \<open>in CircularIoAvail\<close>
  | W_sleep            \<comment> \<open>waiting for cb\_empty there\<close>
  | W_write nat nat    \<comment> \<open>a block at the pointer, of which a number of bytes belongs to the file\<close>
  | W_advance nat
  | W_end
  | W_done

text \<open>\<open>swrites\<close> are the calls of \<open>F_SWRITE\<close>, \<open>csum_pieces\<close> those of \<open>Checksum\<close>.\<close>

record caching =
  wpc :: caching_pc
  dataToWrite :: int
  write_errno :: int
  wcancel :: bool
  swrite_off :: nat
  stage_size :: nat
  swrites :: "(nat \<times> string) list"
  csum_pieces :: "string list"

text \<open>The buffers, the threads, and the fields of \<open>IoThread\<close> they share.\<close>

record stage_sys =
  rbuf :: circular
  wbuf :: circular
  rd :: reading
  mv :: moving
  wr :: caching
  io_size :: int
  io_offset :: int
  io_cancel :: bool
  moveReady :: bool
  moveDone :: bool
  writeReady :: bool
  writeDone :: bool
  readDone :: bool

text \<open>
  What the threads depend on: the device, the results of \<open>F_SWRITE\<close> by the number of the call
  with \<open>errno\<close>, and the attributes of the request.
\<close>

record stage_env =
  device_of :: device
  is_stk5800 :: bool
  entry_errno :: "c_errno option"
  swrite_result :: "nat \<Rightarrow> int \<times> int"
  use_csum :: bool
  verifying :: bool
  start_off :: nat

definition DATA_TO_READ :: "reading \<Rightarrow> bool" where
  "DATA_TO_READ r \<longleftrightarrow> 0 < dataToRead (rvars r) \<and> \<not> readError r \<and> \<not> rcancel r"

text \<open>
  \<open>notifyWorkers\<close> starts the moving thread after the first block; an empty file, for which it starts
  the writing thread and waits for it, never gets here.
\<close>

definition notifyWorkers :: "reader_vars \<Rightarrow> stage_sys \<Rightarrow> stage_sys" where
  "notifyWorkers v s =
     s\<lparr>io_size := dataToRead v, io_offset := fileOff v, io_cancel := False, moveReady := True\<rparr>"

definition read_step :: "stage_env \<Rightarrow> nat \<Rightarrow> stage_sys \<Rightarrow> stage_sys" where
  "read_step env ptr s =
     (let r = rd s; n = cb_blockSize (rbuf s); again = readBlock (device_of env) (is_stk5800 env) 0;
          (err, e, v, blk) = again (rvars r) (load_at (rbuf s) ptr n);
          b = store_at (rbuf s) ptr blk;
          b1 = (if err = 0 then b else CircularIoSetError b ptr e)
      in if \<not> firstRead r
         then s\<lparr>rbuf := b1, rd := r\<lparr>rvars := v, readError := (err \<noteq> 0), rpc := R_advance ptr (int n)\<rparr>\<rparr>
         else if err \<noteq> 0
         then (notifyWorkers v s)\<lparr>rbuf := b1,
           rd := r\<lparr>rvars := v, readError := True, firstRead := False, rpc := R_advance ptr (int n)\<rparr>\<rparr>
         else (case validateTarHeader (entry_errno env) again v blk of
             None \<Rightarrow> s\<lparr>rd := r\<lparr>rpc := R_fault\<rparr>\<rparr>
           | Some (err', residual, v', blk') \<Rightarrow>
               (let b2 = store_at b1 ptr blk'; b3 = (if err' = - 1 then CircularIoSetError b2 ptr EIO else b2)
                in (notifyWorkers v' s)\<lparr>rbuf := b3,
                  rd := r\<lparr>rvars := v', readError := (err' = - 1), firstRead := False, rpc := R_advance ptr residual\<rparr>\<rparr>)))"

definition reader_step :: "stage_env \<Rightarrow> stage_sys \<Rightarrow> stage_sys option" where
  "reader_step env s =
     (let r = rd s; v = rvars r
      in case rpc r of
        R_loop \<Rightarrow> Some (s\<lparr>rd := r\<lparr>rpc := (if DATA_TO_READ r then R_wait else R_end)\<rparr>\<rparr>)
      | R_wait \<Rightarrow> (case CircularIoWait (rbuf s) of
            (Some p, b) \<Rightarrow> Some (s\<lparr>rbuf := b, rd := r\<lparr>rpc := R_read p\<rparr>\<rparr>)
          | (None, b) \<Rightarrow> Some (s\<lparr>rbuf := b, rd := r\<lparr>rpc := R_sleep\<rparr>\<rparr>))
      | R_sleep \<Rightarrow> if cb_notFull (rbuf s) then Some (s\<lparr>rd := r\<lparr>rpc := R_wait\<rparr>\<rparr>) else None
      | R_read p \<Rightarrow> Some (read_step env p s)
      | R_advance p nbytes \<Rightarrow> Some (s\<lparr>rbuf := CircularIoAdvanceIn (CircularIoSetBlock (rbuf s) p (filePos v)),
          rd := r\<lparr>rvars := v\<lparr>dataToRead := dataToRead v - min nbytes (dataToRead v), filePos := filePos v + 1\<rparr>,
            rpc := R_check\<rparr>\<rparr>)
      | R_check \<Rightarrow> Some (s\<lparr>rd := r\<lparr>rpc := R_loop, rcancel := io_cancel s\<rparr>\<rparr>)
      | R_end \<Rightarrow> if moveDone s then Some (s\<lparr>moveDone := False, readDone := True, rd := r\<lparr>rpc := R_done\<rparr>\<rparr>) else None
      | _ \<Rightarrow> None)"

section \<open>The moving thread\<close>

definition DATA_TO_MOVE :: "moving \<Rightarrow> bool" where
  "DATA_TO_MOVE m \<longleftrightarrow> 0 < dataToMove m \<and> move_errno m = 0 \<and> \<not> mcancel m"

text \<open>The pointer and the residual behind \<open>CircularIoAvail\<close>; the first move skips the offset.\<close>

definition take_block :: "nat \<Rightarrow> int \<Rightarrow> nat \<Rightarrow> moving \<Rightarrow> moving" where
  "take_block ptr e n m =
     (if \<not> firstMove m then m\<lparr>from_ptr := ptr, fromResidual := n, move_errno := e, mpc := M_room\<rparr>
      else if int n < move_offset m then m\<lparr>move_errno := e, mpc := M_fault\<rparr>
      else m\<lparr>from_ptr := ptr + nat (move_offset m), fromResidual := n - nat (move_offset m), move_errno := e, mpc := M_room\<rparr>)"

definition move_step :: "stage_sys \<Rightarrow> stage_sys" where
  "move_step s =
     (let m = mv s; nbytes = min (min (fromResidual m) (toResidual m)) (nat (dataToMove m))
      in s\<lparr>wbuf := store_at (wbuf s) (to_ptr m) (load_at (rbuf s) (from_ptr m) nbytes),
         writeReady := (writeReady s \<or> firstMove m),
         mv := m\<lparr>firstMove := False, fromResidual := fromResidual m - nbytes, toResidual := toResidual m - nbytes,
           dataToMove := dataToMove m - int nbytes, mpc := M_out\<rparr>\<rparr>)"

definition mover_step :: "stage_sys \<Rightarrow> stage_sys option" where
  "mover_step s =
     (let m = mv s
      in case mpc m of
        M_idle \<Rightarrow> if moveReady s
          then Some (s\<lparr>moveReady := False, wbuf := CircularIoReset (wbuf s),
            mv := m\<lparr>fromResidual := 0, toResidual := 0, dataToMove := io_size s, move_offset := io_offset s,
              mcancel := io_cancel s, move_errno := 0, firstMove := True, mpc := M_loop\<rparr>\<rparr>)
          else None
      | M_loop \<Rightarrow> Some (s\<lparr>mv := (if \<not> DATA_TO_MOVE m then m\<lparr>mpc := M_wait\<rparr>
          else if fromResidual m = 0 then m\<lparr>mpc := M_avail\<rparr>
          else m\<lparr>from_ptr := CircularIoGetOut (rbuf s) (fromResidual m), mpc := M_room\<rparr>)\<rparr>)
      | M_avail \<Rightarrow> (case CircularIoAvail (rbuf s) of
            (Some (p, e), b) \<Rightarrow> Some (s\<lparr>rbuf := b, mv := take_block p e (cb_blockSize (rbuf s)) m\<rparr>)
          | (None, b) \<Rightarrow> Some (s\<lparr>rbuf := b, mv := m\<lparr>mpc := M_empty\<rparr>\<rparr>))
      | M_empty \<Rightarrow> if cb_notEmpty (rbuf s) then Some (s\<lparr>mv := m\<lparr>mpc := M_avail\<rparr>\<rparr>) else None
      | M_room \<Rightarrow> if toResidual m \<noteq> 0
          then Some (s\<lparr>mv := m\<lparr>to_ptr := CircularIoGetIn (wbuf s) (toResidual m), mpc := M_copy\<rparr>\<rparr>)
          else (case CircularIoWait (wbuf s) of
              (Some p, b) \<Rightarrow> Some (s\<lparr>wbuf := b, mv := m\<lparr>to_ptr := p, toResidual := cb_blockSize (wbuf s), mpc := M_copy\<rparr>\<rparr>)
            | (None, b) \<Rightarrow> Some (s\<lparr>wbuf := b, mv := m\<lparr>mpc := M_full\<rparr>\<rparr>))
      | M_full \<Rightarrow> if cb_notFull (wbuf s) then Some (s\<lparr>mv := m\<lparr>mpc := M_room\<rparr>\<rparr>) else None
      | M_copy \<Rightarrow> Some (move_step s)
      | M_out \<Rightarrow> Some (s\<lparr>rbuf := (if fromResidual m = 0 then CircularIoAdvanceOut (rbuf s) else rbuf s), mv := m\<lparr>mpc := M_in\<rparr>\<rparr>)
      | M_in \<Rightarrow> Some (s\<lparr>wbuf := (if toResidual m = 0 \<or> dataToMove m = 0 \<or> move_errno m \<noteq> 0
            then CircularIoAdvanceIn (CircularIoSetError (wbuf s) (to_ptr m) (move_errno m)) else wbuf s), mv := m\<lparr>mpc := M_check\<rparr>\<rparr>)
      | M_check \<Rightarrow> Some (s\<lparr>mv := m\<lparr>mpc := M_loop, mcancel := io_cancel s\<rparr>\<rparr>)
      | M_wait \<Rightarrow> if writeDone s then Some (s\<lparr>writeDone := False, moveDone := True, mv := m\<lparr>mpc := M_done\<rparr>\<rparr>) else None
      | _ \<Rightarrow> None)"

section \<open>The writing thread\<close>

definition DATA_TO_WRITE :: "caching \<Rightarrow> bool" where
  "DATA_TO_WRITE w \<longleftrightarrow> 0 < dataToWrite w \<and> write_errno w = 0 \<and> \<not> wcancel w"

definition write_step :: "stage_env \<Rightarrow> nat \<Rightarrow> nat \<Rightarrow> stage_sys \<Rightarrow> stage_sys" where
  "write_step env ptr n s =
     (let w = wr s; xs = load_at (wbuf s) ptr n;
          w1 = w\<lparr>csum_pieces := (if use_csum env then csum_pieces w @ [xs] else csum_pieces w), wpc := W_advance n\<rparr>
      in if verifying env then s\<lparr>wr := w1\<rparr>
         else (let (nwritten, e) = swrite_result env (length (swrites w));
                   w2 = w1\<lparr>swrites := swrites w @ [(swrite_off w, xs)]\<rparr>
               in if nwritten = int n then s\<lparr>wr := w2\<rparr>
                  else s\<lparr>io_cancel := True,
                    wr := (if e = ECANCELED then w2\<lparr>wcancel := True\<rparr> else w2\<lparr>write_errno := e\<rparr>)\<rparr>))"

definition writer_step :: "stage_env \<Rightarrow> stage_sys \<Rightarrow> stage_sys option" where
  "writer_step env s =
     (let w = wr s
      in case wpc w of
        W_idle \<Rightarrow> if writeReady s
          then Some (s\<lparr>writeReady := False,
            wr := w\<lparr>swrite_off := start_off env, dataToWrite := io_size s, wcancel := False, write_errno := 0, wpc := W_loop\<rparr>\<rparr>)
          else None
      | W_loop \<Rightarrow> Some (s\<lparr>wr := w\<lparr>wpc := (if DATA_TO_WRITE w then W_avail else W_end)\<rparr>\<rparr>)
      | W_avail \<Rightarrow> (case CircularIoAvail (wbuf s) of
            (Some (p, e), b) \<Rightarrow> Some (s\<lparr>wbuf := b,
              wr := (if e \<noteq> 0 then w\<lparr>write_errno := e, wpc := W_end\<rparr>
                else w\<lparr>wpc := W_write p (min (cb_blockSize (wbuf s)) (nat (dataToWrite w)))\<rparr>)\<rparr>)
          | (None, b) \<Rightarrow> Some (s\<lparr>wbuf := b, wr := w\<lparr>wpc := W_sleep\<rparr>\<rparr>))
      | W_sleep \<Rightarrow> if cb_notEmpty (wbuf s) then Some (s\<lparr>wr := w\<lparr>wpc := W_avail\<rparr>\<rparr>) else None
      | W_write p n \<Rightarrow> Some (write_step env p n s)
      | W_advance n \<Rightarrow> Some (s\<lparr>wbuf := CircularIoAdvanceOut (wbuf s),
          wr := w\<lparr>stage_size := stage_size w + n, swrite_off := swrite_off w + n, dataToWrite := dataToWrite w - int n, wpc := W_loop\<rparr>\<rparr>)
      | W_end \<Rightarrow> Some (s\<lparr>writeDone := True, wr := w\<lparr>wpc := W_done\<rparr>\<rparr>)
      | _ \<Rightarrow> None)"

text \<open>A schedule of the threads.\<close>

datatype stage_thread = Reader | Mover | Writer

definition stage_step :: "stage_env \<Rightarrow> stage_thread \<Rightarrow> stage_sys \<Rightarrow> stage_sys option" where
  "stage_step env t s = (case t of Reader \<Rightarrow> reader_step env s | Mover \<Rightarrow> mover_step s | Writer \<Rightarrow> writer_step env s)"

fun stage_run :: "stage_env \<Rightarrow> stage_thread list \<Rightarrow> stage_sys \<Rightarrow> stage_sys option" where
  "stage_run env [] s = Some s"
| "stage_run env (t # ts) s = Option.bind (stage_step env t s) (stage_run env ts)"

text \<open>
  The start of a stage that has to read: the block is not in the buffer, which is reset, and the
  medium is positioned at it.
\<close>

definition stage_start :: "circular \<Rightarrow> circular \<Rightarrow> reader_vars \<Rightarrow> stage_sys" where
  "stage_start rb wb v =
     \<lparr>rbuf = CircularIoReset rb, wbuf = wb,
      rd = \<lparr>rpc = R_loop, rvars = v, firstRead = True, readError = False, rcancel = False\<rparr>,
      mv = \<lparr>mpc = M_idle, from_ptr = 0, to_ptr = 0, fromResidual = 0, toResidual = 0, dataToMove = 0, move_offset = 0,
        firstMove = False, move_errno = 0, mcancel = False\<rparr>,
      wr = \<lparr>wpc = W_idle, dataToWrite = 0, write_errno = 0, wcancel = False, swrite_off = 0, stage_size = 0, swrites = [],
        csum_pieces = []\<rparr>,
      io_size = 0, io_offset = 0, io_cancel = False, moveReady = False, moveDone = False, writeReady = False,
      writeDone = False, readDone = False\<rparr>"

section \<open>Properties\<close>

text \<open>
  A stage of seven bytes with blocks of two bytes and two buffers of each kind; the data starts
  at the second byte of a block, and the disk cache has no room.
\<close>

definition tiny_buffer :: circular where
  "tiny_buffer = \<lparr>cb_mem = replicate 4 NUL, cb_blockSize = 2, cb_numBuffers = 2, cb_bufSize = 4, cb_in = 0, cb_out = 0,
     cb_notEmpty = True, cb_notFull = True, cb_state = replicate 2 \<lparr>bs_blkno = - 1, bs_errno = 0\<rparr>\<rparr>"

definition tiny_env :: stage_env where
  "tiny_env = \<lparr>device_of = (\<lambda>p i. (2, 0, take 2 (drop (2 * nat p) ''abcdefgh''))), is_stk5800 = False, entry_errno = None,
     swrite_result = (\<lambda>k. (- 1, ENOSPC)), use_csum = False, verifying = False, start_off = 0\<rparr>"

definition tiny_stage :: stage_sys where
  "tiny_stage = stage_start tiny_buffer tiny_buffer
     \<lparr>filePos = 0, fileOff = 1, noTarhdr = True, paxTarhdr = False, dataToRead = 7, rflags = FI_NO_TARHDR, retry = 0, bytes_read = 0\<rparr>"

definition tiny_schedule :: "stage_thread list" where
  "tiny_schedule = replicate 7 Reader @ replicate 9 Mover @ replicate 7 Reader @ replicate 5 Mover @ replicate 7 Writer @ replicate 3 Mover"

lemmas run_defs = stage_step_def reader_step_def mover_step_def writer_step_def read_step_def move_step_def write_step_def
  take_block_def notifyWorkers_def DATA_TO_READ_def DATA_TO_MOVE_def DATA_TO_WRITE_def validateTarHeader_def readBlock.simps
  CircularIoWait_def CircularIoAvail_def CircularIoAdvanceIn_def CircularIoAdvanceOut_def CircularIoGetIn_def CircularIoGetOut_def
  CircularIoSetBlock_def CircularIoSetError_def CircularIoGetError_def CircularIoReset_def store_at_def load_at_def overwrite_def

text \<open>
  C13.
  A failed write can stop the stager for good. There is a schedule after which the writing thread
  and the moving thread have ended, because of the cancel flag that the failed write has set, while
  the reading thread sleeps in \<open>CircularIoWait\<close>: the moving thread has left its loop in the
  middle of a block, without \<open>CircularIoAdvanceOut\<close>. No thread can take a step, and
  \<open>io_readDone\<close>, for which the copy process waits, is never posted.
\<close>

theorem failed_write_hangs:
  "\<exists>s. stage_run tiny_env tiny_schedule tiny_stage = Some s \<and> (\<forall>t. stage_step tiny_env t s = None) \<and>
    rpc (rd s) = R_sleep \<and> mpc (mv s) = M_done \<and> wpc (wr s) = W_done \<and> write_errno (wr s) = ENOSPC \<and> \<not> readDone s"
proof -
  have "\<exists>s. stage_run tiny_env tiny_schedule tiny_stage = Some s \<and> rpc (rd s) = R_sleep \<and> \<not> cb_notFull (rbuf s) \<and>
      mpc (mv s) = M_done \<and> wpc (wr s) = W_done \<and> write_errno (wr s) = ENOSPC \<and> \<not> readDone s"
    by (simp add: tiny_schedule_def tiny_stage_def tiny_buffer_def stage_start_def tiny_env_def run_defs Let_def eval_nat_numeral)
  then obtain s where s: "stage_run tiny_env tiny_schedule tiny_stage = Some s" "rpc (rd s) = R_sleep" "\<not> cb_notFull (rbuf s)"
    "mpc (mv s) = M_done" "wpc (wr s) = W_done" "write_errno (wr s) = ENOSPC" "\<not> readDone s"
    by blast
  have "stage_step tiny_env t s = None" for t
    using s by (cases t) (simp_all add: stage_step_def reader_step_def mover_step_def writer_step_def Let_def)
  then show ?thesis
    using s by blast
qed

end
