(* ===== verification/Spec2Isabelle.thy ===== *)
theory Spec2Isabelle
  imports Arcopy_Threads Byte_Swap_Tables Csum_Threads Stage_Pipeline
begin

text \<open>
  SAM-QFS is a file system with a hierarchical storage manager. The archiver copies the data of
  files to archive files on tapes or disks, the releaser frees the disk space, and the stager
  copies the data back when a file is opened again. This development verifies the way of the data
  from the disk to the archive and back: the formats of the archive file, the copy process
  of the archiver, the copy process of the stager, the checksum both of them compute, and the
  conversion of the structures on disk between machines of different byte order.

  \<^bold>\<open>The parts and their theories.\<close>

  \<^item> Prelude: the C library as far as the sources use it, generic lemmas, and the collections
    of simplification rules. Bytes are \<^typ>\<open>char\<close>, an area of memory is a \<^typ>\<open>string\<close>, a
    pointer into it an offset, NULL is \<^const>\<open>None\<close>, integers are words of their width where the
    width matters. Status codes are integers; what the C standard leaves undefined, a call
    that does not return, and an abort are \<^const>\<open>None\<close> or a program counter of their own.

  \<^item> Pax\_Util, Pax\_Pair, Pax\_Xhdr, Pax\_Hdr, Pax\_Write: the pax header library
    (src/src/lib/pax\_hdr, src/include/pax\_hdr), file by file. Printing and parsing of numbers
    and of fractions of a second; pairs of a keyword and a value, and their lines; the list of
    pairs of an extended header, on a heap of nodes and refined to lists; the block
    of 512 bytes with the values that fit into it; writing and loading a header. The
    round trips go up from the digits of a number to a whole header. Locales: \<open>line_codec\<close>
    (lines that can be parsed one by one), \<open>hdr_value\<close> and \<open>hdr_values_apart\<close> (a value of a
    header with its set and get functions), \<open>filename_callback\<close> (the function that makes up
    names for the blocks).

  \<^item> Tar\_Numbers, Archive\_Header, Legacy\_Header: the header the archiver writes
    (src/src/archiver/arcopy/header.c, src/src/lib/samut/util.c), \<open>buildPaxHeader\<close> and
    \<open>buildLegacyHeader\<close> with all they call.

  \<^item> Arcopy\_Buffer, Arcopy\_Threads, Archive\_Copy: the copy process of the archiver
    (src/src/archiver/arcopy/copyfile.c). Arcopy\_Buffer has the circular buffer with
    \<open>WaitRoom\<close>, \<open>AdvanceIn\<close>, \<open>WriteData\<close>, \<open>RoundBuffer\<close> and \<open>CopyFileReconfig\<close>; the locale
    \<open>byte_queue\<close> is its contract. Arcopy\_Threads is the step relation of the copying
    thread and the writing thread, where every critical section is a step, with the invariant that
    what is on the medium and in the buffer is what was copied in. Archive\_Copy is \<open>CopyFile\<close>:
    the header, the data and the padding of a file, whatever the reads return.

  \<^item> Csum, Csum\_Threads: the checksum of a file (src/src/lib/samfs/cssimple.c, checksum.c of
    the archiver and of the stager), with the two threads of the archiver as a step relation, and
    the comparison when the file is staged.

  \<^item> Stage\_Read, Circular\_Io, Stage\_Pipeline: the copy process of the stager
    (src/src/stager/copy). Stage\_Read computes where the copy starts on the medium, reads
    blocks with retries and validates the header; the locale \<open>header_format\<close> is what the
    validation needs of a format, and the legacy and the pax header are its instances.
    Circular\_Io has the buffers between the threads, and the locale \<open>block_queue\<close> their contract.
    Stage\_Pipeline has the three threads \<open>ArchiveRead\<close>, \<open>DoubleBuffer\<close> and
    \<open>DiskCacheWrite\<close> with one step for each critical section and each access to a buffer.

  \<^item> Byte\_Swap, Byte\_Swap\_Tables: \<open>sam_byte_swap\<close> (src/src/fs/lib/bswap.c, bswap.h), all
    tables of bswap\_data.c, and the conversion of superblocks.

  \<^bold>\<open>How the parts meet.\<close> \<open>CopyFile\<close> puts the header of \<open>Archive_Header\<close> or \<open>Legacy_Header\<close>
  and the data into the buffer of \<open>Arcopy_Buffer\<close>, from which the writing thread of
  \<open>Arcopy_Threads\<close> takes what reaches the medium. The bytes of the header are those
  \<open>ph_load_pax_hdr\<close> of \<open>Pax_Write\<close> and the validation of \<open>Stage_Read\<close> accept. The checksum that
  \<open>Csum_Threads\<close> computes of the pieces \<open>copyRegular\<close> hands over is what \<open>ChecksumCompare\<close>
  accepts after the stage, if need be after \<open>cs_repair\<close>, whose conversion is \<open>sam_bswap4\<close> of
  \<open>Byte_Swap\<close>.

  \<^bold>\<open>Termination and bounds.\<close> All functions are total. Loops that may not end are written with
  \<open>partial_function (option)\<close>: \<open>parse_fpart\<close>, which is shown to return exactly for at most 18
  digits, \<open>copy_loop\<close>, which is shown to return when the flag it leaves unset is true, and the
  walks along lists of nodes, which return on lists. \<open>readBlock\<close> ends since the number of
  retries decreases. The runs of the two threads of a checksum have at most four steps for each
  piece and one more. There is no fuel.

  \<^bold>\<open>Not modelled.\<close> Everything below the two copy processes: drives, robots, positioning of media,
  remote and disk volumes; here a device is a parameter that returns for each read or write
  what the system call returns. The user and group data bases, the clock and the contents of the
  files are parameters in the same way. Of the stager, the reuse of blocks
  that an earlier request has left in the buffer, a failed positioning, and the closing of
  the disk cache file. The daemons that schedule the requests, the kernel part of the file
  system, the recycler, the releaser, the catalog, the management library, the user interface
  and the commands are outside of the way of the data. Trace messages, statistics, freeing of memory
  and failed allocations, which end the process, are left out everywhere.
\<close>

end
